(* ===== verification/Prelude.thy ===== *)
theory Prelude
  imports Complex_Main "HOL-Library.Word" "HOL-Library.List_Lexorder" "HOL-Library.Char_ord"
begin

text \<open>
  Shared ground of the development: the exceptions the Python code can raise, the computations
  that pass a state, raise, or do not return, the relational rules by which an operation is shown
  to respect a state invariant, and the few pieces of the Python standard library the mapper
  calls on bytes, integers and strings (slices, \<open>struct.pack\<close>, \<open>int.from_bytes\<close>,
  \<open>bytes.fromhex\<close>, \<open>str.upper/lower/split/join/replace\<close>).
\<close>

unbundle bit_operations_syntax

named_theorems monad_simps \<open>evaluation of the computation combinators\<close>
named_theorems keeps_rules \<open>operations that respect a state relation\<close>

section \<open>Bytes and exceptions\<close>

type_synonym byte = "8 word"
type_synonym bytes = "byte list"

datatype exn =
    AttributeError string
  | KeyError string
  | NameError string
  | IndexError
  | ValueError
  | StructError
  | TypeError
  | SerialException
  | RuntimeError string
  | ModuleNotFoundError string

section \<open>Computations\<close>

text \<open>
  A computation takes the state of the Python objects and of the outside world. It returns a
  value and the new state, or raises an exception (what was assigned before stays assigned, so
  the exception carries the state), or does not return: a loop whose fuel ran out, or a blocking
  call of the outside world that never comes back.
\<close>

datatype ('a, 's) res = Ret 'a 's | Raise exn 's | NoRet

type_synonym ('s, 'a) comp = "'s \<Rightarrow> ('a, 's) res"

definition unitM :: "'a \<Rightarrow> ('s, 'a) comp" where
  "unitM x s = Ret x s"

definition raiseM :: "exn \<Rightarrow> ('s, 'a) comp" where
  "raiseM e s = Raise e s"

definition bindM :: "('s, 'a) comp \<Rightarrow> ('a \<Rightarrow> ('s, 'b) comp) \<Rightarrow> ('s, 'b) comp" where
  "bindM m f s = (case m s of Ret x t \<Rightarrow> f x t | Raise e t \<Rightarrow> Raise e t | NoRet \<Rightarrow> NoRet)"

definition thenM :: "('s, 'a) comp \<Rightarrow> ('s, 'b) comp \<Rightarrow> ('s, 'b) comp" where
  "thenM m k = bindM m (\<lambda>_. k)"

definition getM :: "('s \<Rightarrow> 'a) \<Rightarrow> ('s, 'a) comp" where
  "getM f s = Ret (f s) s"

definition modM :: "('s \<Rightarrow> 's) \<Rightarrow> ('s, unit) comp" where
  "modM g s = Ret () (g s)"

definition liftE :: "exn + 'a \<Rightarrow> ('s, 'a) comp" where
  "liftE r = (case r of Inl e \<Rightarrow> raiseM e | Inr x \<Rightarrow> unitM x)"

text \<open>A chain of steps of which each may fail, with no state.\<close>

definition bindE :: "exn + 'a \<Rightarrow> ('a \<Rightarrow> exn + 'b) \<Rightarrow> exn + 'b" where
  "bindE r f = (case r of Inl e \<Rightarrow> Inl e | Inr x \<Rightarrow> f x)"

lemma bindE_simps [simp]: "bindE (Inl e) f = Inl e" "bindE (Inr x) f = f x"
  by (simp_all add: bindE_def)

lemma bindE_eq_Inr: "bindE r f = Inr y \<longleftrightarrow> (\<exists>x. r = Inr x \<and> f x = Inr y)"
  by (simp add: bindE_def split: sum.split)

definition whenM :: "bool \<Rightarrow> ('s, unit) comp \<Rightarrow> ('s, unit) comp" where
  "whenM b m = (if b then m else unitM ())"

text \<open>A \<open>for\<close> loop over a list, and a \<open>for\<close> loop that threads a value.\<close>

fun forM :: "'b list \<Rightarrow> ('b \<Rightarrow> ('s, unit) comp) \<Rightarrow> ('s, unit) comp" where
  "forM [] f = unitM ()"
| "forM (x # xs) f = thenM (f x) (forM xs f)"

fun foldM :: "'b list \<Rightarrow> ('b \<Rightarrow> 'a \<Rightarrow> ('s, 'a) comp) \<Rightarrow> 'a \<Rightarrow> ('s, 'a) comp" where
  "foldM [] f a = unitM a"
| "foldM (x # xs) f a = bindM (f x a) (foldM xs f)"

text \<open>\<open>try: m / except: h\<close>, where the handler catches every exception.\<close>

definition tryM :: "('s, 'a) comp \<Rightarrow> (exn \<Rightarrow> ('s, 'a) comp) \<Rightarrow> ('s, 'a) comp" where
  "tryM m h s = (case m s of Ret x t \<Rightarrow> Ret x t | Raise e t \<Rightarrow> h e t | NoRet \<Rightarrow> NoRet)"

lemmas [monad_simps] =
  unitM_def raiseM_def bindM_def thenM_def getM_def modM_def liftE_def whenM_def tryM_def

lemma bindM_Ret [simp]: "m s = Ret x t \<Longrightarrow> bindM m f s = f x t"
  by (simp add: bindM_def)

lemma bindM_Raise [simp]: "m s = Raise e t \<Longrightarrow> bindM m f s = Raise e t"
  by (simp add: bindM_def)

lemma bindM_NoRet [simp]: "m s = NoRet \<Longrightarrow> bindM m f s = NoRet"
  by (simp add: bindM_def)

lemma bindM_eq_Ret:
  "bindM m f s = Ret y u \<longleftrightarrow> (\<exists>x t. m s = Ret x t \<and> f x t = Ret y u)"
  by (simp add: bindM_def split: res.split)

lemma bindM_eq_NoRet:
  "bindM m f s = NoRet \<longleftrightarrow> m s = NoRet \<or> (\<exists>x t. m s = Ret x t \<and> f x t = NoRet)"
  by (simp add: bindM_def split: res.split)

lemma thenM_eq_Ret:
  "thenM m k s = Ret y u \<longleftrightarrow> (\<exists>x t. m s = Ret x t \<and> k t = Ret y u)"
  by (simp add: thenM_def bindM_eq_Ret)

lemma liftE_eq_Ret: "liftE r s = Ret x t \<longleftrightarrow> r = Inr x \<and> t = s"
  by (auto simp: liftE_def unitM_def raiseM_def split: sum.split)

lemma getM_eq_Ret: "getM f s = Ret x t \<longleftrightarrow> x = f s \<and> t = s"
  by (auto simp: getM_def)

lemma modM_eq_Ret: "modM g s = Ret x t \<longleftrightarrow> t = g s"
  by (auto simp: modM_def)

lemmas ret_simps = liftE_eq_Ret getM_eq_Ret modM_eq_Ret bindM_eq_Ret thenM_eq_Ret

lemma bindM_assoc: "bindM (bindM m f) g = bindM m (\<lambda>x. bindM (f x) g)"
  by (rule ext) (simp add: bindM_def split: res.split)

lemma bindM_unitM [simp]: "bindM (unitM x) f = f x"
  by (rule ext) (simp add: bindM_def unitM_def)

lemma unitM_eq [simp]: "unitM x s = Ret y t \<longleftrightarrow> x = y \<and> s = t"
  by (simp add: unitM_def)

text \<open>The state a computation stopped in, if it stopped.\<close>

fun final :: "('a, 's) res \<Rightarrow> 's option" where
  "final (Ret x s) = Some s"
| "final (Raise e s) = Some s"
| "final NoRet = None"

section \<open>Relations that operations respect\<close>

text \<open>
  \<open>keeps R m\<close>: whichever way \<open>m\<close> ends, its last state is \<open>R\<close>-related to its first one.
  With \<open>R s t = (I s \<longrightarrow> I t)\<close> this says that \<open>m\<close> keeps the invariant \<open>I\<close>, also where
  it raises; with \<open>R s t = (f s = f t)\<close> that it does not touch \<open>f\<close>.
\<close>

definition keeps :: "('s \<Rightarrow> 's \<Rightarrow> bool) \<Rightarrow> ('s, 'a) comp \<Rightarrow> bool" where
  "keeps R m \<longleftrightarrow> (\<forall>s t. final (m s) = Some t \<longrightarrow> R s t)"

lemma keepsI: "(\<And>s t. final (m s) = Some t \<Longrightarrow> R s t) \<Longrightarrow> keeps R m"
  by (simp add: keeps_def)

lemma keepsD: "keeps R m \<Longrightarrow> final (m s) = Some t \<Longrightarrow> R s t"
  by (simp add: keeps_def)

lemma keeps_mono: "keeps R m \<Longrightarrow> (\<And>s t. R s t \<Longrightarrow> Q s t) \<Longrightarrow> keeps Q m"
  by (auto simp: keeps_def)

lemma keeps_Ret: "keeps R m \<Longrightarrow> m s = Ret x t \<Longrightarrow> R s t"
  using keepsD [of R m s t] by simp

lemma keeps_Raise: "keeps R m \<Longrightarrow> m s = Raise e t \<Longrightarrow> R s t"
  using keepsD [of R m s t] by simp

locale stepwise =
  fixes R :: "'s \<Rightarrow> 's \<Rightarrow> bool"
  assumes step_refl: "R s s"
    and step_trans: "R s t \<Longrightarrow> R t u \<Longrightarrow> R s u"
begin

lemma keeps_unitM: "keeps R (unitM x)"
  by (simp add: keeps_def unitM_def step_refl)

lemma keeps_raiseM: "keeps R (raiseM e)"
  by (simp add: keeps_def raiseM_def step_refl)

lemma keeps_getM: "keeps R (getM f)"
  by (simp add: keeps_def getM_def step_refl)

lemma keeps_liftE: "keeps R (liftE r)"
  by (simp add: liftE_def keeps_unitM keeps_raiseM split: sum.split)

lemma keeps_modM: "(\<And>s. R s (g s)) \<Longrightarrow> keeps R (modM g)"
  by (simp add: keeps_def modM_def)

lemma keeps_bindM:
  assumes m: "keeps R m" and f: "\<And>x. keeps R (f x)"
  shows "keeps R (bindM m f)"
proof (rule keepsI)
  fix s u
  assume u: "final (bindM m f s) = Some u"
  show "R s u"
  proof (cases "m s")
    case (Ret x t)
    then have "final (f x t) = Some u" using u by simp
    then have "R t u" by (rule keepsD [OF f])
    with keeps_Ret [OF m Ret] show ?thesis by (rule step_trans)
  next
    case (Raise e t)
    with u keeps_Raise [OF m Raise] show ?thesis by simp
  next
    case NoRet
    with u show ?thesis by simp
  qed
qed

lemma keeps_bind_liftE: "(\<And>x. r = Inr x \<Longrightarrow> keeps R (f x)) \<Longrightarrow> keeps R (bindM (liftE r) f)"
  by (cases r) (simp_all add: liftE_def keeps_def bindM_def raiseM_def unitM_def step_refl)

lemma keeps_thenM: "keeps R m \<Longrightarrow> keeps R k \<Longrightarrow> keeps R (thenM m k)"
  by (simp add: thenM_def keeps_bindM)

lemma keeps_whenM: "(b \<Longrightarrow> keeps R m) \<Longrightarrow> keeps R (whenM b m)"
  by (simp add: whenM_def keeps_unitM)

lemma keeps_if: "(b \<Longrightarrow> keeps R m) \<Longrightarrow> (\<not> b \<Longrightarrow> keeps R k) \<Longrightarrow> keeps R (if b then m else k)"
  by simp

lemma keeps_forM: "(\<And>x. x \<in> set xs \<Longrightarrow> keeps R (f x)) \<Longrightarrow> keeps R (forM xs f)"
  by (induction xs) (simp_all add: keeps_unitM keeps_thenM)

lemma keeps_foldM: "(\<And>x a. x \<in> set xs \<Longrightarrow> keeps R (f x a)) \<Longrightarrow> keeps R (foldM xs f a)"
  by (induction xs arbitrary: a) (simp_all add: keeps_unitM keeps_bindM)

lemma keeps_tryM:
  assumes m: "keeps R m" and h: "\<And>e. keeps R (h e)"
  shows "keeps R (tryM m h)"
proof (rule keepsI)
  fix s u
  assume u: "final (tryM m h s) = Some u"
  show "R s u"
  proof (cases "m s")
    case (Raise e t)
    then have "R t u" using u h [of e] by (simp add: tryM_def keeps_def)
    with keeps_Raise [OF m Raise] show ?thesis by (rule step_trans)
  qed (use u keeps_Ret [OF m] in \<open>auto simp: tryM_def\<close>)
qed

lemmas comp_rules =
  keeps_unitM keeps_raiseM keeps_getM keeps_liftE keeps_bindM keeps_thenM keeps_whenM
  keeps_if keeps_forM keeps_foldM keeps_tryM

end

section \<open>Computations that end\<close>

text \<open>\<open>halts m\<close>: from every state, \<open>m\<close> returns or raises; \<open>returns m\<close>: it returns.\<close>

definition halts :: "('s, 'a) comp \<Rightarrow> bool" where
  "halts m \<longleftrightarrow> (\<forall>s. m s \<noteq> NoRet)"

definition returns :: "('s, 'a) comp \<Rightarrow> bool" where
  "returns m \<longleftrightarrow> (\<forall>s. \<exists>x t. m s = Ret x t)"

lemma haltsI: "(\<And>s. m s \<noteq> NoRet) \<Longrightarrow> halts m"
  by (simp add: halts_def)

lemma haltsD: "halts m \<Longrightarrow> m s \<noteq> NoRet"
  by (simp add: halts_def)

lemma returns_halts: "returns m \<Longrightarrow> halts m"
  unfolding returns_def halts_def by (metis res.distinct(3))

lemma halts_unitM: "halts (unitM x)"
  by (simp add: halts_def unitM_def)

lemma halts_raiseM: "halts (raiseM e)"
  by (simp add: halts_def raiseM_def)

lemma halts_getM: "halts (getM f)"
  by (simp add: halts_def getM_def)

lemma halts_modM: "halts (modM g)"
  by (simp add: halts_def modM_def)

lemma halts_liftE: "halts (liftE r)"
  by (simp add: liftE_def halts_unitM halts_raiseM split: sum.split)

lemma halts_bindM: "halts m \<Longrightarrow> (\<And>x. halts (f x)) \<Longrightarrow> halts (bindM m f)"
  by (simp add: halts_def bindM_eq_NoRet)

lemma halts_thenM: "halts m \<Longrightarrow> halts k \<Longrightarrow> halts (thenM m k)"
  by (simp add: thenM_def halts_bindM)

lemma halts_whenM: "(b \<Longrightarrow> halts m) \<Longrightarrow> halts (whenM b m)"
  by (simp add: whenM_def halts_unitM)

lemma halts_if: "(b \<Longrightarrow> halts m) \<Longrightarrow> (\<not> b \<Longrightarrow> halts k) \<Longrightarrow> halts (if b then m else k)"
  by simp

lemma halts_forM: "(\<And>x. x \<in> set xs \<Longrightarrow> halts (f x)) \<Longrightarrow> halts (forM xs f)"
  by (induction xs) (simp_all add: halts_unitM halts_thenM)

lemma halts_foldM: "(\<And>x a. x \<in> set xs \<Longrightarrow> halts (f x a)) \<Longrightarrow> halts (foldM xs f a)"
  by (induction xs arbitrary: a) (simp_all add: halts_unitM halts_bindM)

lemma halts_tryM: "halts m \<Longrightarrow> (\<And>e. halts (h e)) \<Longrightarrow> halts (tryM m h)"
  by (simp add: halts_def tryM_def split: res.split)

lemmas halts_rules =
  halts_unitM halts_raiseM halts_getM halts_modM halts_liftE halts_bindM halts_thenM halts_whenM
  halts_if halts_forM halts_foldM halts_tryM

lemma foldM_append: "foldM (xs @ ys) f = (\<lambda>a. bindM (foldM xs f a) (foldM ys f))"
  by (induction xs) (rule ext, simp add: bindM_assoc)+

end
