(* ===== verification/PyLib.thy ===== *)
theory PyLib
  imports Prelude
begin

text \<open>
  The parts of Python's standard library the mapper relies on, as functions of their documented
  behaviour: slices and indexing, little-endian \<open>struct.pack\<close> and \<open>int.from_bytes\<close>,
  \<open>bytes.hex\<close> and \<open>bytes.fromhex\<close>, and the string methods. Strings are ASCII.
\<close>

section \<open>Slices and indexing\<close>

definition py_index :: "'a list \<Rightarrow> nat \<Rightarrow> exn + 'a" where
  "py_index xs i = (if i < length xs then Inr (xs ! i) else Inl IndexError)"

text \<open>\<open>xs[-1]\<close>, \<open>xs[:-k]\<close> and \<open>xs[a:-k]\<close> for \<open>k > 0\<close>.\<close>

definition py_last :: "'a list \<Rightarrow> exn + 'a" where
  "py_last xs = (if xs = [] then Inl IndexError else Inr (last xs))"

definition upto_neg :: "'a list \<Rightarrow> nat \<Rightarrow> 'a list" where
  "upto_neg xs k = take (length xs - k) xs"

definition slice_neg :: "'a list \<Rightarrow> nat \<Rightarrow> nat \<Rightarrow> 'a list" where
  "slice_neg xs a k = drop a (upto_neg xs k)"

lemma py_index_Inr: "i < length xs \<Longrightarrow> py_index xs i = Inr (xs ! i)"
  by (simp add: py_index_def)

lemma upto_neg_append [simp]: "length zs = k \<Longrightarrow> upto_neg (xs @ zs) k = xs"
  by (simp add: upto_neg_def)

lemma slice_neg_append [simp]:
  "length xs = a \<Longrightarrow> length zs = k \<Longrightarrow> slice_neg (xs @ ys @ zs) a k = ys"
  using upto_neg_append [of zs k "xs @ ys"] by (simp add: slice_neg_def)

section \<open>Codecs\<close>

text \<open>
  An encoder and a decoder that undo each other on the encoder's domain: the contract of every
  wire or text format below, and the fact its clients use: different values are written
  differently.
\<close>

locale codec =
  fixes enc :: "'a \<Rightarrow> 'b" and dec :: "'b \<Rightarrow> 'a" and valid :: "'a \<Rightarrow> bool"
  assumes dec_enc: "valid x \<Longrightarrow> dec (enc x) = x"
begin

lemma enc_eq_iff: "valid x \<Longrightarrow> valid y \<Longrightarrow> enc x = enc y \<longleftrightarrow> x = y"
  by (metis dec_enc)

lemma enc_inj_on: "inj_on enc {x. valid x}"
  by (rule inj_onI) (simp add: enc_eq_iff)

end

section \<open>Integers in little-endian order\<close>

fun le_bytes :: "nat \<Rightarrow> int \<Rightarrow> bytes" where
  "le_bytes 0 v = []"
| "le_bytes (Suc n) v = word_of_int v # le_bytes n (v div 256)"

fun from_le :: "bytes \<Rightarrow> int" where
  "from_le [] = 0"
| "from_le (b # bs) = uint b + 256 * from_le bs"

definition struct_pack_le :: "nat \<Rightarrow> int \<Rightarrow> exn + bytes" where
  "struct_pack_le n v = (if 0 \<le> v \<and> v < 256 ^ n then Inr (le_bytes n v) else Inl StructError)"

text \<open>\<open>bytearray([v])\<close>: one byte, or a \<open>ValueError\<close>.\<close>

definition one_byte :: "int \<Rightarrow> exn + byte" where
  "one_byte v = (if 0 \<le> v \<and> v < 256 then Inr (word_of_int v) else Inl ValueError)"

lemma length_le_bytes [simp]: "length (le_bytes n v) = n"
  by (induction n arbitrary: v) simp_all

lemma le_bytes_1: "le_bytes 1 v = [word_of_int v]"
  by (simp add: numeral_eq_Suc)

lemma le_bytes_2: "le_bytes 2 v = [word_of_int v, word_of_int (v div 256)]"
  by (simp add: numeral_eq_Suc)

lemma le_bytes_zero: "le_bytes n 0 = replicate n 0"
  by (induction n) simp_all

lemma take_le_bytes: "k \<le> n \<Longrightarrow> take k (le_bytes n v) = le_bytes k v"
proof (induction k arbitrary: n v)
  case (Suc k)
  then obtain m where "n = Suc m" "k \<le> m" by (cases n) auto
  with Suc.IH show ?case by simp
qed simp

lemma from_le_bytes: "from_le (le_bytes n v) = v mod 256 ^ n"
proof (induction n arbitrary: v)
  case (Suc n)
  have "v mod (256 * 256 ^ n) = 256 * (v div 256 mod 256 ^ n) + v mod 256"
    by (rule zmod_zmult2_eq) simp
  with Suc.IH show ?case by (simp add: uint_word_of_int)
qed simp

lemma from_le_bounds: "0 \<le> from_le bs \<and> from_le bs < 256 ^ length bs"
proof (induction bs)
  case (Cons b bs)
  have "uint b < 256" using uint_lt2p [of b] by simp
  with Cons.IH uint_ge_0 [of b] show ?case by simp
qed simp

lemma le_bytes_from_le: "le_bytes (length bs) (from_le bs) = bs"
proof (induction bs)
  case (Cons b bs)
  have "uint b < 256" using uint_lt2p [of b] by simp
  then have "(uint b + 256 * from_le bs) div 256 = from_le bs"
    using uint_ge_0 [of b] by simp
  moreover have "word_of_int (uint b + 256 * from_le bs) = b"
  proof -
    have "(256 :: byte) = 0" by simp
    then show ?thesis by (simp only: of_int_add of_int_mult of_int_numeral) simp
  qed
  ultimately show ?case using Cons.IH by simp
qed simp

lemma le_bytes_eq_iff: "le_bytes n v = le_bytes n w \<longleftrightarrow> v mod 256 ^ n = w mod 256 ^ n"
proof
  assume "le_bytes n v = le_bytes n w"
  then show "v mod 256 ^ n = w mod 256 ^ n" by (metis from_le_bytes)
next
  assume eq: "v mod 256 ^ n = w mod 256 ^ n"
  have "le_bytes n v = le_bytes n (from_le (le_bytes n v))"
    using le_bytes_from_le [of "le_bytes n v"] by simp
  moreover have "le_bytes n w = le_bytes n (from_le (le_bytes n w))"
    using le_bytes_from_le [of "le_bytes n w"] by simp
  ultimately show "le_bytes n v = le_bytes n w" using eq by (simp add: from_le_bytes)
qed

interpretation le2: codec "le_bytes 2" from_le "\<lambda>v. 0 \<le> v \<and> v < 65536"
  by unfold_locales (simp add: from_le_bytes)

section \<open>Hexadecimal text\<close>

definition hex_digit :: "nat \<Rightarrow> char" where
  "hex_digit n = ''0123456789abcdef'' ! n"

definition byte_hex :: "byte \<Rightarrow> string" where
  "byte_hex b = [hex_digit (unat b div 16), hex_digit (unat b mod 16)]"

definition unhex_digit :: "char \<Rightarrow> nat option" where
  "unhex_digit c =
     (let n = of_char c in
      if 48 \<le> n \<and> n \<le> 57 then Some (n - 48)
      else if 97 \<le> n \<and> n \<le> 102 then Some (n - 87)
      else if 65 \<le> n \<and> n \<le> 70 then Some (n - 55)
      else None)"

definition is_space :: "char \<Rightarrow> bool" where
  "is_space c = (let n = (of_char c :: nat) in n = 32 \<or> 9 \<le> n \<and> n \<le> 13)"

text \<open>\<open>bytes.fromhex\<close>: pairs of digits; white space is skipped between the pairs only.\<close>

fun fromhex :: "string \<Rightarrow> exn + bytes" where
  "fromhex [] = Inr []"
| "fromhex [c] = (if is_space c then Inr [] else Inl ValueError)"
| "fromhex (c # d # s) =
     (if is_space c then fromhex (d # s)
      else case (unhex_digit c, unhex_digit d) of
        (Some a, Some b) \<Rightarrow> map_sum id (Cons (of_nat (16 * a + b))) (fromhex s)
      | _ \<Rightarrow> Inl ValueError)"

lemma hex_digit_cases: "n < 16 \<Longrightarrow> unhex_digit (hex_digit n) = Some n \<and> \<not> is_space (hex_digit n)"
proof -
  have "\<forall>n \<in> set [0..<16]. unhex_digit (hex_digit n) = Some n \<and> \<not> is_space (hex_digit n)"
    by code_simp
  then show "n < 16 \<Longrightarrow> ?thesis" by simp
qed

lemma hex_digit_not_colon: "n < 16 \<Longrightarrow> hex_digit n \<noteq> CHR '':''"
proof -
  have "\<forall>n \<in> set [0..<16]. hex_digit n \<noteq> CHR '':''" by code_simp
  then show "n < 16 \<Longrightarrow> ?thesis" by simp
qed

lemma unat_byte_less: "unat (b :: byte) < 256"
  using unsigned_less [of b, where ?'a = nat] by simp

lemma fromhex_byte_hex [simp]:
  "fromhex (byte_hex b @ s) = map_sum id (Cons b) (fromhex s)"
proof -
  have hi: "unat b div 16 < 16" and lo: "unat b mod 16 < 16"
    using unat_byte_less [of b] by auto
  have "16 * (unat b div 16) + unat b mod 16 = unat b" by simp
  then have "of_nat (16 * (unat b div 16) + unat b mod 16) = b"
    by simp
  with hex_digit_cases [OF hi] hex_digit_cases [OF lo] show ?thesis
    by (simp add: byte_hex_def)
qed

lemma fromhex_hex: "fromhex (concat (map byte_hex bs)) = Inr bs"
  by (induction bs) simp_all

section \<open>Strings\<close>

definition upper_char :: "char \<Rightarrow> char" where
  "upper_char c = (let n = (of_char c :: nat) in if 97 \<le> n \<and> n \<le> 122 then char_of (n - 32) else c)"

definition lower_char :: "char \<Rightarrow> char" where
  "lower_char c = (let n = (of_char c :: nat) in if 65 \<le> n \<and> n \<le> 90 then char_of (n + 32) else c)"

definition py_upper :: "string \<Rightarrow> string" where
  "py_upper s = map upper_char s"

definition py_lower :: "string \<Rightarrow> string" where
  "py_lower s = map lower_char s"

fun py_join :: "string \<Rightarrow> string list \<Rightarrow> string" where
  "py_join sep [] = []"
| "py_join sep [w] = w"
| "py_join sep (w # v # ws) = w @ sep @ py_join sep (v # ws)"

text \<open>\<open>s.split(c)\<close> for a one-character separator.\<close>

fun py_split :: "char \<Rightarrow> string \<Rightarrow> string list" where
  "py_split c [] = [[]]"
| "py_split c (x # xs) =
     (if x = c then [] # py_split c xs
      else case py_split c xs of [] \<Rightarrow> [[x]] | w # ws \<Rightarrow> (x # w) # ws)"

text \<open>\<open>s.replace(old, new)\<close> for a non-empty \<open>old\<close>, and \<open>sub in s\<close>.\<close>

function py_replace :: "string \<Rightarrow> string \<Rightarrow> string \<Rightarrow> string" where
  "py_replace old new [] = []"
| "py_replace old new (c # s) =
     (if old \<noteq> [] \<and> take (length old) (c # s) = old
      then new @ py_replace old new (drop (length old - 1) s)
      else c # py_replace old new s)"
  by pat_completeness auto
termination
  by (relation "measure (\<lambda>(old, new, s). length s)") auto

fun py_contains :: "string \<Rightarrow> string \<Rightarrow> bool" where
  "py_contains sub [] = (sub = [])"
| "py_contains sub (c # s) = (take (length sub) (c # s) = sub \<or> py_contains sub s)"

lemma py_split_not_Nil [simp]: "py_split c s \<noteq> []"
  by (cases s) (auto split: list.split)

lemma py_split_plain: "c \<notin> set w \<Longrightarrow> py_split c w = [w]"
  by (induction w) auto

lemma py_split_append: "c \<notin> set w \<Longrightarrow> py_split c (w @ c # s) = w # py_split c s"
  by (induction w) (auto split: list.split)

lemma py_split_join:
  "ws \<noteq> [] \<Longrightarrow> \<forall>w \<in> set ws. c \<notin> set w \<Longrightarrow> py_split c (py_join [c] ws) = ws"
  by (induction "[c]" ws rule: py_join.induct) (auto simp: py_split_plain py_split_append)

lemma py_join_split: "py_join [c] (py_split c s) = s"
proof (induction s)
  case (Cons x s)
  obtain w ws where "py_split c s = w # ws" by (cases "py_split c s") auto
  with Cons show ?case by (cases ws) auto
qed simp

lemma py_split_no_sep: "w \<in> set (py_split c s) \<Longrightarrow> c \<notin> set w"
  by (induction s arbitrary: w) (fastforce split: list.splits if_splits)+

lemma py_replace_drop_char: "py_replace [c] [] s = filter (\<lambda>x. x \<noteq> c) s"
  by (induction s) auto

lemma py_contains_iff: "py_contains sub s \<longleftrightarrow> (\<exists>a b. s = a @ sub @ b)"
proof (induction s)
  case (Cons c s)
  have "take (length sub) (c # s) = sub \<longleftrightarrow> (\<exists>b. c # s = sub @ b)"
    by (metis append_eq_conv_conj)
  moreover have "(\<exists>a b. c # s = a @ sub @ b) \<longleftrightarrow>
      (\<exists>b. c # s = sub @ b) \<or> (\<exists>a b. s = a @ sub @ b)"
    by (metis append_Cons append_Nil list.inject neq_Nil_conv)
  ultimately show ?case using Cons.IH by simp
qed auto

interpretation plus: codec "py_join [c]" "py_split c" "\<lambda>ws. ws \<noteq> [] \<and> (\<forall>w \<in> set ws. c \<notin> set w)"
  by unfold_locales (blast intro: py_split_join)

end
