(* ===== verification/Packets.thy ===== *)
theory Packets
  imports PyLib "HOL-Library.AList"
begin

text \<open>
  Packets as the mapper handles them: scapy's stack of layers, outermost first, each with the
  fields that are set on it. The mapper builds packets with \<open>/\<close> (append), asks for layers with
  \<open>in\<close>, reads fields through the whole stack (\<open>pkt.field\<close>) or from a layer on
  (\<open>pkt[Layer].field\<close>), and converts to and from bytes. The conversions and \<open>summary()\<close> are
  scapy's, and stay parameters of the model (theory World).
\<close>

section \<open>Layers, fields, packets\<close>

datatype (plugins only: code size) lname =
    BTLE | BTLE_ADV | BTLE_ADV_IND | BTLE_ADV_NONCONN_IND | BTLE_ADV_DIRECT_IND
  | BTLE_SCAN_REQ | BTLE_SCAN_RSP | BTLE_CONNECT_REQ | BTLE_DATA | BTLE_CTRL
  | LL_TERMINATE_IND | LL_ENC_REQ | LL_ENC_RSP | LL_START_ENC_REQ | LL_START_ENC_RSP
  | LL_UNKNOWN_RSP | LL_FEATURE_REQ | LL_FEATURE_RSP | LL_PAUSE_ENC_REQ | LL_PAUSE_ENC_RSP
  | LL_VERSION_IND | LL_REJECT_IND | LL_SLAVE_FEATURE_REQ | LL_REJECT_EXT_IND
  | LL_LENGTH_REQ | LL_LENGTH_RSP | LL_PHY_REQ | LL_PHY_RSP | LL_PHY_UPDATE_IND
  | L2CAP_Hdr | L2CAP_CmdHdr | L2CAP_Connection_Parameter_Update_Request
  | SM_Hdr | SM_Pairing_Request | SM_Pairing_Response | SM_Confirm | SM_Random | SM_Failed
  | SM_Encryption_Information | SM_Master_Identification | SM_Identity_Information
  | SM_Identity_Address_Information | SM_Signing_Information | SM_Public_Key | SM_DHKey_Check
  | ATT_Hdr | ATT_Error_Response | ATT_Exchange_MTU_Request | ATT_Exchange_MTU_Response
  | ATT_Read_By_Type_Request | ATT_Read_By_Type_Response
  | ATT_Read_By_Group_Type_Request | ATT_Read_By_Group_Type_Response
  | ATT_Read_Request | ATT_Read_Response
  | HCI_Hdr | HCI_ACL_Hdr | HCI_Cmd_LE_Enable_Encryption
  | RawLayer | OtherLayer string

text \<open>Field values; \<open>VRaw\<close> is scapy's \<open>RawVal\<close>, bytes that are put on the wire as they are.\<close>

datatype val = VInt int | VStr string | VBytes bytes | VRaw bytes | VNone

datatype layer = Layer (lname: lname) (lfields: "(string \<times> val) list")

type_synonym packet = "layer list"

definition haslayer :: "lname \<Rightarrow> packet \<Rightarrow> bool" where
  "haslayer n p \<longleftrightarrow> list_ex (\<lambda>l. lname l = n) p"

text \<open>\<open>pkt.field\<close> and \<open>hasattr(pkt, field)\<close>: the first layer of the stack that has the field.\<close>

fun lookup_field :: "string \<Rightarrow> packet \<Rightarrow> val option" where
  "lookup_field f [] = None"
| "lookup_field f (l # ls) =
     (case map_of (lfields l) f of Some v \<Rightarrow> Some v | None \<Rightarrow> lookup_field f ls)"

definition getattr :: "packet \<Rightarrow> string \<Rightarrow> exn + val" where
  "getattr p f = (case lookup_field f p of Some v \<Rightarrow> Inr v | None \<Rightarrow> Inl (AttributeError f))"

text \<open>\<open>pkt.field = v\<close>: the first layer that has the field.\<close>

fun setattr :: "packet \<Rightarrow> string \<Rightarrow> val \<Rightarrow> packet" where
  "setattr [] f v = []"
| "setattr (l # ls) f v =
     (if map_of (lfields l) f \<noteq> None then Layer (lname l) (AList.update f v (lfields l)) # ls
      else l # setattr ls f v)"

text \<open>\<open>pkt[Layer]\<close>: the stack from the first such layer on.\<close>

definition from_layer :: "packet \<Rightarrow> lname \<Rightarrow> exn + packet" where
  "from_layer p n =
     (case dropWhile (\<lambda>l. lname l \<noteq> n) p of [] \<Rightarrow> Inl IndexError | q \<Rightarrow> Inr q)"

text \<open>\<open>v.upper()\<close> where \<open>v\<close> has it (\<open>hasattr(v, 'upper')\<close>): strings and bytes.\<close>

definition upper_byte :: "byte \<Rightarrow> byte" where
  "upper_byte b = (if 97 \<le> b \<and> b \<le> 122 then b - 32 else b)"

fun val_upper :: "val \<Rightarrow> val option" where
  "val_upper (VStr s) = Some (VStr (py_upper s))"
| "val_upper (VBytes b) = Some (VBytes (map upper_byte b))"
| "val_upper _ = None"

section \<open>Facts\<close>

lemma haslayer_simps [simp]:
  "haslayer n [] = False"
  "haslayer n (l # p) = (lname l = n \<or> haslayer n p)"
  "haslayer n (p @ q) = (haslayer n p \<or> haslayer n q)"
  by (simp_all add: haslayer_def)

lemma from_layer_Inr: "haslayer n p \<Longrightarrow> \<exists>q. from_layer p n = Inr q \<and> q \<noteq> []"
proof -
  assume "haslayer n p"
  then have "dropWhile (\<lambda>l. lname l \<noteq> n) p \<noteq> []"
    by (auto simp: haslayer_def list_ex_iff)
  then show ?thesis by (auto simp: from_layer_def split: list.split)
qed

lemma getattr_Inr: "getattr p f = Inr v \<longleftrightarrow> lookup_field f p = Some v"
  by (simp add: getattr_def split: option.split)

lemma setattr_same_layers: "map lname (setattr p f v) = map lname p"
  by (induction p f v rule: setattr.induct) auto

lemma lookup_setattr:
  "lookup_field g (setattr p f v) =
     (if g = f \<and> lookup_field f p \<noteq> None then Some v else lookup_field g p)"
  by (induction p f v rule: setattr.induct) (auto simp: update_conv' split: option.splits)

lemma haslayer_setattr [simp]: "haslayer n (setattr p f v) = haslayer n p"
proof -
  have "haslayer n q \<longleftrightarrow> n \<in> set (map lname q)" for q
    by (induction q) auto
  then show ?thesis by (simp only: setattr_same_layers)
qed

end
