(* ===== verification/World.thy ===== *)
theory World
  imports Packets
begin

text \<open>
  What the mapper calls outside this repository, as one record of functions over an abstract
  outside world \<open>'w\<close>: the clock, \<open>random\<close>, \<open>os.system\<close>, pyserial, scapy's conversions,
  pycryptodome's AES, and the BLESMPServer extension module. Every definition of the model that
  needs them takes the record as its argument \<open>X\<close>; nothing is assumed of them except where a
  theorem names the assumption, and the assumptions are defined here.
\<close>

section \<open>The pcap pseudo-header\<close>

text \<open>
  \<open>NORDIC_BLE\<close> of py/NRF52_Driver.py: the header put before a packet that is logged. A
  \<open>payload_len\<close> of \<open>None\<close> is packed as 0 and then overwritten by \<open>post_build\<close>.
\<close>

record nordic =
  board :: int
  payload_len :: "int option"
  protocol :: int
  packet_counter :: int
  packet_id :: int
  packet_len :: int
  nb_flags :: int
  channel :: int
  rssi :: int
  nb_event_counter :: int
  delta_time :: int

definition NORDIC_BLE :: "int \<Rightarrow> int \<Rightarrow> int \<Rightarrow> nordic" where
  "NORDIC_BLE b pr fl =
     \<lparr>board = b, payload_len = None, protocol = pr, packet_counter = 0, packet_id = 0,
      packet_len = 10, nb_flags = fl, channel = 0, rssi = 0, nb_event_counter = 0,
      delta_time = 0\<rparr>"

definition nordic_fields :: "nordic \<Rightarrow> bytes" where
  "nordic_fields h =
     le_bytes 1 (board h) @
     le_bytes 2 (case payload_len h of None \<Rightarrow> 0 | Some n \<Rightarrow> n) @
     le_bytes 1 (protocol h) @ le_bytes 2 (packet_counter h) @ le_bytes 1 (packet_id h) @
     le_bytes 1 (packet_len h) @ le_bytes 1 (nb_flags h) @ le_bytes 1 (channel h) @
     le_bytes 1 (rssi h) @ le_bytes 2 (nb_event_counter h) @ le_bytes 4 (delta_time h)"

definition post_build :: "nordic \<Rightarrow> bytes \<Rightarrow> bytes \<Rightarrow> exn + bytes" where
  "post_build h p pay =
     (case payload_len h of
        None \<Rightarrow> map_sum id (\<lambda>l. (take 1 p @ l @ drop 2 p) @ pay)
                  (struct_pack_le 1 (int (length pay) + 10))
      | Some _ \<Rightarrow> Inr (p @ pay))"

lemma length_nordic_fields: "length (nordic_fields h) = 17"
  by (simp add: nordic_fields_def)

section \<open>The outside world\<close>

record 'w env =
  time_time :: "('w, rat) comp"
  time_sleep :: "rat \<Rightarrow> ('w, unit) comp"
  rand_byte :: "('w, byte) comp"
  rand_bits32 :: "('w, int) comp"
  os_system :: "string \<Rightarrow> ('w, int) comp"
  ser_new :: "string \<Rightarrow> int \<Rightarrow> ('w, unit) comp"
  ser_open :: "('w, unit) comp"
  ser_close :: "('w, unit) comp"
  ser_write :: "bytes \<Rightarrow> ('w, unit) comp"
  ser_read :: "rat option \<Rightarrow> nat \<Rightarrow> ('w, bytes) comp"
  wrpcap :: "string \<Rightarrow> (nordic \<times> packet) list \<Rightarrow> ('w, unit) comp"
  smp_set_pin_code :: "string \<Rightarrow> ('w, unit) comp"
  smp_configure :: "bytes \<Rightarrow> bytes \<Rightarrow> val \<Rightarrow> val \<Rightarrow> val \<Rightarrow> ('w, unit) comp"
  smp_pairing_request :: "('w, bytes) comp"
  smp_send_hci :: "bytes \<Rightarrow> ('w, bytes list option) comp"
  btle_dissect :: "bytes \<Rightarrow> packet"
  hci_dissect :: "bytes \<Rightarrow> packet"
  raw :: "packet \<Rightarrow> exn + bytes"
  summary :: "packet \<Rightarrow> string"
  aes_ecb :: "bytes \<Rightarrow> bytes \<Rightarrow> exn + bytes"
  ccm_encrypt :: "bytes \<Rightarrow> bytes \<Rightarrow> bytes \<Rightarrow> bytes \<Rightarrow> exn + (bytes \<times> bytes)"
  ccm_decrypt :: "bytes \<Rightarrow> bytes \<Rightarrow> bytes \<Rightarrow> bytes \<Rightarrow> exn + bytes"
  ccm_verify :: "bytes \<Rightarrow> bytes \<Rightarrow> bytes \<Rightarrow> bytes \<Rightarrow> bytes \<Rightarrow> bool"

section \<open>Documented behaviour of the outside world\<close>

text \<open>
  The clock: reading it does not raise and does not move it back, \<open>sleep(d)\<close> returns after at
  least \<open>d\<close> seconds. \<open>now\<close> is the time the world is at.
\<close>

definition clock_ok :: "('w, 'z) env_scheme \<Rightarrow> ('w \<Rightarrow> rat) \<Rightarrow> bool" where
  "clock_ok X now \<longleftrightarrow>
     (\<forall>w. \<exists>t w'. time_time X w = Ret t w' \<and> now w \<le> t \<and> t \<le> now w') \<and>
     (\<forall>d w. 0 \<le> d \<longrightarrow> (\<exists>w'. time_sleep X d w = Ret () w' \<and> now w + d \<le> now w'))"

text \<open>
  pyserial: \<open>rx w\<close> is what the dongle has sent and nobody has read. A blocking read takes the
  next \<open>n\<close> bytes, a read with timeout 0 takes at most the bytes that are there.
\<close>

definition serial_ok :: "('w, 'z) env_scheme \<Rightarrow> ('w \<Rightarrow> bytes) \<Rightarrow> bool" where
  "serial_ok X rx \<longleftrightarrow>
     (\<forall>n w. n \<le> length (rx w) \<longrightarrow>
        (\<exists>w'. ser_read X None n w = Ret (take n (rx w)) w' \<and> rx w' = drop n (rx w))) \<and>
     (\<forall>n w. \<exists>w'. ser_read X (Some 0) n w = Ret (take n (rx w)) w' \<and> rx w' = drop n (rx w))"

text \<open>
  AES-CCM: decryption and verification with the same key, nonce and associated data undo
  encryption, the ciphertext is as long as the plaintext, and the tag has the requested 4 bytes.
\<close>

definition ccm_ok :: "('w, 'z) env_scheme \<Rightarrow> bool" where
  "ccm_ok X \<longleftrightarrow>
     (\<forall>key nonce ad pt ct mic. ccm_encrypt X key nonce ad pt = Inr (ct, mic) \<longrightarrow>
        length ct = length pt \<and> length mic = 4 \<and>
        ccm_decrypt X key nonce ad ct = Inr pt \<and> ccm_verify X key nonce ad ct mic)"

text \<open>
  A world that answers: every call comes back, with a result or an exception, and the serial port
  can be opened and written to.
\<close>

definition world_halts :: "('w, 'z) env_scheme \<Rightarrow> bool" where
  "world_halts X \<longleftrightarrow>
     halts (time_time X) \<and> (\<forall>d. halts (time_sleep X d)) \<and> halts (rand_byte X) \<and>
     halts (rand_bits32 X) \<and> (\<forall>c. halts (os_system X c)) \<and> returns (ser_open X) \<and>
     halts (ser_close X) \<and> (\<forall>b. returns (ser_write X b)) \<and> (\<forall>t n. halts (ser_read X t n)) \<and>
     (\<forall>f p. halts (wrpcap X f p)) \<and> (\<forall>p. halts (smp_set_pin_code X p)) \<and>
     (\<forall>a b c d e. halts (smp_configure X a b c d e)) \<and> halts (smp_pairing_request X) \<and>
     (\<forall>b. halts (smp_send_hci X b))"

lemma clock_time:
  "clock_ok X now \<Longrightarrow> \<exists>t w'. time_time X w = Ret t w' \<and> now w \<le> t \<and> t \<le> now w'"
  by (simp add: clock_ok_def)

lemma clock_sleep:
  "clock_ok X now \<Longrightarrow> 0 \<le> d \<Longrightarrow> \<exists>w'. time_sleep X d w = Ret () w' \<and> now w + d \<le> now w'"
  by (simp add: clock_ok_def)

lemma serial_block:
  "serial_ok X rx \<Longrightarrow> n \<le> length (rx w) \<Longrightarrow>
     \<exists>w'. ser_read X None n w = Ret (take n (rx w)) w' \<and> rx w' = drop n (rx w)"
  by (simp add: serial_ok_def)

lemma serial_poll:
  "serial_ok X rx \<Longrightarrow>
     \<exists>w'. ser_read X (Some 0) n w = Ret (take n (rx w)) w' \<and> rx w' = drop n (rx w)"
  by (simp add: serial_ok_def)

end
