(* ===== verification/Sim.thy ===== *)
theory Sim
  imports World
begin

text \<open>
  A small simulated outside world, on which the witnesses run the model: a clock that moves only
  when the code sleeps, a dongle whose bytes wait in \<open>sim_rx\<close> and that queues \<open>sim_reply\<close> for
  every frame it is sent, a reset command with a fixed exit status, a toy dissector that knows a
  few packets, and a toy cipher with the laws of AES-CCM. It is no part of the program's model.
\<close>

record sim =
  sim_now :: rat
  sim_rx :: bytes
  sim_tx :: "bytes list"
  sim_reply :: bytes
  sim_status :: int
  sim_opens :: bool
  sim_smp :: "bytes list"

definition sim_name :: "lname \<Rightarrow> string" where
  "sim_name n =
     (case n of BTLE \<Rightarrow> ''BTLE'' | BTLE_ADV \<Rightarrow> ''BTLE_ADV'' | BTLE_ADV_IND \<Rightarrow> ''BTLE_ADV_IND''
      | BTLE_SCAN_RSP \<Rightarrow> ''BTLE_SCAN_RSP'' | BTLE_SCAN_REQ \<Rightarrow> ''BTLE_SCAN_REQ''
      | BTLE_DATA \<Rightarrow> ''BTLE_DATA'' | BTLE_CTRL \<Rightarrow> ''BTLE_CTRL''
      | LL_ENC_RSP \<Rightarrow> ''LL_ENC_RSP'' | LL_START_ENC_REQ \<Rightarrow> ''LL_START_ENC_REQ''
      | LL_FEATURE_RSP \<Rightarrow> ''LL_FEATURE_RSP'' | RawLayer \<Rightarrow> ''Raw'' | _ \<Rightarrow> ''Other'')"

definition sim_summary :: "packet \<Rightarrow> string" where
  "sim_summary p = py_join '' / '' (map (\<lambda>l. sim_name (lname l)) p)"

definition sim_adv_aa :: int where "sim_adv_aa = 0x8E89BED6"

definition sim_addr :: string where "sim_addr = ''11:22:33:44:55:66''"

text \<open>Advertising packets by the type in the header, data packets by the opcode after it.\<close>

definition sim_dissect :: "bytes \<Rightarrow> packet" where
  "sim_dissect bs =
     (if length bs < 9 then [Layer RawLayer [(''load'', VBytes bs)]]
      else
        let aa = from_le (take 4 bs); h = bs ! 4; pl = slice_neg bs 6 3;
            btle = Layer BTLE [(''access_addr'', VInt aa)]
        in if aa = sim_adv_aa
           then [btle, Layer BTLE_ADV [(''TxAdd'', VInt 0)],
                 Layer (if h = 4 then BTLE_SCAN_RSP else BTLE_ADV_IND) [(''AdvA'', VStr sim_addr)]]
           else btle # Layer BTLE_DATA [] #
             (case pl of
                [] \<Rightarrow> []
              | op # rest \<Rightarrow>
                  if op = 4 then [Layer BTLE_CTRL [(''opcode'', VInt 4)],
                     Layer LL_ENC_RSP [(''skds'', VInt (from_le (take 8 rest))),
                                       (''ivs'', VInt (from_le (drop 8 rest)))]]
                  else if op = 5 then [Layer BTLE_CTRL [(''opcode'', VInt 5)]]
                  else if op = 9 then [Layer BTLE_CTRL [(''opcode'', VInt 9)], Layer LL_FEATURE_RSP []]
                  else [Layer RawLayer [(''load'', VBytes pl)]]))"

text \<open>Packets are built with the payload \<open>load\<close> where they have one, and a byte 0 otherwise.\<close>

definition sim_raw :: "packet \<Rightarrow> exn + bytes" where
  "sim_raw p =
     (let aa = (case lookup_field ''access_addr'' p of Some (VInt v) \<Rightarrow> v | _ \<Rightarrow> sim_adv_aa);
          pl = (case lookup_field ''load'' p of Some (VBytes b) \<Rightarrow> b | _ \<Rightarrow> [0])
      in Inr (le_bytes 4 aa @ [1, of_nat (length pl)] @ pl @ [0, 0, 0]))"

definition sim_k :: "bytes \<Rightarrow> byte" where
  "sim_k key = (case key of [] \<Rightarrow> 0 | b # _ \<Rightarrow> b)"

definition sim_mic :: "bytes \<Rightarrow> bytes \<Rightarrow> bytes \<Rightarrow> bytes" where
  "sim_mic nonce ad ct = le_bytes 4 (sum_list (map uint (nonce @ ad @ ct)))"

definition sim_env :: "sim env" where
  "sim_env =
     \<lparr>time_time = (\<lambda>w. Ret (sim_now w) w),
      time_sleep = (\<lambda>d w. Ret () (w\<lparr>sim_now := sim_now w + d\<rparr>)),
      rand_byte = (\<lambda>w. Ret 0 w),
      rand_bits32 = (\<lambda>w. Ret 7 w),
      os_system = (\<lambda>cmd w. Ret (sim_status w) w),
      ser_new = (\<lambda>port baud w. Ret () w),
      ser_open = (\<lambda>w. if sim_opens w then Ret () w else Raise SerialException w),
      ser_close = (\<lambda>w. Ret () w),
      ser_write = (\<lambda>bs w. Ret () (w\<lparr>sim_tx := sim_tx w @ [bs], sim_rx := sim_rx w @ sim_reply w\<rparr>)),
      ser_read = (\<lambda>t n w.
        if n \<le> length (sim_rx w) \<or> t \<noteq> None
        then Ret (take n (sim_rx w)) (w\<lparr>sim_rx := drop n (sim_rx w)\<rparr>)
        else NoRet),
      wrpcap = (\<lambda>fn ps w. Ret () w),
      smp_set_pin_code = (\<lambda>pin w. Ret () w),
      smp_configure = (\<lambda>a b t io au w. Ret () w),
      smp_pairing_request = (\<lambda>w. Ret [] w),
      smp_send_hci = (\<lambda>bs w. Ret (Some (sim_smp w)) w),
      btle_dissect = sim_dissect,
      hci_dissect = (\<lambda>bs. [Layer HCI_Hdr [], Layer SM_Hdr [],
                           Layer SM_Random [(''random'', VBytes bs)]]),
      raw = sim_raw,
      summary = sim_summary,
      aes_ecb = (\<lambda>key pt. Inr (map (\<lambda>b. b XOR sim_k key) pt)),
      ccm_encrypt = (\<lambda>key nonce ad pt.
        let ct = map (\<lambda>b. b XOR sim_k key) pt in Inr (ct, sim_mic nonce ad ct)),
      ccm_decrypt = (\<lambda>key nonce ad ct. Inr (map (\<lambda>b. b XOR sim_k key) ct)),
      ccm_verify = (\<lambda>key nonce ad ct mic. mic = sim_mic nonce ad ct)\<rparr>"

definition sim0 :: sim where
  "sim0 = \<lparr>sim_now = 0, sim_rx = [], sim_tx = [], sim_reply = [], sim_status = 0,
           sim_opens = True, sim_smp = []\<rparr>"

lemma sim_clock: "clock_ok sim_env sim_now"
  by (simp add: clock_ok_def sim_env_def)

lemma sim_serial: "serial_ok sim_env sim_rx"
  by (simp add: serial_ok_def sim_env_def)

lemma sim_ccm: "ccm_ok sim_env"
proof -
  have "map ((\<lambda>b. b XOR k) \<circ> (\<lambda>b. b XOR k)) pt = pt" for k :: byte and pt
    by (rule map_idI) (simp add: xor.assoc)
  then show ?thesis by (simp add: ccm_ok_def sim_env_def Let_def sim_mic_def)
qed

end
