(* ===== verification/Driver.thy ===== *)
theory Driver
  imports Sim
begin

text \<open>
  The serial driver of the test dongle, class \<open>NRF52\<close> of py/NRF52_Driver.py: its attributes and
  one definition per method. The record is extended by the mapper's (theory State), so the
  driver's operations run on the mapper's state as they are and leave its part alone.
\<close>

section \<open>State\<close>

record 'w dstate =
  n_debug :: bool
  event_counter :: int
  packets_buffer :: "(nordic \<times> packet) list"
  sent_pkt :: "bytes option"
  logs_pcap :: bool
  reset_cmd :: "string option"
  pcap_tx_handover :: int
  ser_timeout :: "rat option"
  outside :: 'w

text \<open>The class attributes an instance starts from.\<close>

definition nrf_class :: "'w \<Rightarrow> 'w dstate" where
  "nrf_class w =
     \<lparr>n_debug = False, event_counter = 0, packets_buffer = [], sent_pkt = None,
      logs_pcap = False, reset_cmd = None, pcap_tx_handover = 0, ser_timeout = None,
      outside = w\<rparr>"

text \<open>A call of the outside world.\<close>

definition outM :: "('w, 'a) comp \<Rightarrow> (('w, 'z) dstate_scheme, 'a) comp" where
  "outM m s =
     (case m (outside s) of
        Ret x w \<Rightarrow> Ret x (s\<lparr>outside := w\<rparr>)
      | Raise e w \<Rightarrow> Raise e (s\<lparr>outside := w\<rparr>)
      | NoRet \<Rightarrow> NoRet)"

lemma outM_eq_Ret: "outM m s = Ret x t \<longleftrightarrow> (\<exists>w. m (outside s) = Ret x w \<and> t = s\<lparr>outside := w\<rparr>)"
  by (auto simp: outM_def split: res.splits)

section \<open>Commands and framing\<close>

definition NRF52_CMD_DATA :: bytes where "NRF52_CMD_DATA = [0xA7]"

definition NRF52_CMD_DATA_TX :: bytes where "NRF52_CMD_DATA_TX = [0xBB]"

definition NRF52_CMD_CHECKSUM_ERROR :: bytes where "NRF52_CMD_CHECKSUM_ERROR = [0xA8]"

definition NRF52_CMD_CONFIG_LOG_TX :: bytes where "NRF52_CMD_CONFIG_LOG_TX = [0xCC]"

definition NRF52_CMD_LOG :: bytes where "NRF52_CMD_LOG = [0x7F]"

definition checksum8 :: "bytes \<Rightarrow> int" where
  "checksum8 bs = sum_list (map uint bs) AND 0xFF"

text \<open>\<open>ord(self.serial.read(1))\<close> raises when the read gives no byte.\<close>

fun py_ord :: "bytes \<Rightarrow> exn + int" where
  "py_ord [b] = Inr (uint b)"
| "py_ord _ = Inl TypeError"

text \<open>The bytes \<open>raw_send\<close> writes for \<open>pkt\<close>, whose last three bytes (the CRC) are cut.\<close>

definition tx_frame :: "bytes \<Rightarrow> bytes" where
  "tx_frame pkt =
     (let raw_pkt = upto_neg pkt 3;
          crc = [word_of_int (checksum8 raw_pkt)];
          pkt_len = int (length raw_pkt);
          l = [word_of_int (pkt_len AND 0xFF), word_of_int (drop_bit 8 pkt_len AND 0xFF)]
      in NRF52_CMD_DATA @ l @ raw_pkt @ crc)"

definition raw_send :: "'w env \<Rightarrow> bytes \<Rightarrow> (('w, 'z) dstate_scheme, bytes) comp" where
  "raw_send X pkt =
     thenM (outM (ser_write X (tx_frame pkt))) (unitM (tx_frame pkt))"

definition send_nrf :: "'w env \<Rightarrow> packet \<Rightarrow> (('w, 'z) dstate_scheme, unit) comp" where
  "send_nrf X p =
     bindM (liftE (raw X p)) (\<lambda>b.
     thenM (raw_send X b)
       (modM (\<lambda>s. if logs_pcap s \<and> pcap_tx_handover s = 0
                  then s\<lparr>packets_buffer := packets_buffer s @ [(NORDIC_BLE 75 2 3, p)]\<rparr>
                  else s)))"

definition save_pcap :: "'w env \<Rightarrow> string \<Rightarrow> (('w, 'z) dstate_scheme, unit) comp" where
  "save_pcap X fn =
     bindM (getM logs_pcap) (\<lambda>l. whenM l
       (bindM (getM packets_buffer) (\<lambda>b.
        thenM (outM (wrpcap X fn b)) (modM (packets_buffer_update (\<lambda>_. []))))))"

section \<open>Receiving\<close>

definition rd :: "'w env \<Rightarrow> nat \<Rightarrow> (('w, 'z) dstate_scheme, bytes) comp" where
  "rd X n = bindM (getM ser_timeout) (\<lambda>t. outM (ser_read X t n))"

definition rd_ord :: "'w env \<Rightarrow> (('w, 'z) dstate_scheme, int) comp" where
  "rd_ord X = bindM (rd X 1) (\<lambda>b. liftE (py_ord b))"

text \<open>\<open>lb | (hb << 8)\<close> of the next two bytes.\<close>

definition rd_le16 :: "'w env \<Rightarrow> (('w, 'z) dstate_scheme, int) comp" where
  "rd_le16 X = bindM (rd_ord X) (\<lambda>lb. bindM (rd_ord X) (\<lambda>hb. unitM (lb OR push_bit 8 hb)))"

definition accept_data ::
  "'w env \<Rightarrow> bytes \<Rightarrow> int \<Rightarrow> bytes \<Rightarrow> ('w, 'z) dstate_scheme \<Rightarrow> ('w, 'z) dstate_scheme" where
  "accept_data X c evt data s =
     (let s1 = s\<lparr>event_counter := evt\<rparr>;
          s2 = (if c = NRF52_CMD_DATA_TX then s1\<lparr>sent_pkt := Some data\<rparr> else s1);
          flags = (if c = NRF52_CMD_DATA_TX then 3 else 1)
      in if logs_pcap s2
         then s2\<lparr>packets_buffer :=
                packets_buffer s2 @ [(NORDIC_BLE 75 2 flags, btle_dissect X data)]\<rparr>
         else s2)"

definition receive_data :: "'w env \<Rightarrow> bytes \<Rightarrow> (('w, 'z) dstate_scheme, bytes option) comp" where
  "receive_data X c =
     bindM (rd_le16 X) (\<lambda>sz.
     bindM (rd_le16 X) (\<lambda>evt.
     bindM (rd X (nat sz)) (\<lambda>data.
     bindM (rd_ord X) (\<lambda>checksum.
       if checksum8 data = checksum
       then thenM (modM (accept_data X c evt data))
              (unitM (if c = NRF52_CMD_DATA_TX then None else Some data))
       else unitM None))))"

definition raw_receive :: "'w env \<Rightarrow> (('w, 'z) dstate_scheme, bytes option) comp" where
  "raw_receive X =
     thenM (modM (ser_timeout_update (\<lambda>_. Some 0)))
     (bindM (rd X 1) (\<lambda>c.
        if length c = 0 then unitM None
        else thenM (modM (ser_timeout_update (\<lambda>_. None)))
          (if c = NRF52_CMD_DATA \<or> c = NRF52_CMD_DATA_TX then receive_data X c
           else if c = NRF52_CMD_LOG
           then bindM (rd_le16 X) (\<lambda>sz. thenM (rd X (nat sz)) (unitM None))
           else unitM None)))"

section \<open>Configuration and reset\<close>

definition set_log_tx :: "'w env \<Rightarrow> int \<Rightarrow> (('w, 'z) dstate_scheme, unit) comp" where
  "set_log_tx X v =
     bindM (liftE (one_byte v)) (\<lambda>b.
     thenM (outM (ser_write X (NRF52_CMD_CONFIG_LOG_TX @ [b])))
       (modM (pcap_tx_handover_update (\<lambda>_. v))))"

definition nrf_init ::
  "'w env \<Rightarrow> string \<Rightarrow> int \<Rightarrow> bool \<Rightarrow> bool \<Rightarrow> string option \<Rightarrow> (('w, 'z) dstate_scheme, unit) comp"
where
  "nrf_init X port baudrate debug pcap cmd =
     thenM (outM (ser_new X port baudrate))
     (thenM (modM (\<lambda>s. s\<lparr>n_debug := debug, logs_pcap := pcap, reset_cmd := cmd\<rparr>))
       (set_log_tx X 0))"

text \<open>The \<open>try\<close> block of \<open>reset_device\<close>: open the port and configure it, or wait two seconds.\<close>

definition try_reopen :: "'w env \<Rightarrow> (('w, 'z) dstate_scheme, bool) comp" where
  "try_reopen X =
     tryM (thenM (outM (ser_open X)) (thenM (set_log_tx X 0) (unitM True)))
          (\<lambda>e. thenM (outM (time_sleep X 2)) (unitM False))"

text \<open>
  The loop of \<open>reset_device\<close>: run the reset command, then try to open the port and configure it,
  again and again while that fails. The fuel bounds the attempts.
\<close>

fun reset_loop :: "'w env \<Rightarrow> string \<Rightarrow> nat \<Rightarrow> (('w, 'z) dstate_scheme, unit) comp" where
  "reset_loop X cmd 0 = (\<lambda>s. NoRet)"
| "reset_loop X cmd (Suc n) =
     bindM (outM (os_system X cmd)) (\<lambda>status.
       if drop_bit 8 status \<noteq> 0 then raiseM (RuntimeError ''Device reset failed'')
       else bindM (try_reopen X) (\<lambda>opened.
              if opened then unitM () else reset_loop X cmd n))"

definition reset_device_nrf :: "'w env \<Rightarrow> nat \<Rightarrow> (('w, 'z) dstate_scheme, unit) comp" where
  "reset_device_nrf X fuel =
     bindM (getM reset_cmd) (\<lambda>r. case r of
        None \<Rightarrow> unitM ()
      | Some cmd \<Rightarrow> thenM (outM (ser_close X)) (reset_loop X cmd fuel))"

definition close_nrf :: "'w env \<Rightarrow> (('w, 'z) dstate_scheme, unit) comp" where
  "close_nrf X = outM (ser_close X)"

section \<open>Frame: what the driver leaves alone\<close>

text \<open>The driver writes its own attributes only, and never its configuration after start-up.\<close>

definition drv_frame :: "('w, 'z) dstate_scheme \<Rightarrow> ('w, 'z) dstate_scheme \<Rightarrow> bool" where
  "drv_frame s t \<longleftrightarrow>
     dstate.more s = dstate.more t \<and> n_debug s = n_debug t \<and>
     logs_pcap s = logs_pcap t \<and> reset_cmd s = reset_cmd t"

text \<open>
  A relation the driver respects: it allows the driver's own bookkeeping and every call of the
  outside world. Each operation is shown to consist of such steps once, here.
\<close>

locale driver_frame = stepwise R
  for R :: "('w, 'z) dstate_scheme \<Rightarrow> ('w, 'z) dstate_scheme \<Rightarrow> bool" +
  fixes X :: "'w env"
  assumes R_local: "drv_frame s t \<Longrightarrow> outside t = outside s \<Longrightarrow> R s t"
    and out_time: "keeps R (outM (time_time X))"
    and out_sleep: "0 \<le> d \<Longrightarrow> keeps R (outM (time_sleep X d))"
    and out_rand_byte: "keeps R (outM (rand_byte X))"
    and out_rand_bits32: "keeps R (outM (rand_bits32 X))"
    and out_system: "keeps R (outM (os_system X cmd))"
    and out_open: "keeps R (outM (ser_open X))"
    and out_close: "keeps R (outM (ser_close X))"
    and out_write: "keeps R (outM (ser_write X bs))"
    and out_read: "keeps R (outM (ser_read X tmo n))"
    and out_wrpcap: "keeps R (outM (wrpcap X fn ps))"
    and out_pin: "keeps R (outM (smp_set_pin_code X pin))"
    and out_configure: "keeps R (outM (smp_configure X a b v1 v2 v3))"
    and out_pairing: "keeps R (outM (smp_pairing_request X))"
    and out_send_hci: "keeps R (outM (smp_send_hci X bs))"
begin

lemma keeps_local:
  assumes "\<And>s. drv_frame s (g s)" and "\<And>s. outside (g s) = outside s"
  shows "keeps R (modM g)"
  by (rule keeps_modM) (rule R_local [OF assms])

lemmas out_rules =
  out_time out_sleep out_rand_byte out_rand_bits32 out_system out_open out_close out_write out_read
  out_wrpcap out_pin out_configure out_pairing out_send_hci

lemma keeps_rd: "keeps R (rd X n)"
  unfolding rd_def by (intro comp_rules out_rules)

lemma keeps_rd_ord: "keeps R (rd_ord X)"
  unfolding rd_ord_def by (intro comp_rules keeps_rd)

lemma keeps_rd_le16: "keeps R (rd_le16 X)"
  unfolding rd_le16_def by (intro comp_rules keeps_rd_ord)

lemma keeps_raw_send: "keeps R (raw_send X pkt)"
  unfolding raw_send_def by (intro comp_rules out_rules)

lemma keeps_send_nrf: "keeps R (send_nrf X p)"
  unfolding send_nrf_def
  by (intro comp_rules keeps_raw_send keeps_local) (simp_all add: drv_frame_def)

lemma keeps_save_pcap: "keeps R (save_pcap X fn)"
  unfolding save_pcap_def
  by (intro comp_rules out_rules keeps_local) (simp_all add: drv_frame_def)

lemma keeps_receive_data: "keeps R (receive_data X c)"
  unfolding receive_data_def
  by (intro comp_rules keeps_rd keeps_rd_ord keeps_rd_le16 keeps_local)
     (simp_all add: drv_frame_def accept_data_def Let_def)

lemma keeps_raw_receive: "keeps R (raw_receive X)"
  unfolding raw_receive_def
  by (intro comp_rules keeps_rd keeps_rd_le16 keeps_receive_data keeps_local)
     (simp_all add: drv_frame_def)

lemma keeps_set_log_tx: "keeps R (set_log_tx X v)"
  unfolding set_log_tx_def
  by (intro comp_rules out_rules keeps_local) (simp_all add: drv_frame_def)

lemma keeps_try_reopen: "keeps R (try_reopen X)"
  unfolding try_reopen_def by (intro comp_rules out_rules keeps_set_log_tx) simp

lemma keeps_reset_loop: "keeps R (reset_loop X cmd n)"
proof (induction n)
  case (Suc n)
  show ?case unfolding reset_loop.simps
    by (intro comp_rules out_rules keeps_try_reopen Suc.IH)
qed (simp add: keeps_def)

lemma keeps_reset_device_nrf: "keeps R (reset_device_nrf X fuel)"
proof -
  have "keeps R (case r of None \<Rightarrow> unitM () | Some cmd \<Rightarrow>
      thenM (outM (ser_close X)) (reset_loop X cmd fuel))" for r
    by (cases r) (auto intro!: comp_rules out_rules keeps_reset_loop)
  then show ?thesis unfolding reset_device_nrf_def by (intro comp_rules)
qed

lemma keeps_close_nrf: "keeps R (close_nrf X)"
  unfolding close_nrf_def by (rule out_close)

lemmas driver_rules =
  comp_rules out_rules keeps_raw_send keeps_send_nrf keeps_save_pcap keeps_raw_receive
  keeps_set_log_tx keeps_reset_device_nrf keeps_close_nrf

end

lemma keeps_outM: "(\<And>s w. R s (s\<lparr>outside := w\<rparr>)) \<Longrightarrow> keeps R (outM m)"
  by (rule keepsI) (auto simp: outM_def split: res.splits)

interpretation drv: driver_frame drv_frame X for X :: "'w env"
  by unfold_locales (auto simp: drv_frame_def intro!: keeps_outM)

text \<open>A relation on worlds that every call respects gives one on the driver's states: the clock.\<close>

definition env_keeps :: "'w env \<Rightarrow> ('w \<Rightarrow> 'w \<Rightarrow> bool) \<Rightarrow> bool" where
  "env_keeps X Q \<longleftrightarrow>
     keeps Q (time_time X) \<and> (\<forall>d. 0 \<le> d \<longrightarrow> keeps Q (time_sleep X d)) \<and>
     keeps Q (rand_byte X) \<and> keeps Q (rand_bits32 X) \<and> (\<forall>c. keeps Q (os_system X c)) \<and>
     keeps Q (ser_open X) \<and> keeps Q (ser_close X) \<and> (\<forall>b. keeps Q (ser_write X b)) \<and>
     (\<forall>d n. keeps Q (ser_read X d n)) \<and> (\<forall>f p. keeps Q (wrpcap X f p)) \<and>
     (\<forall>p. keeps Q (smp_set_pin_code X p)) \<and>
     (\<forall>a b c d e. keeps Q (smp_configure X a b c d e)) \<and>
     keeps Q (smp_pairing_request X) \<and> (\<forall>b. keeps Q (smp_send_hci X b))"

definition out_rel ::
  "('w \<Rightarrow> 'w \<Rightarrow> bool) \<Rightarrow> ('w, 'z) dstate_scheme \<Rightarrow> ('w, 'z) dstate_scheme \<Rightarrow> bool"
where
  "out_rel Q s t \<longleftrightarrow> Q (outside s) (outside t)"

lemma keeps_out_rel: "keeps Q m \<Longrightarrow> keeps (out_rel Q) (outM m)"
  by (rule keepsI) (auto simp: outM_def out_rel_def keeps_def split: res.splits)

lemma driver_frame_out_rel:
  assumes "env_keeps X Q" and "\<And>w. Q w w" and "\<And>u v w. Q u v \<Longrightarrow> Q v w \<Longrightarrow> Q u w"
  shows "driver_frame (out_rel Q :: ('w, 'z) dstate_scheme \<Rightarrow> ('w, 'z) dstate_scheme \<Rightarrow> bool) X"
proof unfold_locales
  show "out_rel Q s s" for s :: "('w, 'z) dstate_scheme" by (simp add: out_rel_def assms)
  show "out_rel Q s u" if "out_rel Q s t" "out_rel Q t u" for s t u :: "('w, 'z) dstate_scheme"
    using that assms(3) by (simp add: out_rel_def)
qed (use assms in \<open>auto simp: env_keeps_def out_rel_def intro!: keeps_out_rel\<close>)

section \<open>In a world that answers, the driver's operations end\<close>

lemma halts_outM: "halts m \<Longrightarrow> halts (outM m)"
  by (simp add: halts_def outM_def split: res.split)

lemma returns_outM: "returns m \<Longrightarrow> returns (outM m :: (('w, 'z) dstate_scheme, 'a) comp)"
  unfolding returns_def
proof
  fix s :: "('w, 'z) dstate_scheme"
  assume "\<forall>w. \<exists>x t. m w = Ret x t"
  then obtain x t where "m (outside s) = Ret x t" by blast
  then show "\<exists>x t. outM m s = Ret x t" by (simp add: outM_def)
qed

text \<open>The calls the mapper makes, in a world that answers.\<close>

lemma world_halts_out:
  assumes "world_halts X"
  shows "halts (outM (time_time X))" "halts (outM (time_sleep X d))" "halts (outM (rand_byte X))"
    "halts (outM (rand_bits32 X))" "halts (outM (os_system X cmd))" "halts (outM (ser_open X))"
    "halts (outM (ser_close X))" "halts (outM (ser_write X bs))"
    "halts (outM (ser_read X tmo n))" "halts (outM (wrpcap X fn ps))"
    "halts (outM (smp_set_pin_code X pin))" "halts (outM (smp_configure X a b v1 v2 v3))"
    "halts (outM (smp_pairing_request X))" "halts (outM (smp_send_hci X bs))"
  using assms by (auto simp: world_halts_def intro!: halts_outM intro: returns_halts)

lemma halts_raw_receive: "world_halts X \<Longrightarrow> halts (raw_receive X)"
  unfolding raw_receive_def receive_data_def rd_le16_def rd_ord_def rd_def
  by (intro halts_rules world_halts_out)

lemma halts_raw_send: "world_halts X \<Longrightarrow> halts (raw_send X pkt)"
  unfolding raw_send_def by (intro halts_rules world_halts_out)

lemma halts_send_nrf: "world_halts X \<Longrightarrow> halts (send_nrf X p)"
  unfolding send_nrf_def by (intro halts_rules halts_raw_send)

lemma try_reopen_opens: "world_halts X \<Longrightarrow> \<exists>t. try_reopen X s = Ret True t"
proof -
  assume "world_halts X"
  then have o: "returns (outM (ser_open X) :: (_, unit) comp)"
    and w: "returns (outM (ser_write X bs) :: (_, unit) comp)" for bs
    by (auto simp: world_halts_def intro: returns_outM)
  obtain t where t: "outM (ser_open X) s = Ret () t" using o by (auto simp: returns_def)
  obtain u where u: "outM (ser_write X (NRF52_CMD_CONFIG_LOG_TX @ [0])) t = Ret () u"
    using w by (auto simp: returns_def)
  from t u show ?thesis
    by (simp add: try_reopen_def set_log_tx_def monad_simps one_byte_def)
qed

lemma halts_reset_loop: "world_halts X \<Longrightarrow> 0 < n \<Longrightarrow> halts (reset_loop X cmd n)"
proof (cases n)
  case (Suc k)
  assume X: "world_halts X"
  have "halts (bindM (try_reopen X) (\<lambda>b. if b then unitM () else reset_loop X cmd k))"
  proof (rule haltsI)
    show "bindM (try_reopen X) (\<lambda>b. if b then unitM () else reset_loop X cmd k) s \<noteq> NoRet" for s
      using try_reopen_opens [OF X, of s] by (auto simp: unitM_def)
  qed
  then show ?thesis unfolding Suc reset_loop.simps
    by (intro halts_bindM [OF world_halts_out(5) [OF X]] halts_if halts_raiseM)
qed simp

lemma halts_reset_device_nrf: "world_halts X \<Longrightarrow> 0 < n \<Longrightarrow> halts (reset_device_nrf X n)"
  unfolding reset_device_nrf_def
  by (intro halts_rules) (auto split: option.split intro!: halts_rules world_halts_out halts_reset_loop)

section \<open>Frames and checksums\<close>

text \<open>What the dongle sends: command, length and event counter in little-endian order, data, checksum.\<close>

definition dongle_frame :: "byte \<Rightarrow> int \<Rightarrow> bytes \<Rightarrow> byte \<Rightarrow> bytes" where
  "dongle_frame c evt data cks =
     c # le_bytes 2 (int (length data)) @ le_bytes 2 evt @ data @ [cks]"

definition good_cks :: "bytes \<Rightarrow> byte" where
  "good_cks data = word_of_int (checksum8 data)"

lemma and_255: "(x :: int) AND 255 = x mod 256"
  using take_bit_eq_mask [of 8 x] by (simp add: take_bit_eq_mod mask_eq_exp_minus_1)

lemma checksum8_mod: "checksum8 bs = sum_list (map uint bs) mod 256"
  by (simp add: checksum8_def and_255)

lemma checksum8_bounds: "0 \<le> checksum8 bs \<and> checksum8 bs < 256"
  by (simp add: checksum8_mod)

lemma uint_good_cks [simp]: "uint (good_cks data) = checksum8 data"
  using checksum8_bounds [of data] by (simp add: good_cks_def uint_word_of_int)

lemma le16_or: "uint (a :: byte) OR push_bit 8 (uint (b :: byte)) = from_le [a, b]"
proof -
  have "\<not> bit (uint a) n \<or> \<not> bit (push_bit 8 (uint b)) n" for n
    by (auto simp: bit_uint_iff bit_push_bit_iff)
  then have "uint a + push_bit 8 (uint b) = uint a OR push_bit 8 (uint b)"
    by (rule disjunctive_add)
  then show ?thesis by (simp add: push_bit_eq_mult)
qed

section \<open>Reading a frame\<close>

lemma rd_block:
  assumes "serial_ok X rx" "ser_timeout s = None" "rx (outside s) = xs @ ys" "length xs = n"
  obtains w where "rd X n s = Ret xs (s\<lparr>outside := w\<rparr>)" "rx w = ys"
  using serial_block [OF assms(1), of n "outside s"] assms(2-4) that
  by (auto simp: rd_def getM_def bindM_def outM_def)

lemma rd_ord_block:
  assumes "serial_ok X rx" "ser_timeout s = None" "rx (outside s) = b # ys"
  obtains w where "rd_ord X s = Ret (uint b) (s\<lparr>outside := w\<rparr>)" "rx w = ys"
proof -
  obtain w where "rd X 1 s = Ret [b] (s\<lparr>outside := w\<rparr>)" "rx w = ys"
    using rd_block [OF assms(1,2), of "[b]" ys 1] assms(3) by auto
  with that show ?thesis by (simp add: rd_ord_def liftE_def)
qed

lemma rd_le16_block:
  assumes "serial_ok X rx" "ser_timeout s = None" "rx (outside s) = le_bytes 2 v @ ys"
    and v: "0 \<le> v" "v < 65536"
  obtains w where "rd_le16 X s = Ret v (s\<lparr>outside := w\<rparr>)" "rx w = ys"
proof -
  obtain a b where ab: "le_bytes 2 v = [a, b]"
    by (simp add: numeral_2_eq_2)
  then have val: "uint a OR push_bit 8 (uint b) = v"
    using le16_or [of a b] le2.dec_enc [of v] v by simp
  obtain w1 where r1: "rd_ord X s = Ret (uint a) (s\<lparr>outside := w1\<rparr>)" "rx w1 = b # ys"
    using rd_ord_block [OF assms(1,2)] assms(3) ab by auto
  obtain w2 where r2: "rd_ord X (s\<lparr>outside := w1\<rparr>) = Ret (uint b) (s\<lparr>outside := w2\<rparr>)" "rx w2 = ys"
    using rd_ord_block [OF assms(1), of "s\<lparr>outside := w1\<rparr>" b ys] assms(2) r1(2) by auto
  have "rd_le16 X s = Ret v (s\<lparr>outside := w2\<rparr>)"
    using r1(1) r2(1) val by (simp add: rd_le16_def)
  with that r2(2) show ?thesis by blast
qed

text \<open>The common course of \<open>receive_data\<close>, up to the comparison of the checksum.\<close>

lemma receive_data_frame:
  assumes ok: "serial_ok X rx" and block: "ser_timeout s = None"
    and rx: "rx (outside s) = le_bytes 2 (int (length data)) @ le_bytes 2 evt @ data @ cks # rest"
    and bounds: "length data < 65536" "0 \<le> evt" "evt < 65536"
  obtains w where "rx w = rest"
    "receive_data X c s =
       (if checksum8 data = uint cks
        then Ret (if c = NRF52_CMD_DATA_TX then None else Some data)
               (accept_data X c evt data (s\<lparr>outside := w\<rparr>))
        else Ret None (s\<lparr>outside := w\<rparr>))"
proof -
  have sz: "0 \<le> int (length data)" "int (length data) < 65536" using bounds by auto
  obtain w1 where 1: "rd_le16 X s = Ret (int (length data)) (s\<lparr>outside := w1\<rparr>)"
      "rx w1 = le_bytes 2 evt @ data @ cks # rest"
    using rd_le16_block [OF ok block rx sz] by blast
  obtain w2 where 2: "rd_le16 X (s\<lparr>outside := w1\<rparr>) = Ret evt (s\<lparr>outside := w2\<rparr>)"
      "rx w2 = data @ cks # rest"
    using rd_le16_block [OF ok, of "s\<lparr>outside := w1\<rparr>" evt] block 1(2) bounds by auto
  obtain w3 where 3: "rd X (length data) (s\<lparr>outside := w2\<rparr>) = Ret data (s\<lparr>outside := w3\<rparr>)"
      "rx w3 = cks # rest"
    using rd_block [OF ok, of "s\<lparr>outside := w2\<rparr>" data] block 2(2) by auto
  obtain w4 where 4: "rd_ord X (s\<lparr>outside := w3\<rparr>) = Ret (uint cks) (s\<lparr>outside := w4\<rparr>)" "rx w4 = rest"
    using rd_ord_block [OF ok, of "s\<lparr>outside := w3\<rparr>" cks rest] block 3(2) by auto
  show ?thesis
    by (rule that [OF 4(2)])
       (simp add: receive_data_def thenM_def modM_def unitM_def 1(1) 2(1) 3(1) 4(1))
qed

lemma swap_timeout:
  "s\<lparr>outside := w, ser_timeout := t\<rparr> = s\<lparr>ser_timeout := t, outside := w\<rparr>"
  by simp

lemma raw_receive_data:
  assumes ok: "serial_ok X rx" and c: "c = 0xA7 \<or> c = 0xBB"
    and rx: "rx (outside s) = dongle_frame c evt data cks @ rest"
    and bounds: "length data < 65536" "0 \<le> evt" "evt < 65536"
  obtains w where "rx w = rest"
    "raw_receive X s =
       (if checksum8 data = uint cks
        then Ret (if c = 0xBB then None else Some data)
               (accept_data X [c] evt data (s\<lparr>ser_timeout := None, outside := w\<rparr>))
        else Ret None (s\<lparr>ser_timeout := None, outside := w\<rparr>))"
proof -
  obtain w1 where w1: "ser_read X (Some 0) 1 (outside s) = Ret [c] w1"
      "rx w1 = le_bytes 2 (int (length data)) @ le_bytes 2 evt @ data @ cks # rest"
    using serial_poll [OF ok, of 1 "outside s"] rx by (auto simp: dongle_frame_def)
  let ?s = "s\<lparr>ser_timeout := None, outside := w1\<rparr>"
  obtain w2 where w2: "rx w2 = rest"
    "receive_data X [c] ?s =
       (if checksum8 data = uint cks
        then Ret (if [c] = NRF52_CMD_DATA_TX then None else Some data)
               (accept_data X [c] evt data (?s\<lparr>outside := w2\<rparr>))
        else Ret None (?s\<lparr>outside := w2\<rparr>))"
    using receive_data_frame [OF ok, of ?s data evt cks rest "[c]"] w1(2) bounds by auto
  have "raw_receive X s = receive_data X [c] ?s"
    using w1(1) c
    by (auto simp: swap_timeout raw_receive_def rd_def monad_simps outM_def
        NRF52_CMD_DATA_def NRF52_CMD_DATA_TX_def)
  with w2 show ?thesis
    by (intro that [OF w2(1)]) (simp add: NRF52_CMD_DATA_TX_def)
qed

lemma sum_list_update_byte:
  "i < length bs \<Longrightarrow>
     sum_list (map uint (bs[i := b])) = sum_list (map uint bs) - uint (bs ! i) + uint b"
  by (induction bs arbitrary: i) (auto split: nat.split)

lemma checksum8_detects:
  assumes i: "i < length data" and ne: "b \<noteq> data ! i"
  shows "checksum8 (data[i := b]) \<noteq> checksum8 data"
proof
  assume "checksum8 (data[i := b]) = checksum8 data"
  then have "256 dvd uint b - uint (data ! i)"
    using i by (simp add: checksum8_mod sum_list_update_byte mod_eq_dvd_iff algebra_simps)
  moreover have "\<bar>uint b - uint (data ! i)\<bar> < 256"
  proof -
    have "uint b < 256" "uint (data ! i) < 256"
      using uint_lt2p [of b] uint_lt2p [of "data ! i"] by simp_all
    with uint_ge_0 [of b] uint_ge_0 [of "data ! i"] show ?thesis by linarith
  qed
  ultimately have "uint b = uint (data ! i)"
    using dvd_imp_le_int [of "uint b - uint (data ! i)" 256] by fastforce
  with ne show False by (simp add: word_uint_eq_iff)
qed

section \<open>Properties\<close>

text \<open>
  The messages of the dongle: a received packet, a packet it sent on our behalf, and text for the
  log, and what a poll of \<open>raw_receive\<close> makes of each.
\<close>

datatype dongle_msg = Received int bytes byte | SentBack int bytes byte | LogText bytes

fun msg_bytes :: "dongle_msg \<Rightarrow> bytes" where
  "msg_bytes (Received evt data cks) = dongle_frame 0xA7 evt data cks"
| "msg_bytes (SentBack evt data cks) = dongle_frame 0xBB evt data cks"
| "msg_bytes (LogText line) = 0x7F # le_bytes 2 (int (length line)) @ line"

fun msg_ok :: "dongle_msg \<Rightarrow> bool" where
  "msg_ok (Received evt data cks) \<longleftrightarrow> length data < 65536 \<and> 0 \<le> evt \<and> evt < 65536"
| "msg_ok (SentBack evt data cks) \<longleftrightarrow> length data < 65536 \<and> 0 \<le> evt \<and> evt < 65536"
| "msg_ok (LogText line) \<longleftrightarrow> length line < 65536"

fun msg_data :: "dongle_msg \<Rightarrow> bytes option" where
  "msg_data (Received evt data cks) = (if uint cks = checksum8 data then Some data else None)"
| "msg_data _ = None"

fun msg_event :: "dongle_msg \<Rightarrow> int \<Rightarrow> int" where
  "msg_event (Received evt data cks) n = (if uint cks = checksum8 data then evt else n)"
| "msg_event (SentBack evt data cks) n = (if uint cks = checksum8 data then evt else n)"
| "msg_event (LogText line) n = n"

fun msg_sent :: "dongle_msg \<Rightarrow> bytes option \<Rightarrow> bytes option" where
  "msg_sent (SentBack evt data cks) p = (if uint cks = checksum8 data then Some data else p)"
| "msg_sent _ p = p"

lemma raw_receive_log:
  assumes ok: "serial_ok X rx" and rx: "rx (outside s) = msg_bytes (LogText line) @ rest"
    and len: "length line < 65536"
  obtains w where "rx w = rest" "raw_receive X s = Ret None (s\<lparr>ser_timeout := None, outside := w\<rparr>)"
proof -
  obtain w1 where w1: "ser_read X (Some 0) 1 (outside s) = Ret [0x7F] w1"
      "rx w1 = le_bytes 2 (int (length line)) @ line @ rest"
    using serial_poll [OF ok, of 1 "outside s"] rx by auto
  let ?s = "s\<lparr>ser_timeout := None, outside := w1\<rparr>"
  obtain w2 where w2: "rd_le16 X ?s = Ret (int (length line)) (?s\<lparr>outside := w2\<rparr>)" "rx w2 = line @ rest"
    using rd_le16_block [OF ok, of ?s "int (length line)" "line @ rest"] w1(2) len by auto
  obtain w3 where w3: "rd X (length line) (?s\<lparr>outside := w2\<rparr>) = Ret line (?s\<lparr>outside := w3\<rparr>)" "rx w3 = rest"
    using rd_block [OF ok, of "?s\<lparr>outside := w2\<rparr>" line rest] w2(2) by auto
  have "rd X 1 (s\<lparr>ser_timeout := Some 0\<rparr>) = Ret [0x7F] (s\<lparr>ser_timeout := Some 0, outside := w1\<rparr>)"
    using w1(1) by (simp add: rd_def monad_simps outM_def)
  with w2(1) w3(1) have "raw_receive X s = Ret None (s\<lparr>ser_timeout := None, outside := w3\<rparr>)"
    by (simp add: swap_timeout raw_receive_def monad_simps NRF52_CMD_DATA_def
        NRF52_CMD_DATA_TX_def NRF52_CMD_LOG_def)
  with that w3(2) show ?thesis by blast
qed

lemma raw_receive_msg:
  assumes ok: "serial_ok X rx" and msg: "msg_ok m" and rx: "rx (outside s) = msg_bytes m @ rest"
  obtains t where "raw_receive X s = Ret (msg_data m) t" "rx (outside t) = rest"
    "event_counter t = msg_event m (event_counter s)" "sent_pkt t = msg_sent m (sent_pkt s)"
    "dstate.more t = dstate.more s"
proof (cases m)
  case (LogText line)
  then obtain w where "rx w = rest" "raw_receive X s = Ret None (s\<lparr>ser_timeout := None, outside := w\<rparr>)"
    using raw_receive_log [OF ok, of s line rest] rx msg by auto
  then show ?thesis by (intro that [of "s\<lparr>ser_timeout := None, outside := w\<rparr>"]) (simp_all add: LogText)
next
  case (Received evt data cks)
  let ?u = "\<lambda>w. s\<lparr>ser_timeout := None, outside := w\<rparr>"
  obtain w where w: "rx w = rest" "raw_receive X s =
      (if checksum8 data = uint cks
       then Ret (if 0xA7 = (0xBB :: byte) then None else Some data) (accept_data X [0xA7] evt data (?u w))
       else Ret None (?u w))"
    by (rule raw_receive_data [OF ok, where c = "0xA7" and s = s and evt = evt and
          data = data and cks = cks and rest = rest])
       (use rx msg Received in \<open>simp_all\<close>)
  then show ?thesis
    by (intro that [of "if checksum8 data = uint cks then accept_data X [0xA7] evt data (?u w) else ?u w"])
       (simp_all add: Received accept_data_def Let_def NRF52_CMD_DATA_TX_def)
next
  case (SentBack evt data cks)
  let ?u = "\<lambda>w. s\<lparr>ser_timeout := None, outside := w\<rparr>"
  obtain w where w: "rx w = rest" "raw_receive X s =
      (if checksum8 data = uint cks
       then Ret (if 0xBB = (0xBB :: byte) then None else Some data) (accept_data X [0xBB] evt data (?u w))
       else Ret None (?u w))"
    by (rule raw_receive_data [OF ok, where c = "0xBB" and s = s and evt = evt and
          data = data and cks = cks and rest = rest])
       (use rx msg SentBack in \<open>simp_all\<close>)
  then show ?thesis
    by (intro that [of "if checksum8 data = uint cks then accept_data X [0xBB] evt data (?u w) else ?u w"])
       (simp_all add: SentBack accept_data_def Let_def NRF52_CMD_DATA_TX_def)
qed

text \<open>Polls one after another, as the turns of the mapper's receive loop make them.\<close>

fun polls :: "'w env \<Rightarrow> nat \<Rightarrow> (('w, 'z) dstate_scheme, bytes option list) comp" where
  "polls X 0 = unitM []"
| "polls X (Suc n) = bindM (raw_receive X) (\<lambda>d. bindM (polls X n) (\<lambda>ds. unitM (d # ds)))"

text \<open>C8: Whatever the dongle sends arrives, in order. When the unread bytes of the serial port are
  a sequence of the dongle's messages (received packets, looped-back sent packets, log texts, the
  packets with any checksum), as many polls read exactly them, one message a poll, and leave the
  bytes behind them: a received packet whose checksum is right is returned, all else gives nothing. The event
  counter and the last looped-back packet are those of the last packets whose checksum was right,
  and the mapper's own state stays.\<close>

theorem raw_receive_stream:
  assumes "serial_ok X rx" and "list_all msg_ok ms"
    and "rx (outside s) = concat (map msg_bytes ms) @ rest"
  shows "\<exists>t. polls X (length ms) s = Ret (map msg_data ms) t \<and> rx (outside t) = rest \<and>
     event_counter t = fold msg_event ms (event_counter s) \<and>
     sent_pkt t = fold msg_sent ms (sent_pkt s) \<and> dstate.more t = dstate.more s"
  using assms(2,3)
proof (induction ms arbitrary: s)
  case (Cons m ms)
  obtain t where t: "raw_receive X s = Ret (msg_data m) t" "rx (outside t) = concat (map msg_bytes ms) @ rest"
      "event_counter t = msg_event m (event_counter s)" "sent_pkt t = msg_sent m (sent_pkt s)"
      "dstate.more t = dstate.more s"
    using raw_receive_msg [OF assms(1), of m s "concat (map msg_bytes ms) @ rest"] Cons.prems by auto
  with Cons.IH [of t] Cons.prems(1) show ?case by (auto simp: bindM_def unitM_def)
qed (simp add: unitM_def)

theorem raw_receive_stream_witness:
  "\<exists>t. polls sim_env 4 (nrf_class (sim0\<lparr>sim_rx := [0xA7, 2, 0, 5, 0, 1, 2, 3, 0x7F, 1, 0, 65,
         0xA7, 1, 0, 6, 0, 1, 2, 0xBB, 1, 0, 7, 0, 8, 8, 0xA7]\<rparr>)) =
       Ret [Some [1, 2], None, None, None] t \<and> sim_rx (outside t) = [0xA7] \<and> event_counter t = 7 \<and>
       sent_pkt t = Some [8]"
proof -
  let ?s = "nrf_class (sim0\<lparr>sim_rx := [0xA7, 2, 0, 5, 0, 1, 2, 3, 0x7F, 1, 0, 65,
         0xA7, 1, 0, 6, 0, 1, 2, 0xBB, 1, 0, 7, 0, 8, 8, 0xA7]\<rparr>)"
  let ?ms = "[Received 5 [1, 2] 3, LogText [65], Received 6 [1] 2, SentBack 7 [8] 8]"
  have rx: "sim_rx (outside ?s) = concat (map msg_bytes ?ms) @ [0xA7]" by code_simp
  have ok: "list_all msg_ok ?ms" by simp
  have read: "map msg_data ?ms = [Some [1, 2], None, None, None]" "fold msg_event ?ms 0 = 7"
    "fold msg_sent ?ms None = Some [8]" by code_simp+
  have start: "event_counter ?s = 0" "sent_pkt ?s = None" by (simp_all add: nrf_class_def)
  have n: "length ?ms = 4" by simp
  from raw_receive_stream [OF sim_serial ok rx] show ?thesis
    unfolding start read n by blast
qed

text \<open>C30: Any single corrupted byte is caught. When one data byte of a frame differs from what the
  checksum was computed over, the frame is read to its end and dropped: nothing is returned, and
  event counter, looped-back packet, packet log and the mapper's state stay as they were.\<close>

theorem raw_receive_corrupted:
  assumes "serial_ok X rx" and "c = 0xA7 \<or> c = 0xBB"
    and "rx (outside s) = dongle_frame c evt (data[i := b]) (good_cks data) @ rest"
    and "i < length data" and "b \<noteq> data ! i"
    and "length data < 65536" and "0 \<le> evt" and "evt < 65536"
  shows "\<exists>w. raw_receive X s = Ret None (s\<lparr>ser_timeout := None, outside := w\<rparr>) \<and> rx w = rest"
  using raw_receive_data [OF assms(1-3)] assms(4-) checksum8_detects [OF assms(4,5)]
  by auto

theorem raw_receive_corrupted_witness:
  "\<exists>w. raw_receive sim_env (nrf_class (sim0\<lparr>sim_rx := [0xA7, 2, 0, 5, 0, 9, 2, 3]\<rparr>)) =
       Ret None ((nrf_class (sim0\<lparr>sim_rx := [0xA7, 2, 0, 5, 0, 9, 2, 3]\<rparr>))
                  \<lparr>ser_timeout := None, outside := w\<rparr>) \<and> sim_rx w = []"
proof -
  let ?s = "nrf_class (sim0\<lparr>sim_rx := [0xA7, 2, 0, 5, 0, 9, 2, 3]\<rparr>)"
  have "sim_rx (outside ?s) = dongle_frame 0xA7 5 ([1, 2][0 := 9]) (good_cks [1, 2]) @ []"
    by code_simp
  from raw_receive_corrupted [OF sim_serial _ this] show ?thesis by simp
qed

text \<open>The pcap header of a logged packet announces the right length, in little-endian order,
  for packets of up to 245 bytes; a longer packet cannot be logged: building it raises
  \<open>struct.error\<close>, because \<open>post_build\<close> packs the length into a single byte.\<close>

theorem nordic_build_length:
  "post_build (NORDIC_BLE 75 2 fl) (nordic_fields (NORDIC_BLE 75 2 fl)) pay =
     (if length pay \<le> 245
      then Inr ([75] @ le_bytes 2 (int (length pay) + 10) @
                drop 3 (nordic_fields (NORDIC_BLE 75 2 fl)) @ pay)
      else Inl StructError)"
proof -
  define rest where "rest = drop 3 (nordic_fields (NORDIC_BLE 75 2 fl))"
  have p: "nordic_fields (NORDIC_BLE 75 2 fl) = 75 # 0 # 0 # rest"
    by (simp add: rest_def nordic_fields_def NORDIC_BLE_def le_bytes_1 le_bytes_2)
  show ?thesis
  proof (cases "length pay \<le> 245")
    case True
    then have "(int (length pay) + 10) div 256 = 0" by (intro div_pos_pos_trivial) auto
    with True p show ?thesis
      by (simp add: post_build_def struct_pack_le_def NORDIC_BLE_def le_bytes_1 le_bytes_2)
  qed (simp add: post_build_def struct_pack_le_def NORDIC_BLE_def)
qed

text \<open>
  The reset loop over the worlds \<open>ws 0, ws 1, ...\<close> in which its turns begin. A turn fails softly
  when the command succeeds and the port does not open; the code then sleeps and tries again.
\<close>

lemma soft_failure:
  assumes "os_system X cmd w = Ret st u" and "drop_bit 8 st = 0"
    and "ser_open X u = Raise e v" and "time_sleep X 2 v = Ret () w'" and "outside s = w"
  shows "reset_loop X cmd (Suc n) s = reset_loop X cmd n (s\<lparr>outside := w'\<rparr>)"
  using assms by (simp add: try_reopen_def tryM_def outM_def bindM_def thenM_def unitM_def)

lemma soft_failures:
  assumes "\<And>i. i < k \<Longrightarrow> \<exists>st u e v. os_system X cmd (ws i) = Ret st u \<and> drop_bit 8 st = 0 \<and>
             ser_open X u = Raise e v \<and> time_sleep X 2 v = Ret () (ws (Suc i))"
    and "outside s = ws 0"
  shows "reset_loop X cmd (k + n) s = reset_loop X cmd n (s\<lparr>outside := ws k\<rparr>)"
  using assms
proof (induction k arbitrary: n)
  case 0
  then have "s\<lparr>outside := ws 0\<rparr> = s" by (cases s) simp
  then show ?case by simp
next
  case (Suc k)
  obtain st u e v where "os_system X cmd (ws k) = Ret st u" "drop_bit 8 st = 0"
    "ser_open X u = Raise e v" "time_sleep X 2 v = Ret () (ws (Suc k))"
    using Suc.prems(1) [of k] by blast
  from soft_failure [OF this, of "s\<lparr>outside := ws k\<rparr>" n]
  have "reset_loop X cmd (Suc n) (s\<lparr>outside := ws k\<rparr>) = reset_loop X cmd n (s\<lparr>outside := ws (Suc k)\<rparr>)"
    by simp
  with Suc.IH [of "Suc n"] Suc.prems show ?case by (simp add: less_Suc_eq)
qed

lemma last_turn_fails:
  assumes "os_system X cmd (outside s) = Ret st u" and "drop_bit 8 st \<noteq> 0"
  shows "reset_loop X cmd (Suc n) s =
     Raise (RuntimeError ''Device reset failed'') (s\<lparr>outside := u\<rparr>)"
  using assms by (simp add: bindM_def outM_def raiseM_def)

lemma last_turn_opens:
  assumes "os_system X cmd (outside s) = Ret st u" and "drop_bit 8 st = 0"
    and "ser_open X u = Ret () v" and "ser_write X [0xCC, 0] v = Ret () w"
  shows "reset_loop X cmd (Suc n) s = Ret () (s\<lparr>pcap_tx_handover := 0, outside := w\<rparr>)"
  using assms
  by (simp add: try_reopen_def set_log_tx_def one_byte_def NRF52_CMD_CONFIG_LOG_TX_def monad_simps
      outM_def)

lemma reset_loop_stuck:
  assumes "\<And>w. \<exists>st w'. os_system X cmd w = Ret st w' \<and> drop_bit 8 st = 0"
    and "\<And>w. \<exists>e w'. ser_open X w = Raise e w'"
    and "\<And>w. \<exists>w'. time_sleep X 2 w = Ret () w'"
  shows "reset_loop X cmd n s = NoRet"
proof (induction n arbitrary: s)
  case (Suc n)
  obtain st w1 where 1: "os_system X cmd (outside s) = Ret st w1" "drop_bit 8 st = 0"
    using assms(1) by blast
  obtain e w2 where 2: "ser_open X w1 = Raise e w2" using assms(2) by blast
  obtain w3 where 3: "time_sleep X 2 w2 = Ret () w3" using assms(3) by blast
  show ?case
    by (simp add: bindM_def thenM_def outM_def tryM_def unitM_def try_reopen_def 1 2 3 Suc.IH)
qed simp

text \<open>C31: A device reset closes the port and runs the reset command until the port opens again.
  Let the first \<open>k\<close> turns succeed in the command and fail to open the port. If the command then
  fails, the reset ends with \<open>RuntimeError\<close>; if it succeeds and the port opens, the reset returns,
  the loop-back log is switched off in the dongle and in the driver, and nothing else has changed.\<close>

theorem reset_device_outcome:
  assumes "reset_cmd s = Some cmd" and "ser_close X (outside s) = Ret () (ws 0)" and "k < n"
    and "\<And>i. i < k \<Longrightarrow> \<exists>st u e v. os_system X cmd (ws i) = Ret st u \<and> drop_bit 8 st = 0 \<and>
           ser_open X u = Raise e v \<and> time_sleep X 2 v = Ret () (ws (Suc i))"
    and "os_system X cmd (ws k) = Ret st u"
    and "drop_bit 8 st = 0 \<Longrightarrow> ser_open X u = Ret () v \<and> ser_write X [0xCC, 0] v = Ret () w"
  shows "reset_device_nrf X n s =
     (if drop_bit 8 st \<noteq> 0
      then Raise (RuntimeError ''Device reset failed'') (s\<lparr>outside := u\<rparr>)
      else Ret () (s\<lparr>pcap_tx_handover := 0, outside := w\<rparr>))"
proof -
  obtain j where n: "n = k + Suc j" using less_imp_Suc_add [OF assms(3)] by auto
  have "reset_device_nrf X n s = reset_loop X cmd (k + Suc j) (s\<lparr>outside := ws 0\<rparr>)"
    using assms(1,2) by (simp add: n reset_device_nrf_def monad_simps outM_def del: reset_loop.simps)
  also have "\<dots> = reset_loop X cmd (Suc j) (s\<lparr>outside := ws k\<rparr>)"
    using soft_failures [of k X cmd ws "s\<lparr>outside := ws 0\<rparr>" "Suc j"] assms(4) by (simp del: reset_loop.simps)
  finally have eq: "reset_device_nrf X n s = reset_loop X cmd (Suc j) (s\<lparr>outside := ws k\<rparr>)" .
  have turn: "os_system X cmd (outside (s\<lparr>outside := ws k\<rparr>)) = Ret st u" using assms(5) by simp
  show ?thesis
  proof (cases "drop_bit 8 st = 0")
    case True
    then show ?thesis
      using last_turn_opens [OF turn True, of v w j] assms(6) by (simp add: eq del: reset_loop.simps)
  next
    case False
    then show ?thesis
      using last_turn_fails [OF turn False, of j] by (simp add: eq del: reset_loop.simps)
  qed
qed

text \<open>A port that opens only once the clock stands at two seconds: the first turn fails, the second
  turn opens it.\<close>

theorem reset_device_outcome_witness:
  "reset_device_nrf (sim_env\<lparr>ser_open := \<lambda>w. if sim_now w < 2 then Raise SerialException w else Ret () w\<rparr>)
     3 ((nrf_class sim0)\<lparr>reset_cmd := Some ''r''\<rparr>) =
   Ret () ((nrf_class sim0)\<lparr>reset_cmd := Some ''r'', pcap_tx_handover := 0,
     outside := sim0\<lparr>sim_now := 2, sim_tx := [[0xCC, 0]]\<rparr>\<rparr>)"
  using reset_device_outcome [of "(nrf_class sim0)\<lparr>reset_cmd := Some ''r''\<rparr>" "''r''"
      "sim_env\<lparr>ser_open := \<lambda>w. if sim_now w < 2 then Raise SerialException w else Ret () w\<rparr>"
      "\<lambda>i. sim0\<lparr>sim_now := 2 * of_nat i\<rparr>" 1 3 0 "sim0\<lparr>sim_now := 2\<rparr>" "sim0\<lparr>sim_now := 2\<rparr>"
      "sim0\<lparr>sim_now := 2, sim_tx := [[0xCC, 0]]\<rparr>"]
  by (simp add: nrf_class_def sim_env_def sim0_def)

text \<open>The reset loop has no bound of its own: while the reset command succeeds and the port can
  not be opened, it tries again for ever (as the comment in the code warns).\<close>

theorem reset_device_stuck:
  assumes "reset_cmd s = Some cmd" and "ser_close X (outside s) = Ret () w0"
    and "\<And>w. \<exists>st w'. os_system X cmd w = Ret st w' \<and> drop_bit 8 st = 0"
    and "\<And>w. \<exists>e w'. ser_open X w = Raise e w'"
    and "\<And>w. \<exists>w'. time_sleep X 2 w = Ret () w'"
  shows "reset_device_nrf X n s = NoRet"
  using assms(1,2) reset_loop_stuck [OF assms(3-5)]
  by (simp add: reset_device_nrf_def getM_def thenM_def outM_def bindM_def)

theorem reset_device_stuck_witness:
  "\<forall>n. reset_device_nrf (sim_env\<lparr>ser_open := Raise SerialException, os_system := \<lambda>c. Ret 0\<rparr>) n
     ((nrf_class sim0)\<lparr>reset_cmd := Some ''r''\<rparr>) = NoRet"
  by (rule allI, rule reset_device_stuck [where cmd = "''r''" and ?w0.0 = sim0])
     (simp_all add: nrf_class_def sim_env_def)

end
