(* ===== verification/State.thy ===== *)
theory State
  imports Driver
begin

text \<open>
  The mapper object \<open>BLESUL\<close> of py/BLESUL.py: its attributes, the \<open>packets\<close> table that builds
  one packet per input symbol from them, the values \<open>__init__\<close> and \<open>reset\<close> give the
  attributes, and the interface every operation of the mapper is shown to respect (locale
  \<open>mapper_frame\<close>).
\<close>

section \<open>Attributes\<close>

text \<open>
  The attributes \<open>reset\<close> creates for a connection. Those that only carry a value from
  the security manager to a packet hold any field value.
\<close>

record conn =
  central_address :: string
  access_address :: int
  encrypted :: bool
  enc_tx_pkt_count :: int
  enc_rx_pkt_count :: int
  conn_iv :: bytes
  conn_skd :: bytes
  conn_ltk :: val
  conn_session_key :: bytes
  confirm :: val
  random_value :: val
  conn_ltk_enc_inf :: val
  rand :: val
  ediv :: val
  irk :: val
  csrk :: val
  key_x :: val
  key_y :: val
  atype :: val
  dhkey_check :: val

text \<open>
  The mapper: the driver's attributes and its own. Before the first \<open>reset\<close> the connection's
  attributes do not exist (\<open>connection = None\<close>), before the first output symbol the
  \<open>symbols\<close> table does not (\<open>symbols = None\<close>).
\<close>

record 'w sul = "'w dstate" +
  peripheral_address :: string
  peripheral_address_is_rand :: val
  central_address_is_rand :: int
  recv_s_min :: rat
  recv_s_max :: rat
  output_symbol_filters :: "string list"
  is_retry_running :: bool
  last_device_reset_time :: rat
  test_start_time :: rat
  reset_breaks :: "(rat \<times> rat) list"
  connection :: "conn option"
  input_sequence :: "string list"
  output_sequence :: "string list"
  symbols :: "(string \<rightharpoonup> string) option"

type_synonym ('w, 'a) sulM = "('w sul, 'a) comp"

section \<open>The packets table\<close>

definition adv_pkt :: "val \<Rightarrow> int \<Rightarrow> layer \<Rightarrow> packet" where
  "adv_pkt pr cr l = [Layer BTLE [], Layer BTLE_ADV [(''RxAdd'', pr), (''TxAdd'', VInt cr)], l]"

definition data_pkt :: "conn \<Rightarrow> packet \<Rightarrow> packet" where
  "data_pkt c p = [Layer BTLE [(''access_addr'', VInt (access_address c))], Layer BTLE_DATA []] @ p"

definition adv :: "val \<Rightarrow> int \<Rightarrow> layer \<Rightarrow> exn + packet" where
  "adv pr cr l = Inr (adv_pkt pr cr l)"

definition ctrl :: "conn \<Rightarrow> layer \<Rightarrow> exn + packet" where
  "ctrl c l = Inr (data_pkt c [Layer BTLE_CTRL [], l])"

definition smp :: "conn \<Rightarrow> layer \<Rightarrow> exn + packet" where
  "smp c l = Inr (data_pkt c [Layer L2CAP_Hdr [], Layer SM_Hdr [], l])"

definition att :: "conn \<Rightarrow> layer \<Rightarrow> exn + packet" where
  "att c l = Inr (data_pkt c [Layer L2CAP_Hdr [], Layer ATT_Hdr [], l])"

text \<open>The table in the code's order; \<open>pa\<close>, \<open>pr\<close>, \<open>cr\<close> are the two addresses' attributes.\<close>

definition packets :: "string \<Rightarrow> val \<Rightarrow> int \<Rightarrow> conn \<Rightarrow> (string \<times> (exn + packet)) list" where
  "packets pa pr cr c =
     [(''LL_ADV_IND'', adv pr cr (Layer BTLE_ADV_IND [(''AdvA'', VStr (central_address c))])),
      (''LL_ADV_SCAN_REQ'', adv pr cr (Layer BTLE_SCAN_REQ [(''ScanA'', VStr (central_address
        c)), (''AdvA'', VStr pa)])),
      (''LL_ADV_SCAN_RSP'', adv pr cr (Layer BTLE_SCAN_RSP [(''AdvA'', VStr (central_address
        c))])),
      (''LL_ADV_CONNECT_IND'', map_sum id (\<lambda>aa. adv_pkt pr cr (Layer BTLE_CONNECT_REQ
        [(''InitA'', VStr (central_address c)), (''AdvA'', VStr pa), (''AA'', VRaw aa),
        (''crc_init'', VInt 0x179a9c), (''win_size'', VInt 2), (''win_offset'', VInt 1),
        (''interval'', VInt 16), (''latency'', VInt 0), (''timeout'', VInt 50), (''chM'', VInt
        0x1FFFFFFFFF), (''SCA'', VInt 0), (''hop'', VInt 5)])) (struct_pack_le 4 (access_address
        c))),
      (''LL_DATA'', Inr [Layer BTLE [(''access_addr'', VInt (access_address c))], Layer
        BTLE_DATA [(''LLID'', VInt 0x01)]]),
      (''LL_CTRL_TERMINATE_IND'', ctrl c (Layer LL_TERMINATE_IND [])),
      (''LL_CTRL_ENC_REQ'', ctrl c (Layer LL_ENC_REQ [(''rand'', VInt 0), (''ediv'', VInt 0),
        (''skdm'', VInt (from_le (take 8 (conn_skd c)))), (''ivm'', VInt (from_le (take 4
        (conn_iv c))))])),
      (''LL_CTRL_ENC_RSP'', ctrl c (Layer LL_ENC_RSP [(''skds'', VInt (from_le (take 8 (drop 8
        (conn_skd c))))), (''ivs'', VInt (from_le (take 4 (drop 4 (conn_iv c)))))])),
      (''LL_CTRL_START_ENC_REQ'', ctrl c (Layer LL_START_ENC_REQ [])),
      (''LL_CTRL_START_ENC_RSP'', ctrl c (Layer LL_START_ENC_RSP [])),
      (''LL_CTRL_UNKNOWN_RSP'', ctrl c (Layer LL_UNKNOWN_RSP [])),
      (''LL_CTRL_FEATURE_REQ'', ctrl c (Layer LL_FEATURE_REQ [(''feature_set'', VStr
        ''le_encryption+le_data_len_ext'')])),
      (''LL_CTRL_FEATURE_RSP'', ctrl c (Layer LL_FEATURE_RSP [(''feature_set'', VStr
        ''le_encryption+le_data_len_ext'')])),
      (''LL_CTRL_PAUSE_ENC_REQ'', ctrl c (Layer LL_PAUSE_ENC_REQ [])),
      (''LL_CTRL_PAUSE_ENC_RSP'', ctrl c (Layer LL_PAUSE_ENC_RSP [])),
      (''LL_CTRL_VERSION_IND'', ctrl c (Layer LL_VERSION_IND [(''version'', VStr ''5.0'')])),
      (''LL_CTRL_REJECT_IND'', ctrl c (Layer LL_REJECT_IND [(''code'', VInt 0x11)])),
      (''LL_CTRL_PERIPHERAL_FEATURE_REQ'', ctrl c (Layer LL_SLAVE_FEATURE_REQ
        [(''feature_set'', VStr ''le_encryption+le_data_len_ext'')])),
      (''LL_CTRL_REJECT_EXT_IND'', ctrl c (Layer LL_REJECT_EXT_IND [(''error_code'', VInt
        0x11)])),
      (''LL_CTRL_LENGTH_REQ'', ctrl c (Layer LL_LENGTH_REQ [(''max_tx_bytes'', VInt (247 +
        4)), (''max_rx_bytes'', VInt (247 + 4))])),
      (''LL_CTRL_LENGTH_RSP'', ctrl c (Layer LL_LENGTH_RSP [(''max_tx_bytes'', VInt (247 +
        4)), (''max_rx_bytes'', VInt (247 + 4))])),
      (''LL_CTRL_PHY_REQ'', ctrl c (Layer LL_PHY_REQ [(''tx_phys'', VStr ''phy_coded''),
        (''rx_phys'', VStr ''phy_coded'')])),
      (''LL_CTRL_PHY_RSP'', ctrl c (Layer LL_PHY_RSP [(''tx_phys'', VStr ''phy_coded''),
        (''rx_phys'', VStr ''phy_coded'')])),
      (''LL_CTRL_PHY_UPDATE_IND'', ctrl c (Layer LL_PHY_UPDATE_IND [(''tx_phy'', VStr
        ''phy_coded''), (''rx_phy'', VStr ''phy_coded'')])),
      (''L2CAP_CONNECTION_PARAMETER_UPDATE_REQ'', Inr [Layer BTLE [(''access_addr'', VInt
        (access_address c))], Layer BTLE_DATA [], Layer L2CAP_Hdr [], Layer L2CAP_CmdHdr [],
        Layer L2CAP_Connection_Parameter_Update_Request []]),
      (''SM_PAIRING_REQ'', smp c (Layer SM_Pairing_Request [(''iocap'', VInt 0x03), (''oob'',
        VInt 0), (''authentication'', VInt 0x01), (''max_key_size'', VInt 16),
        (''initiator_key_distribution'', VInt 0x01), (''responder_key_distribution'', VInt
        0x01)])),
      (''SM_PAIRING_REQ_SC'', smp c (Layer SM_Pairing_Request [(''iocap'', VInt 0x01),
        (''oob'', VInt 0), (''authentication'', VInt 0x09), (''max_key_size'', VInt 16),
        (''initiator_key_distribution'', VInt 0x01), (''responder_key_distribution'', VInt
        0x01)])),
      (''SM_PAIRING_RSP'', smp c (Layer SM_Pairing_Response [(''iocap'', VInt 0x03), (''oob'',
        VInt 0), (''authentication'', VInt 0x01), (''max_key_size'', VInt 16),
        (''initiator_key_distribution'', VInt 0x01), (''responder_key_distribution'', VInt
        0x01)])),
      (''SM_CONFIRM'', smp c (Layer SM_Confirm [(''confirm'', confirm c)])),
      (''SM_RANDOM'', smp c (Layer SM_Random [(''random'', random_value c)])),
      (''SM_FAILED'', smp c (Layer SM_Failed [(''reason'', VInt 0x08)])),
      (''SM_ENCRYPTION_INFORMATION'', smp c (Layer SM_Encryption_Information [(''ltk'',
        conn_ltk_enc_inf c)])),
      (''SM_CENTRAL_IDENTIFICATION'', smp c (Layer SM_Master_Identification [(''ediv'', ediv
        c), (''rand'', rand c)])),
      (''SM_IDENTITY_INFORMATION'', smp c (Layer SM_Identity_Information [(''irk'', irk c)])),
      (''SM_IDENTITY_ADDRESS_INFORMATION'', smp c (Layer SM_Identity_Address_Information
        [(''atype'', atype c)])),
      (''SM_SIGNING_INFORMATION'', smp c (Layer SM_Signing_Information [(''csrk'', csrk c)])),
      (''SM_PUBLIC_KEY'', smp c (Layer SM_Public_Key [(''key_x'', key_x c), (''key_y'', key_y
        c)])),
      (''SM_DHKEY_CHECK'', smp c (Layer SM_DHKey_Check [(''dhkey_check'', dhkey_check c)])),
      (''ATT_ERROR_RSP'', att c (Layer ATT_Error_Response [])),
      (''ATT_EXCHANGE_MTU_REQ'', att c (Layer ATT_Exchange_MTU_Request [(''mtu'', VInt 247)])),
      (''ATT_EXCHANGE_MTU_RSP'', att c (Layer ATT_Exchange_MTU_Response [(''mtu'', VInt
        247)])),
      (''ATT_READ_BY_TYPE_REQ'', att c (Layer ATT_Read_By_Type_Request [(''start'', VInt
        0x0001), (''end'', VInt 0xffff), (''uuid'', VInt 0x2800)])),
      (''ATT_READ_BY_TYPE_RSP'', att c (Layer ATT_Read_By_Type_Response [])),
      (''ATT_READ_BY_GROUP_TYPE_REQ'', att c (Layer ATT_Read_By_Group_Type_Request
        [(''start'', VInt 0x0001), (''end'', VInt 0xffff), (''uuid'', VInt 0x2800)])),
      (''ATT_READ_BY_GROUP_TYPE_RSP'', att c (Layer ATT_Read_By_Group_Type_Response [])),
      (''ATT_READ_REQ'', att c (Layer ATT_Read_Request [(''gatt_handle'', VInt 0x12)])),
      (''ATT_READ_RSP'', att c (Layer ATT_Read_Response [(''value'', VStr ''0'')]))]"

definition sul_packets :: "'w sul \<Rightarrow> conn \<Rightarrow> (string \<times> (exn + packet)) list" where
  "sul_packets s c =
     packets (peripheral_address s) (peripheral_address_is_rand s) (central_address_is_rand s) c"

text \<open>The values \<open>reset\<close> gives the connection's attributes.\<close>

definition zeros :: "nat \<Rightarrow> bytes" where
  "zeros n = replicate n 0"

definition reset_conn :: "string \<Rightarrow> int \<Rightarrow> conn" where
  "reset_conn ca aa =
     \<lparr>central_address = ca, access_address = aa, encrypted = False,
      enc_tx_pkt_count = 0, enc_rx_pkt_count = 0,
      conn_iv = zeros 8, conn_skd = zeros 16, conn_ltk = VBytes (zeros 16),
      conn_session_key = zeros 16, confirm = VBytes (zeros 16),
      random_value = VBytes (zeros 16), conn_ltk_enc_inf = VBytes (zeros 16),
      rand = VBytes (zeros 8), ediv = VInt 0, irk = VBytes (zeros 16),
      csrk = VBytes (zeros 16), key_x = VBytes (zeros 32), key_y = VBytes (zeros 32),
      atype = VInt 0, dhkey_check = VBytes (zeros 16)\<rparr>"

definition packet_names :: "string list" where
  "packet_names = map fst (packets [] VNone 0 (reset_conn [] 0))"

text \<open>
  Reading and writing the connection's attributes, and \<open>self.packets[sym](self)\<close>: an unknown
  symbol is a \<open>KeyError\<close>, an attribute that is not there yet an \<open>AttributeError\<close> (whose text always
  names the first of them, whichever is read).
\<close>

definition with_conn :: "(conn \<Rightarrow> ('w, 'a) sulM) \<Rightarrow> ('w, 'a) sulM" where
  "with_conn f s =
     (case connection s of
        None \<Rightarrow> Raise (AttributeError ''access_address'') s
      | Some c \<Rightarrow> f c s)"

definition upd_conn :: "(conn \<Rightarrow> conn) \<Rightarrow> ('w, unit) sulM" where
  "upd_conn g = modM (\<lambda>s. s\<lparr>connection := map_option g (connection s)\<rparr>)"

definition mk_packet :: "string \<Rightarrow> ('w, packet) sulM" where
  "mk_packet name s =
     (case connection s of
        None \<Rightarrow> Raise (if name \<in> set packet_names then AttributeError ''access_address''
                      else KeyError name) s
      | Some c \<Rightarrow>
          (case map_of (sul_packets s c) name of
             None \<Rightarrow> Raise (KeyError name) s
           | Some r \<Rightarrow> liftE r s))"

section \<open>Construction\<close>

text \<open>The object before \<open>__init__\<close> runs; the values of attributes it does not have yet do not matter.\<close>

definition new_sul :: "'w \<Rightarrow> 'w sul" where
  "new_sul w = dstate.extend (nrf_class w)
     (sul.fields '''' VNone 0 0 0 [] False 0 0 [] None [] [] None)"

definition BLESUL_init ::
  "'w env \<Rightarrow> string \<Rightarrow> string \<Rightarrow> string option \<Rightarrow> rat \<Rightarrow> rat \<Rightarrow> string list \<Rightarrow> ('w, unit) sulM"
where
  "BLESUL_init X serial_port device_address cmd smin smax filters =
     thenM (nrf_init X serial_port 115200 False False cmd)
     (thenM (modM (\<lambda>s. s\<lparr>peripheral_address := device_address,
                      peripheral_address_is_rand := VInt 1, central_address_is_rand := 0,
                      recv_s_min := smin, recv_s_max := smax,
                      output_symbol_filters := filters @ [''LL_ADV_IND'', ''LL_DATA''],
                      is_retry_running := False, last_device_reset_time := 0\<rparr>))
     (bindM (outM (time_time X)) (\<lambda>t.
        modM (\<lambda>s. s\<lparr>test_start_time := t, reset_breaks := []\<rparr>))))"

section \<open>Resetting the device\<close>

text \<open>The peripheral and the dongle are reset by the driver; the pause is recorded relative to the start.\<close>

definition reset_device :: "'w env \<Rightarrow> nat \<Rightarrow> ('w, unit) sulM" where
  "reset_device X fuel =
     bindM (outM (time_time X)) (\<lambda>time_before.
     thenM (reset_device_nrf X fuel)
     (thenM (outM (time_sleep X 1))
     (bindM (outM (time_time X)) (\<lambda>time_after.
        modM (\<lambda>s. s\<lparr>reset_breaks := reset_breaks s @
                       [(time_before - test_start_time s, time_after - test_start_time s)],
                     last_device_reset_time := time_after\<rparr>)))))"

text \<open>A mapper on the simulated world, with a connection and a symbols table, for the witnesses.\<close>

definition sim_sul :: "sim \<Rightarrow> conn \<Rightarrow> sim sul" where
  "sim_sul w c =
     (new_sul w)\<lparr>peripheral_address := sim_addr, peripheral_address_is_rand := VInt 1,
                  recv_s_min := 1 / 10, recv_s_max := 1,
                  output_symbol_filters := [''LL_ADV_IND'', ''LL_DATA''],
                  connection := Some c, symbols := Some Map.empty\<rparr>"

definition sim_conn :: conn where
  "sim_conn = (reset_conn sim_addr 7)\<lparr>encrypted := True\<rparr>"

lemma sim_sul_simps [simp]:
  "connection (sim_sul w c) = Some c" "outside (sim_sul w c) = w"
  "symbols (sim_sul w c) = Some Map.empty" "logs_pcap (sim_sul w c) = False"
  "recv_s_min (sim_sul w c) = 1 / 10" "recv_s_max (sim_sul w c) = 1"
  "is_retry_running (sim_sul w c) = False" "peripheral_address (sim_sul w c) = sim_addr"
  "input_sequence (sim_sul w c) = []" "output_sequence (sim_sul w c) = []"
  "reset_cmd (sim_sul w c) = None"
  "output_symbol_filters (sim_sul w c) = [''LL_ADV_IND'', ''LL_DATA'']"
  by (simp_all add: sim_sul_def new_sul_def nrf_class_def dstate.defs sul.defs)

lemma sim_conn_simps [simp]:
  "encrypted sim_conn" "conn_iv sim_conn = zeros 8" "conn_session_key sim_conn = zeros 16"
  "enc_tx_pkt_count sim_conn = 0" "enc_rx_pkt_count sim_conn = 0"
  "access_address sim_conn = 7" "conn_skd sim_conn = zeros 16"
  by (simp_all add: sim_conn_def reset_conn_def)

section \<open>What operations respect\<close>

text \<open>
  Receiving leaves the addresses, the IV, the SKD and the session key alone, never turns
  encryption on, and changes what the security manager stores only where the SMP server answers
  (\<open>spk\<close>): \<open>conn_step\<close>. The encryption procedure may change the key material, but keeps
  its sizes, an 8-byte IV and a 16-byte SKD: \<open>key_step\<close>.
\<close>

definition smp_speaks :: "'w env \<Rightarrow> bool" where
  "smp_speaks X \<longleftrightarrow> (\<exists>bs w rs w'. smp_send_hci X bs w = Ret (Some rs) w' \<and> rs \<noteq> [])"

text \<open>The attributes that answers of the SMP server are stored in.\<close>

definition smp_data :: "conn \<Rightarrow> val list" where
  "smp_data c =
     [conn_ltk c, confirm c, random_value c, conn_ltk_enc_inf c, rand c, ediv c, irk c, csrk c,
      key_x c, key_y c, atype c, dhkey_check c]"

definition conn_wf :: "conn \<Rightarrow> bool" where
  "conn_wf c \<longleftrightarrow> length (conn_iv c) = 8 \<and> length (conn_skd c) = 16"

definition conn_step :: "bool \<Rightarrow> conn \<Rightarrow> conn \<Rightarrow> bool" where
  "conn_step spk c d \<longleftrightarrow>
     (spk \<or> smp_data d = smp_data c) \<and>
     conn_iv d = conn_iv c \<and> conn_skd d = conn_skd c \<and> conn_session_key d = conn_session_key c \<and>
     (encrypted d \<longrightarrow> encrypted c) \<and>
     access_address d = access_address c \<and> central_address d = central_address c"

definition key_step :: "conn \<Rightarrow> conn \<Rightarrow> bool" where
  "key_step c d \<longleftrightarrow>
     (conn_wf c \<longrightarrow> conn_wf d) \<and>
     access_address d = access_address c \<and> central_address d = central_address c"

lemma conn_step_trans: "conn_step spk c d \<Longrightarrow> conn_step spk d e \<Longrightarrow> conn_step spk c e"
  by (auto simp: conn_step_def)

lemma conn_step_key_step: "conn_step spk c d \<Longrightarrow> key_step c d"
  by (simp add: conn_step_def key_step_def conn_wf_def)

text \<open>
  A relation on mapper states that sending and receiving respect: it allows what the driver does,
  updates of the connection, the filling of the symbols table with names of input symbols, and
  device resets with their book-keeping, as a whole. An operation is shown once, in the theory that defines it, to be made of such steps;
  each interpretation then gives a fact about all operations. The locale \<open>step_frame\<close> allows
  what the input symbols' own methods do as well.
\<close>

locale mapper_frame = driver_frame R X for R :: "'w sul \<Rightarrow> 'w sul \<Rightarrow> bool" and X :: "'w env" +
  assumes R_conn: "connection s = Some c \<Longrightarrow> conn_step (smp_speaks X) c d \<Longrightarrow> R s (s\<lparr>connection := Some d\<rparr>)"
    and R_symbols: "symbols s = None \<Longrightarrow> ran m \<subseteq> set packet_names \<Longrightarrow> R s (s\<lparr>symbols := Some m\<rparr>)"
    and R_device: "keeps R (reset_device X fuel)"
    and R_stamp: "R s (s\<lparr>last_device_reset_time := r\<rparr>)"
    and R_rand: "R s (s\<lparr>peripheral_address_is_rand := v\<rparr>)"
begin

lemma keeps_with_conn: "(\<And>c. keeps R (f c)) \<Longrightarrow> keeps R (with_conn f)"
  by (auto simp: keeps_def with_conn_def step_refl split: option.splits)

lemma keeps_upd_conn: "(\<And>c. conn_step (smp_speaks X) c (g c)) \<Longrightarrow> keeps R (upd_conn g)"
proof -
  assume g: "\<And>c. conn_step (smp_speaks X) c (g c)"
  show ?thesis unfolding upd_conn_def
  proof (rule keeps_modM)
    fix s :: "'w sul"
    show "R s (s\<lparr>connection := map_option g (connection s)\<rparr>)"
    proof (cases "connection s")
      case None
      then have "s\<lparr>connection := map_option g (connection s)\<rparr> = s" by simp
      then show ?thesis by (simp add: step_refl)
    next
      case (Some c)
      with R_conn [OF Some g] show ?thesis by simp
    qed
  qed
qed

lemma keeps_mk_packet: "keeps R (mk_packet name)"
  using keeps_liftE
  by (auto simp: keeps_def mk_packet_def step_refl split: option.splits)

lemmas mapper_rules = driver_rules keeps_with_conn keeps_upd_conn keeps_mk_packet

end

locale step_frame = mapper_frame +
  assumes R_keys: "connection s = Some c \<Longrightarrow> key_step c d \<Longrightarrow> R s (s\<lparr>connection := Some d\<rparr>)"
begin

lemma keeps_upd_keys:
  assumes g: "\<And>c. key_step c (g c)"
  shows "keeps R (upd_conn g)"
  unfolding upd_conn_def
proof (rule keeps_modM)
  fix s
  show "R s (s\<lparr>connection := map_option g (connection s)\<rparr>)"
  proof (cases "connection s")
    case None
    then have "s\<lparr>connection := map_option g (connection s)\<rparr> = s" by simp
    then show ?thesis by (simp add: step_refl)
  next
    case (Some c)
    with R_keys [OF Some g] show ?thesis by simp
  qed
qed

end

text \<open>First: the sizes of the key material are an invariant.\<close>

definition sul_wf :: "'w sul \<Rightarrow> bool" where
  "sul_wf s \<longleftrightarrow> (\<forall>c. connection s = Some c \<longrightarrow> conn_wf c)"

definition wf_rel :: "'w sul \<Rightarrow> 'w sul \<Rightarrow> bool" where
  "wf_rel s t \<longleftrightarrow> (sul_wf s \<longrightarrow> sul_wf t)"

lemma drv_frame_more:
  assumes "drv_frame (s :: 'w sul) t"
  shows "connection t = connection s" "symbols t = symbols s"
    "input_sequence t = input_sequence s" "output_sequence t = output_sequence s"
    "is_retry_running t = is_retry_running s" "peripheral_address t = peripheral_address s"
    "recv_s_min t = recv_s_min s" "recv_s_max t = recv_s_max s"
    "output_symbol_filters t = output_symbol_filters s"
    "central_address_is_rand t = central_address_is_rand s"
    "test_start_time t = test_start_time s" "reset_cmd t = reset_cmd s"
    "logs_pcap t = logs_pcap s" "reset_breaks t = reset_breaks s"
    "last_device_reset_time t = last_device_reset_time s"
    "peripheral_address_is_rand t = peripheral_address_is_rand s"
  using assms by (cases s; cases t; simp add: drv_frame_def)+

text \<open>A device reset respects what allows its book-keeping.\<close>

lemma keeps_reset_deviceI:
  assumes "driver_frame R X" and "\<And>s b r. R s (s\<lparr>reset_breaks := b, last_device_reset_time := r\<rparr>)"
  shows "keeps R (reset_device X fuel)"
  unfolding reset_device_def
  by (intro driver_frame.driver_rules [OF assms(1)]
      stepwise.keeps_modM [OF driver_frame.axioms(1) [OF assms(1)]] assms(2)) simp

text \<open>A relation on the driver's part and one on the mapper's part, together.\<close>

lemma driver_frameI:
  fixes R :: "'w sul \<Rightarrow> 'w sul \<Rightarrow> bool" and X :: "'w env"
  assumes refl: "\<And>s. R s s" and trans: "\<And>s t u. R s t \<Longrightarrow> R t u \<Longrightarrow> R s u"
    and drv: "\<And>s t. drv_frame s t \<Longrightarrow> R s t"
  shows "driver_frame R X"
proof unfold_locales
  have out: "keeps R (outM m)" for m :: "('w, 'a) comp"
    by (rule keeps_outM) (rule drv, simp add: drv_frame_def)
  fix d :: rat and cmd bs tmo n fn ps pin a b v1 v2 v3
  show "keeps R (outM (time_time X))" "keeps R (outM (time_sleep X d))"
    "keeps R (outM (rand_byte X))" "keeps R (outM (rand_bits32 X))"
    "keeps R (outM (os_system X cmd))" "keeps R (outM (ser_open X))"
    "keeps R (outM (ser_close X))" "keeps R (outM (ser_write X bs))"
    "keeps R (outM (ser_read X tmo n))" "keeps R (outM (wrpcap X fn ps))"
    "keeps R (outM (smp_set_pin_code X pin))"
    "keeps R (outM (smp_configure X a b v1 v2 v3))"
    "keeps R (outM (smp_pairing_request X))" "keeps R (outM (smp_send_hci X bs))"
    by (rule out)+
qed (rule refl, erule (1) trans, erule drv)

lemma mapper_frameI:
  fixes R :: "'w sul \<Rightarrow> 'w sul \<Rightarrow> bool" and X :: "'w env"
  assumes refl: "\<And>s. R s s" and trans: "\<And>s t u. R s t \<Longrightarrow> R t u \<Longrightarrow> R s u"
    and drv: "\<And>s t. drv_frame s t \<Longrightarrow> R s t"
    and conn: "\<And>s c d. connection s = Some c \<Longrightarrow> conn_step (smp_speaks X) c d \<Longrightarrow> R s (s\<lparr>connection := Some d\<rparr>)"
    and symbols: "\<And>s m. symbols s = None \<Longrightarrow> ran m \<subseteq> set packet_names \<Longrightarrow> R s (s\<lparr>symbols := Some m\<rparr>)"
    and breaks: "\<And>s b r. R s (s\<lparr>reset_breaks := b, last_device_reset_time := r\<rparr>)"
    and is_rand: "\<And>s v. R s (s\<lparr>peripheral_address_is_rand := v\<rparr>)"
  shows "mapper_frame R X"
proof (rule mapper_frame.intro)
  show D: "driver_frame R X" by (rule driver_frameI [OF refl trans drv])
  have stamp: "R s (s\<lparr>last_device_reset_time := r\<rparr>)" for s r
    using breaks [of s r "reset_breaks s"] by simp
  show "mapper_frame_axioms R X"
    by (rule mapper_frame_axioms.intro)
       (auto intro: conn symbols is_rand stamp keeps_reset_deviceI [OF D breaks])
qed

lemma drv_wf_rel: "drv_frame s t \<Longrightarrow> wf_rel s t"
  using drv_frame_more(1) [of s t] by (simp add: wf_rel_def sul_wf_def)

lemma step_frameI:
  fixes R :: "'w sul \<Rightarrow> 'w sul \<Rightarrow> bool" and X :: "'w env"
  assumes "\<And>s. R s s" and "\<And>s t u. R s t \<Longrightarrow> R t u \<Longrightarrow> R s u"
    and "\<And>s t. drv_frame s t \<Longrightarrow> R s t"
    and keys: "\<And>s c d. connection s = Some c \<Longrightarrow> key_step c d \<Longrightarrow> R s (s\<lparr>connection := Some d\<rparr>)"
    and "\<And>s m. symbols s = None \<Longrightarrow> ran m \<subseteq> set packet_names \<Longrightarrow> R s (s\<lparr>symbols := Some m\<rparr>)"
    and "\<And>s b r. R s (s\<lparr>reset_breaks := b, last_device_reset_time := r\<rparr>)"
    and "\<And>s v. R s (s\<lparr>peripheral_address_is_rand := v\<rparr>)"
  shows "step_frame R X"
proof (rule step_frame.intro)
  show "mapper_frame R X"
    by (rule mapper_frameI; (fact assms(1,3,5-7) | erule assms(4), erule conn_step_key_step
          | erule (1) assms(2)))
  show "step_frame_axioms R"
    by (rule step_frame_axioms.intro) (rule keys)
qed

interpretation wf: step_frame wf_rel X for X :: "'w env"
proof (rule step_frameI)
  show "wf_rel s u" if "wf_rel s t" "wf_rel t u" for s t u :: "'w sul"
    using that by (simp add: wf_rel_def)
qed (simp_all add: drv_wf_rel, simp_all add: wf_rel_def sul_wf_def key_step_def)

text \<open>Second: the configuration, the test sequences and the connection's addresses stay.\<close>

definition cfg_rel :: "'w sul \<Rightarrow> 'w sul \<Rightarrow> bool" where
  "cfg_rel s t \<longleftrightarrow>
     peripheral_address t = peripheral_address s \<and>
     central_address_is_rand t = central_address_is_rand s \<and>
     recv_s_min t = recv_s_min s \<and> recv_s_max t = recv_s_max s \<and>
     output_symbol_filters t = output_symbol_filters s \<and>
     is_retry_running t = is_retry_running s \<and> test_start_time t = test_start_time s \<and>
     input_sequence t = input_sequence s \<and> output_sequence t = output_sequence s \<and>
     reset_cmd t = reset_cmd s \<and> logs_pcap t = logs_pcap s \<and>
     map_option access_address (connection t) = map_option access_address (connection s) \<and>
     map_option central_address (connection t) = map_option central_address (connection s)"

lemma drv_cfg_rel: "drv_frame s t \<Longrightarrow> cfg_rel s t"
  using drv_frame_more [of s t] by (simp add: cfg_rel_def)

interpretation cfg: step_frame cfg_rel X for X :: "'w env"
  by (rule step_frameI) (auto simp: drv_cfg_rel, auto simp: cfg_rel_def key_step_def)

text \<open>Third: the symbols table, once made, stays.\<close>

definition sym_rel :: "'w sul \<Rightarrow> 'w sul \<Rightarrow> bool" where
  "sym_rel s t \<longleftrightarrow> (\<forall>m. symbols s = Some m \<longrightarrow> symbols t = Some m)"

lemma drv_sym_rel: "drv_frame s t \<Longrightarrow> sym_rel s t"
  using drv_frame_more(2) [of s t] by (simp add: sym_rel_def)

interpretation symtab: step_frame sym_rel X for X :: "'w env"
  by (rule step_frameI) (auto simp: drv_sym_rel, auto simp: sym_rel_def)

text \<open>Fourth, for sending and receiving only: the key material stays, encryption is not turned on.\<close>

definition key_rel :: "bool \<Rightarrow> 'w sul \<Rightarrow> 'w sul \<Rightarrow> bool" where
  "key_rel spk s t \<longleftrightarrow>
     (connection s = None \<longleftrightarrow> connection t = None) \<and>
     (\<forall>c d. connection s = Some c \<longrightarrow> connection t = Some d \<longrightarrow> conn_step spk c d)"

lemma drv_key_rel: "drv_frame s t \<Longrightarrow> key_rel spk s t"
  using drv_frame_more(1) [of s t] by (simp add: key_rel_def conn_step_def)

interpretation keys: mapper_frame "key_rel (smp_speaks X)" X for X :: "'w env"
proof (rule mapper_frameI)
  show "key_rel (smp_speaks X) s u" if "key_rel (smp_speaks X) s t" "key_rel (smp_speaks X) t u"
    for s t u :: "'w sul"
    using that unfolding key_rel_def
    by (cases "connection t") (auto intro: conn_step_trans)
qed (simp_all add: drv_key_rel, simp_all add: key_rel_def conn_step_def)

text \<open>Fifth: time does not run backwards, in a world whose clock does not.\<close>

definition clock_mono :: "'w env \<Rightarrow> ('w \<Rightarrow> rat) \<Rightarrow> bool" where
  "clock_mono X now \<longleftrightarrow> env_keeps X (\<lambda>w w'. now w \<le> now w')"

abbreviation time_rel :: "('w \<Rightarrow> rat) \<Rightarrow> 'w sul \<Rightarrow> 'w sul \<Rightarrow> bool" where
  "time_rel now \<equiv> out_rel (\<lambda>w w'. now w \<le> now w')"

text \<open>Any preorder of worlds that all calls respect.\<close>

lemma out_step_frame:
  assumes "env_keeps X Q" and "\<And>w. Q w w" and "\<And>u v w. Q u v \<Longrightarrow> Q v w \<Longrightarrow> Q u w"
  shows "step_frame (out_rel Q) X"
proof -
  have D: "driver_frame (out_rel Q :: 'a sul \<Rightarrow> 'a sul \<Rightarrow> bool) X"
    by (rule driver_frame_out_rel [OF assms])
  show ?thesis
    by (intro step_frame.intro step_frame_axioms.intro mapper_frame.intro mapper_frame_axioms.intro
          D keeps_reset_deviceI [OF D])
       (simp_all add: out_rel_def assms(2))
qed

lemma time_step_frame: "clock_mono X now \<Longrightarrow> step_frame (time_rel now) X"
  by (rule out_step_frame) (simp_all add: clock_mono_def)

lemma time_frame: "clock_mono X now \<Longrightarrow> mapper_frame (time_rel now) X"
  by (rule step_frame.axioms(1) [OF time_step_frame])

end
