(* ===== verification/Symbols.thy ===== *)
theory Symbols
  imports State
begin

text \<open>
  Output symbols, the mapper's abstraction of what came back: \<open>output_symbol\<close> and
  \<open>filter_symbol\<close> of py/BLESUL.py. The learner sees only these strings, so what matters is that
  they depend on the set of packets received and on nothing else.
\<close>

section \<open>The symbols table\<close>

text \<open>\<open>{pkt(self).summary(): sym for sym, pkt in self.packets.items()}\<close>; a later entry with the
  same summary wins.\<close>

fun build_symbols ::
  "'w env \<Rightarrow> (string \<times> (exn + packet)) list \<Rightarrow> (string \<rightharpoonup> string) \<Rightarrow> exn + (string \<rightharpoonup> string)"
where
  "build_symbols X [] m = Inr m"
| "build_symbols X ((name, r) # rest) m =
     bindE r (\<lambda>p. build_symbols X rest (m(summary X p \<mapsto> name)))"

definition ensure_symbols :: "'w env \<Rightarrow> ('w, string \<rightharpoonup> string) sulM" where
  "ensure_symbols X s =
     (case symbols s of
        Some m \<Rightarrow> Ret m s
      | None \<Rightarrow> with_conn (\<lambda>c.
          bindM (liftE (build_symbols X (sul_packets s c) Map.empty)) (\<lambda>m.
          thenM (modM (symbols_update (\<lambda>_. Some m))) (unitM m))) s)"

section \<open>Symbols of packets\<close>

definition NORESPONSE :: string where "NORESPONSE = ''NORESPONSE''"

definition pkt_symbol :: "'w env \<Rightarrow> (string \<rightharpoonup> string) \<Rightarrow> packet \<Rightarrow> string" where
  "pkt_symbol X m p =
     (case m (summary X p) of
        Some name \<Rightarrow> name
      | None \<Rightarrow> py_replace '' / '' ''>'' (summary X p))"

definition symbol_of :: "'w env \<Rightarrow> (string \<rightharpoonup> string) \<Rightarrow> packet list \<Rightarrow> string" where
  "symbol_of X m pkts =
     (if length pkts = 0 then NORESPONSE
      else py_join ''+'' (sort (remdups (map (pkt_symbol X m) pkts))))"

definition output_symbol :: "'w env \<Rightarrow> packet list \<Rightarrow> ('w, string) sulM" where
  "output_symbol X pkts = bindM (ensure_symbols X) (\<lambda>m. unitM (symbol_of X m pkts))"

definition filter_symbol :: "string \<Rightarrow> string list \<Rightarrow> string" where
  "filter_symbol symbol filters =
     (let symbol = py_join ''+'' (filter (\<lambda>s. s \<notin> set filters) (py_split CHR ''+'' symbol))
      in if symbol = '''' then NORESPONSE else symbol)"

section \<open>Frame\<close>

text \<open>The table maps to input symbols only.\<close>

lemma build_symbols_ran:
  "build_symbols X ps m = Inr m' \<Longrightarrow> ran m' \<subseteq> ran m \<union> fst ` set ps"
proof (induction X ps m rule: build_symbols.induct)
  case (2 X name r rest m)
  from "2.prems" obtain p where p: "r = Inr p" "build_symbols X rest (m(summary X p \<mapsto> name)) = Inr m'"
    by (auto simp: bindE_eq_Inr)
  have "ran (m(summary X p \<mapsto> name)) \<subseteq> ran m \<union> {name}" by (auto simp: ran_def)
  with "2.IH" [OF p(2)] show ?case by (auto simp del: fun_upd_apply)
qed simp

lemma sul_packet_names: "map fst (sul_packets s c) = packet_names"
  by (simp add: sul_packets_def packet_names_def packets_def)

lemma build_symbols_names:
  "build_symbols X (sul_packets s c) Map.empty = Inr m \<Longrightarrow> ran m \<subseteq> set packet_names"
  using build_symbols_ran [of X "sul_packets s c" Map.empty m] sul_packet_names [of s c]
  by (metis list.set_map ran_empty sup_bot_left)

context mapper_frame begin

lemma keeps_ensure_symbols: "keeps R (ensure_symbols X)"
proof (rule keepsI)
  fix s t
  assume t: "final (ensure_symbols X s) = Some t"
  show "R s t"
  proof (cases "symbols s")
    case (Some m)
    with t show ?thesis by (simp add: ensure_symbols_def step_refl)
  next
    case None
    with t show ?thesis
      using R_symbols [OF None]
      by (auto simp: ensure_symbols_def with_conn_def monad_simps step_refl
          dest: build_symbols_names split: option.splits sum.splits)
  qed
qed

lemma keeps_output_symbol: "keeps R (output_symbol X pkts)"
  unfolding output_symbol_def by (intro comp_rules keeps_ensure_symbols)

end

lemma ensure_symbols_Some [simp]: "symbols s = Some m \<Longrightarrow> ensure_symbols X s = Ret m s"
  by (simp add: ensure_symbols_def)

lemma output_symbol_Some [simp]:
  "symbols s = Some m \<Longrightarrow> output_symbol X pkts s = Ret (symbol_of X m pkts) s"
  by (simp add: output_symbol_def)

lemma ensure_symbols_Ret:
  "ensure_symbols X s = Ret m t \<Longrightarrow>
     symbols t = Some m \<and> (\<forall>m0. symbols s = Some m0 \<longrightarrow> m = m0 \<and> t = s)"
  by (auto simp: ensure_symbols_def with_conn_def monad_simps split: option.splits sum.splits)

section \<open>Canonical form\<close>

lemma sort_remdups_cong: "set xs = set ys \<Longrightarrow> sort (remdups xs) = sort (remdups ys)"
  by (simp add: sorted_list_of_set_sort_remdups [symmetric])

lemma filter_sort_remdups: "filter P (sort (remdups xs)) = sort (remdups (filter P xs))"
  by (simp add: filter_sort remdups_filter)

lemma py_join_Nil_iff: "py_join [c] ws = [] \<longleftrightarrow> ws = [] \<or> ws = [[]]"
  by (cases "([c], ws)" rule: py_join.cases) auto

lemma split_symbol_of:
  assumes "pkts \<noteq> []" and "\<forall>p \<in> set pkts. CHR ''+'' \<notin> set (pkt_symbol X m p)"
  shows "py_split CHR ''+'' (symbol_of X m pkts) = sort (remdups (map (pkt_symbol X m) pkts))"
proof -
  let ?ws = "sort (remdups (map (pkt_symbol X m) pkts))"
  have "?ws \<noteq> []" using assms(1) by (metis list.map_disc_iff set_empty set_remdups set_sort)
  with assms py_split_join [of ?ws "CHR ''+''"] show ?thesis by (simp add: symbol_of_def)
qed

text \<open>C13: Output symbols are canonical: they depend only on which symbols the received packets
  have, not on how many packets there were or in which order they arrived, and two responses
  get the same output symbol exactly when they contain the same symbols (both responses not empty,
  and no symbol with the separator in it).\<close>

theorem output_symbol_canonical:
  assumes "pkts \<noteq> []" and "pkts' \<noteq> []"
    and "\<forall>p \<in> set pkts \<union> set pkts'. CHR ''+'' \<notin> set (pkt_symbol X m p)"
  shows "symbol_of X m pkts = symbol_of X m pkts' \<longleftrightarrow>
         pkt_symbol X m ` set pkts = pkt_symbol X m ` set pkts'"
proof
  assume "symbol_of X m pkts = symbol_of X m pkts'"
  then have "sort (remdups (map (pkt_symbol X m) pkts)) = sort (remdups (map (pkt_symbol X m) pkts'))"
    using split_symbol_of [of pkts X m] split_symbol_of [of pkts' X m] assms by simp
  then have "set (map (pkt_symbol X m) pkts) = set (map (pkt_symbol X m) pkts')"
    by (metis set_remdups set_sort)
  then show "pkt_symbol X m ` set pkts = pkt_symbol X m ` set pkts'" by simp
next
  assume "pkt_symbol X m ` set pkts = pkt_symbol X m ` set pkts'"
  then show "symbol_of X m pkts = symbol_of X m pkts'"
    using assms(1,2) sort_remdups_cong [of "map (pkt_symbol X m) pkts" "map (pkt_symbol X m) pkts'"]
    by (simp add: symbol_of_def)
qed

theorem output_symbol_canonical_witness:
  "symbol_of sim_env Map.empty [[Layer BTLE_DATA []], [Layer BTLE []], [Layer BTLE_DATA []]] =
   symbol_of sim_env Map.empty [[Layer BTLE []], [Layer BTLE_DATA []]]"
  by (subst output_symbol_canonical)
     (auto simp: pkt_symbol_def sim_env_def sim_summary_def sim_name_def)

text \<open>C14: Filtering the output symbol is the same as not having received the filtered packets:
  removing names from the combined symbol gives the symbol of the remaining packets, and
  \<open>NORESPONSE\<close> when none remain. No packet symbol is empty or has the separator in it.\<close>

theorem filter_symbol_drops_packets:
  assumes "\<forall>p \<in> set pkts. CHR ''+'' \<notin> set (pkt_symbol X m p) \<and> pkt_symbol X m p \<noteq> ''''"
  shows "filter_symbol (symbol_of X m pkts) filters =
         symbol_of X m (filter (\<lambda>p. pkt_symbol X m p \<notin> set filters) pkts)"
proof (cases "pkts = []")
  case True
  then show ?thesis
    by (simp add: filter_symbol_def symbol_of_def NORESPONSE_def)
next
  case False
  let ?syms = "map (pkt_symbol X m) pkts"
  let ?keep = "filter (\<lambda>s. s \<notin> set filters) ?syms"
  have split: "py_split CHR ''+'' (symbol_of X m pkts) = sort (remdups ?syms)"
    using split_symbol_of [OF False] assms by blast
  have map: "?keep = map (pkt_symbol X m) (filter (\<lambda>p. pkt_symbol X m p \<notin> set filters) pkts)"
    by (simp add: filter_map comp_def)
  have "[] \<notin> set (sort (remdups ?keep))" using assms by auto
  then have "sort (remdups ?keep) \<noteq> [[]]" by (metis list.set_intros(1))
  moreover have "sort (remdups ?keep) = [] \<longleftrightarrow> ?keep = []"
    by (metis set_empty set_remdups set_sort)
  ultimately have "py_join ''+'' (sort (remdups ?keep)) = [] \<longleftrightarrow> ?keep = []"
    by (simp only: py_join_Nil_iff) simp
  moreover have "filter_symbol (symbol_of X m pkts) filters =
      (let sy = py_join ''+'' (sort (remdups ?keep)) in if sy = '''' then NORESPONSE else sy)"
    by (simp only: filter_symbol_def split filter_sort_remdups)
  moreover have "symbol_of X m (filter (\<lambda>p. pkt_symbol X m p \<notin> set filters) pkts) =
      (if ?keep = [] then NORESPONSE else py_join ''+'' (sort (remdups ?keep)))"
    unfolding map by (simp add: symbol_of_def)
  ultimately show ?thesis by (simp add: Let_def)
qed

theorem filter_symbol_drops_packets_witness:
  "filter_symbol (symbol_of sim_env Map.empty [[Layer BTLE_DATA []], [Layer BTLE []]]) [''BTLE''] =
   ''BTLE_DATA''"
proof -
  have h: "\<forall>p \<in> set [[Layer BTLE_DATA []], [Layer BTLE []]].
      CHR ''+'' \<notin> set (pkt_symbol sim_env Map.empty p) \<and> pkt_symbol sim_env Map.empty p \<noteq> ''''"
    by (simp add: pkt_symbol_def sim_env_def sim_summary_def sim_name_def)
  show ?thesis
    using filter_symbol_drops_packets [OF h, of "[''BTLE'']"]
    by (simp add: pkt_symbol_def sim_env_def sim_summary_def sim_name_def symbol_of_def)
qed

lemma filter_symbol_split:
  "filter_symbol symbol filters = NORESPONSE \<or>
   py_split CHR ''+'' (filter_symbol symbol filters) =
     filter (\<lambda>s. s \<notin> set filters) (py_split CHR ''+'' symbol)"
proof -
  let ?keep = "filter (\<lambda>s. s \<notin> set filters) (py_split CHR ''+'' symbol)"
  show ?thesis
  proof (cases "py_join ''+'' ?keep = []")
    case False
    then have ne: "?keep \<noteq> []" by auto
    have "\<forall>w \<in> set ?keep. CHR ''+'' \<notin> set w" by (auto dest: py_split_no_sep)
    with ne have "py_split CHR ''+'' (py_join ''+'' ?keep) = ?keep" by (rule py_split_join)
    with False show ?thesis by (simp add: filter_symbol_def)
  qed (simp add: filter_symbol_def)
qed

lemma filter_symbol_not_Nil: "filter_symbol symbol filters \<noteq> ''''"
  by (simp add: filter_symbol_def NORESPONSE_def Let_def)

lemma split_NORESPONSE: "py_split CHR ''+'' NORESPONSE = [NORESPONSE]"
  by (simp add: NORESPONSE_def)

text \<open>Filtering is idempotent on any string, never yields the empty string, and what it keeps
  contains none of the filtered names.\<close>

theorem filter_symbol_idem:
  "filter_symbol (filter_symbol symbol filters) filters = filter_symbol symbol filters \<and>
   filter_symbol symbol filters \<noteq> '''' \<and>
   (filter_symbol symbol filters = NORESPONSE \<or>
    set (py_split CHR ''+'' (filter_symbol symbol filters)) =
      set (py_split CHR ''+'' symbol) - set filters)"
  using filter_symbol_split [of symbol filters]
proof
  assume "filter_symbol symbol filters = NORESPONSE"
  moreover have "filter_symbol NORESPONSE filters = NORESPONSE"
    by (simp add: filter_symbol_def NORESPONSE_def)
  ultimately show ?thesis by (simp add: NORESPONSE_def)
next
  let ?out = "filter_symbol symbol filters"
  assume split: "py_split CHR ''+'' ?out = filter (\<lambda>s. s \<notin> set filters) (py_split CHR ''+'' symbol)"
  then have "filter_symbol ?out filters = ?out"
    using py_join_split [of "CHR ''+''" ?out] filter_symbol_not_Nil [of symbol filters]
    by (simp add: filter_symbol_def [of ?out])
  with split show ?thesis by (auto simp: filter_symbol_not_Nil)
qed

end
