(* ===== verification/Link.thy ===== *)
theory Link
  imports Symbols
begin

text \<open>
  The mapper's side of the link: \<open>send\<close> with its link-layer encryption, the decryption half of
  \<open>receive\<close>, \<open>is_target\<close>, \<open>fix_packet\<close>, the hand-over to the security manager
  (\<open>smp_process\<close>), all of py/BLESUL.py. The lemmas show the frame of each
  and what the nonces and the encrypted packets look like.
\<close>

section \<open>Nonces\<close>

text \<open>
  The first five bytes of the packet counter, with the direction in the top bit (set by the
  central for its packets, cleared for the peripheral's), followed by the IV.
\<close>

definition tx_nonce :: "int \<Rightarrow> bytes \<Rightarrow> bytes" where
  "tx_nonce n iv = (let p = take 5 (le_bytes 8 n) in p[4 := p ! 4 OR 0x80] @ iv)"

definition rx_nonce :: "int \<Rightarrow> bytes \<Rightarrow> bytes" where
  "rx_nonce n iv = (let p = take 5 (le_bytes 8 n) in p[4 := p ! 4 AND 0x7F] @ iv)"

section \<open>Sending\<close>

text \<open>The encrypted packet for the built packet \<open>r\<close>: access address and header byte in the clear,
  the payload length grown by the tag, ciphertext, tag, and an empty CRC.\<close>

definition encrypt_pdu :: "'w env \<Rightarrow> conn \<Rightarrow> bytes \<Rightarrow> exn + bytes" where
  "encrypt_pdu X c r =
     (let aa = take 4 r in
      bindE (py_index r 4) (\<lambda>header.
      bindE (py_index r 5) (\<lambda>l.
      bindE (one_byte (uint l + 4)) (\<lambda>len.
      bindE (struct_pack_le 8 (enc_tx_pkt_count c)) (\<lambda>_.
      bindE (ccm_encrypt X (conn_session_key c) (tx_nonce (enc_tx_pkt_count c) (conn_iv c))
               [header AND 0xE3] (slice_neg r 6 3)) (\<lambda>(enc_pkt, mic).
      Inr (aa @ [header] @ [len] @ enc_pkt @ mic @ [0, 0, 0])))))))"

definition send :: "'w env \<Rightarrow> packet \<Rightarrow> ('w, unit) sulM" where
  "send X pkt =
     with_conn (\<lambda>c.
       if encrypted c \<and> haslayer BTLE_DATA pkt
       then bindM (liftE (raw X pkt)) (\<lambda>r.
            bindM (liftE (encrypt_pdu X c r)) (\<lambda>pkt_send.
            thenM (upd_conn (enc_tx_pkt_count_update (\<lambda>n. n + 1)))
            (thenM (raw_send X pkt_send) (unitM ()))))
       else send_nrf X pkt)"

section \<open>Receiving one packet\<close>

text \<open>
  The decryption of a received packet \<open>r\<close> while encryption is on: \<open>None\<close> for a packet without
  payload, which is left as it is; otherwise the decrypted bytes and whether the tag was right.
\<close>

definition decrypt_pdu :: "'w env \<Rightarrow> conn \<Rightarrow> bytes \<Rightarrow> exn + (bytes \<times> bool) option" where
  "decrypt_pdu X c r =
     (let aa = take 4 r in
      bindE (py_index r 4) (\<lambda>header.
      bindE (py_index r 5) (\<lambda>l.
      if \<not> uint l \<ge> 5 then Inr None
      else
        let len = uint l - 4;
            nonce = rx_nonce (enc_rx_pkt_count c) (conn_iv c);
            ad = [header AND 0xE3];
            ct = slice_neg r 6 (4 + 3);
            mic = slice_neg r (nat (6 + len)) 3
        in bindE (struct_pack_le 8 (enc_rx_pkt_count c)) (\<lambda>_.
           bindE (ccm_decrypt X (conn_session_key c) nonce ad ct) (\<lambda>dec_pkt.
           Inr (Some (aa @ [header] @ [word_of_int len] @ dec_pkt @ [0, 0, 0],
                      ccm_verify X (conn_session_key c) nonce ad ct mic)))))))"

definition is_target :: "'w sul \<Rightarrow> conn \<Rightarrow> packet \<Rightarrow> exn + bool" where
  "is_target s c pkt =
     (if haslayer BTLE_ADV pkt \<and>
         (case Option.bind (lookup_field ''AdvA'' pkt) val_upper of
            None \<Rightarrow> False
          | Some u \<Rightarrow> VStr (py_upper (peripheral_address s)) \<noteq> u)
      then Inr False
      else if haslayer BTLE_DATA pkt
      then bindE (getattr pkt ''access_addr'') (\<lambda>a. Inr (VInt (access_address c) = a))
      else Inr True)"

definition fix_packet :: "packet \<Rightarrow> exn + packet" where
  "fix_packet pkt =
     (if haslayer BTLE_CTRL pkt
      then bindE (getattr pkt ''opcode'') (\<lambda>opcode.
        if opcode = VInt 0x05 \<and> \<not> haslayer LL_START_ENC_REQ pkt
        then Inr (pkt @ [Layer LL_START_ENC_REQ []])
        else if opcode = VInt 0x06 \<and> \<not> haslayer LL_START_ENC_RSP pkt
        then Inr (pkt @ [Layer LL_START_ENC_RSP []])
        else if opcode = VInt 0x0b \<and> \<not> haslayer LL_PAUSE_ENC_RSP pkt
        then Inr (pkt @ [Layer LL_PAUSE_ENC_RSP []])
        else Inr pkt)
      else Inr pkt)"

section \<open>The security manager\<close>

text \<open>The session key: the block cipher, with key and data in big-endian order.\<close>

definition bt_crypto_e :: "'w env \<Rightarrow> bytes \<Rightarrow> bytes \<Rightarrow> exn + bytes" where
  "bt_crypto_e X key plaintext = aes_ecb X key plaintext"

definition store_attr ::
  "packet \<Rightarrow> string \<Rightarrow> ((val \<Rightarrow> val) \<Rightarrow> conn \<Rightarrow> conn) \<Rightarrow> ('w, unit) sulM" where
  "store_attr res f upd = bindM (liftE (getattr res f)) (\<lambda>v. upd_conn (upd (\<lambda>_. v)))"

text \<open>One answer of the SMP server; the first layer that matches decides.\<close>

definition smp_answer :: "packet \<Rightarrow> ('w, unit) sulM" where
  "smp_answer res =
     (if haslayer SM_Confirm res then store_attr res ''confirm'' confirm_update
      else if haslayer SM_Random res then store_attr res ''random'' random_value_update
      else if haslayer HCI_Cmd_LE_Enable_Encryption res then store_attr res ''ltk'' conn_ltk_update
      else if haslayer SM_Encryption_Information res
      then store_attr res ''ltk'' conn_ltk_enc_inf_update
      else if haslayer SM_Master_Identification res
      then thenM (store_attr res ''ediv'' ediv_update) (store_attr res ''rand'' rand_update)
      else if haslayer SM_Identity_Information res then store_attr res ''irk'' irk_update
      else if haslayer SM_Identity_Address_Information res
      then store_attr res ''atype'' atype_update
      else if haslayer SM_Signing_Information res then store_attr res ''csrk'' csrk_update
      else if haslayer SM_Public_Key res
      then thenM (store_attr res ''key_x'' key_x_update) (store_attr res ''key_y'' key_y_update)
      else if haslayer SM_DHKey_Check res
      then store_attr res ''dhkey_check'' dhkey_check_update
      else unitM ())"

definition smp_process :: "'w env \<Rightarrow> packet \<Rightarrow> ('w, unit) sulM" where
  "smp_process X pkt =
     bindM (liftE (from_layer pkt SM_Hdr)) (\<lambda>sm.
     bindM (liftE (raw X ([Layer HCI_Hdr [], Layer HCI_ACL_Hdr [], Layer L2CAP_Hdr []] @ sm)))
       (\<lambda>raw_pkt.
     bindM (outM (smp_send_hci X raw_pkt)) (\<lambda>smp_answers.
       case smp_answers of
         None \<Rightarrow> unitM ()
       | Some rs \<Rightarrow> forM rs (\<lambda>res. smp_answer (hci_dissect X res)))))"

section \<open>Frames\<close>

lemma conn_step_refl_updates:
  "conn_step spk c (enc_tx_pkt_count_update g c)" "conn_step spk c (enc_rx_pkt_count_update g c)"
  "conn_step spk c (c\<lparr>encrypted := False\<rparr>)"
  "conn_step spk c (c\<lparr>enc_tx_pkt_count := i, enc_rx_pkt_count := j\<rparr>)"
  by (simp_all add: conn_step_def smp_data_def)

context mapper_frame begin

lemma keeps_send: "keeps R (send X pkt)"
  unfolding send_def
  by (intro mapper_rules conn_step_refl_updates)

lemma keeps_store_attr:
  "(\<And>v c. conn_step (smp_speaks X) c (upd (\<lambda>_. v) c)) \<Longrightarrow> keeps R (store_attr res f upd)"
  unfolding store_attr_def by (intro mapper_rules) simp

lemma keeps_smp_answer: "smp_speaks X \<Longrightarrow> keeps R (smp_answer res)"
  unfolding smp_answer_def
  by (intro mapper_rules keeps_store_attr) (simp_all add: conn_step_def)

lemma keeps_smp_process: "keeps R (smp_process X pkt)"
proof -
  let ?store = "\<lambda>a. case a of None \<Rightarrow> unitM () | Some rs \<Rightarrow>
      forM rs (\<lambda>res. smp_answer (hci_dissect X res))"
  have "keeps R (bindM (outM (smp_send_hci X bs)) ?store)" for bs
  proof (cases "smp_speaks X")
    case True
    then have "keeps R (?store a)" for a
      by (cases a) (auto intro!: mapper_rules keeps_smp_answer)
    then show ?thesis by (intro mapper_rules)
  next
    case False
    have "a = None \<or> a = Some []" if "outM (smp_send_hci X bs) s = Ret a t" for a s t
      using that False by (cases a) (auto simp: outM_eq_Ret smp_speaks_def)
    then have "bindM (outM (smp_send_hci X bs)) ?store s = bindM (outM (smp_send_hci X bs)) (\<lambda>_. unitM ()) s" for s
      by (cases "outM (smp_send_hci X bs) s") (fastforce simp: bindM_def)+
    then have "bindM (outM (smp_send_hci X bs)) ?store = bindM (outM (smp_send_hci X bs)) (\<lambda>_. unitM ())"
      by (rule ext)
    then show ?thesis by (simp only:) (intro mapper_rules)
  qed
  from keeps_bindM [OF keeps_liftE keeps_bindM [OF keeps_liftE this]] show ?thesis
    unfolding smp_process_def .
qed

lemmas keeps_reset_device = R_device

end

section \<open>Facts about nonces\<close>

lemma le_bytes_5: "take 5 (le_bytes 8 n) = le_bytes 4 n @ [word_of_int (n div 2 ^ 32)]"
proof -
  have "n div 256 div 256 div 256 div 256 = n div 2 ^ 32"
    by (simp add: zdiv_zmult2_eq [symmetric])
  then show ?thesis by (simp add: numeral_eq_Suc)
qed

lemma tx_nonce_eq: "tx_nonce n iv = le_bytes 4 n @ [word_of_int (n div 2 ^ 32) OR 0x80] @ iv"
  by (simp add: tx_nonce_def Let_def le_bytes_5 list_update_append nth_append)

lemma rx_nonce_eq: "rx_nonce n iv = le_bytes 4 n @ [word_of_int (n div 2 ^ 32) AND 0x7F] @ iv"
  by (simp add: rx_nonce_def Let_def le_bytes_5 list_update_append nth_append)

lemma length_nonces [simp]:
  "length (tx_nonce n iv) = 5 + length iv" "length (rx_nonce n iv) = 5 + length iv"
  by (simp_all add: tx_nonce_eq rx_nonce_eq)

lemma bit_80: "bit (0x80 :: byte) i \<longleftrightarrow> i = 7"
proof -
  have "(0x80 :: byte) = push_bit 7 1" by simp
  then show ?thesis by (simp only: bit_push_bit_iff bit_1_iff) (auto simp: bit_imp_le_length)
qed

lemma bit_7F: "bit (0x7F :: byte) i \<longleftrightarrow> i < 7"
proof -
  have "(0x7F :: byte) = mask 7" by (simp add: mask_eq_exp_minus_1)
  then show ?thesis by (simp only: bit_mask_iff) auto
qed

lemma or_80_ne_and_7F: "(a :: byte) OR 0x80 \<noteq> b AND 0x7F"
proof
  assume "a OR 0x80 = b AND 0x7F"
  then have "bit (a OR 0x80) 7 = bit (b AND 0x7F) 7" by simp
  then show False by (simp only: bit_or_iff bit_and_iff bit_80 bit_7F) simp
qed

lemma low_bits_or: "(a :: byte) OR 0x80 = b OR 0x80 \<longleftrightarrow> take_bit 7 a = take_bit 7 b"
proof
  assume "a OR 0x80 = b OR 0x80"
  then have "bit (a OR 0x80) i = bit (b OR 0x80) i" for i by simp
  then have "bit a i \<or> i = 7 \<longleftrightarrow> bit b i \<or> i = 7" for i
    by (simp only: bit_or_iff bit_80)
  then have "i \<noteq> 7 \<Longrightarrow> bit a i = bit b i" for i by blast
  then show "take_bit 7 a = take_bit 7 b"
    by (intro bit_eqI) (auto simp: bit_take_bit_iff)
next
  assume "take_bit 7 a = take_bit 7 b"
  then have "bit (take_bit 7 a) i = bit (take_bit 7 b) i" for i by simp
  then have "i < 7 \<and> bit a i \<longleftrightarrow> i < 7 \<and> bit b i" for i
    by (simp only: bit_take_bit_iff)
  then have "i < 7 \<Longrightarrow> bit a i = bit b i" for i by blast
  then have "bit a i \<or> i = 7 \<longleftrightarrow> bit b i \<or> i = 7" if "i < 8" for i
    using that by (cases "i = 7") auto
  then have "bit (a OR 0x80) i = bit (b OR 0x80) i" if "i < 8" for i
    using that by (simp only: bit_or_iff bit_80)
  then show "a OR 0x80 = b OR 0x80" by (intro bit_word_eqI) simp
qed

lemma low_bits_and: "(a :: byte) AND 0x7F = b AND 0x7F \<longleftrightarrow> take_bit 7 a = take_bit 7 b"
proof -
  have "c AND 0x7F = take_bit 7 c" for c :: byte
    by (rule bit_eqI) (simp only: bit_and_iff bit_7F bit_take_bit_iff, blast)
  then show ?thesis by simp
qed

lemma take_bit_7_word:
  "take_bit 7 (word_of_int a :: byte) = take_bit 7 (word_of_int b) \<longleftrightarrow> a mod 128 = b mod 128"
proof -
  have "uint (take_bit 7 (word_of_int v :: byte)) = take_bit 7 v" for v
    by (simp only: unsigned_take_bit_eq uint_word_of_int_eq) simp
  then show ?thesis by (simp only: word_uint_eq_iff) (simp add: take_bit_eq_mod)
qed

lemma mod_2_39_iff:
  "(a :: int) mod 2 ^ 39 = b mod 2 ^ 39 \<longleftrightarrow>
     a mod 2 ^ 32 = b mod 2 ^ 32 \<and> a div 2 ^ 32 mod 128 = b div 2 ^ 32 mod 128"
proof -
  have split: "v mod 2 ^ 39 = 2 ^ 32 * (v div 2 ^ 32 mod 128) + v mod 2 ^ 32" for v :: int
    using zmod_zmult2_eq [of 128 v "2 ^ 32"] by simp
  show ?thesis
  proof
    assume eq: "a mod 2 ^ 39 = b mod 2 ^ 39"
    then have "a mod 2 ^ 39 mod 2 ^ 32 = b mod 2 ^ 39 mod 2 ^ 32" by simp
    then have low: "a mod 2 ^ 32 = b mod 2 ^ 32"
      by (simp add: mod_mod_cancel)
    with eq split [of a] split [of b] show "a mod 2 ^ 32 = b mod 2 ^ 32 \<and>
        a div 2 ^ 32 mod 128 = b div 2 ^ 32 mod 128" by simp
  qed (simp only: split)
qed

text \<open>C10: Nonces do not repeat. A nonce the mapper encrypts with is never one it decrypts with,
  whatever the counters and IVs; and within one direction and one IV two counters give the same
  nonce only if they agree modulo 2^39, the width the counter field leaves beside the direction
  bit.\<close>

theorem nonces_distinct:
  "length iv = length iv' \<Longrightarrow>
   tx_nonce n iv \<noteq> rx_nonce k iv' \<and>
   (tx_nonce n iv = tx_nonce k iv' \<longleftrightarrow> n mod 2 ^ 39 = k mod 2 ^ 39 \<and> iv = iv') \<and>
   (rx_nonce n iv = rx_nonce k iv' \<longleftrightarrow> n mod 2 ^ 39 = k mod 2 ^ 39 \<and> iv = iv')"
  by (auto simp: tx_nonce_eq rx_nonce_eq or_80_ne_and_7F low_bits_or low_bits_and take_bit_7_word
      le_bytes_eq_iff mod_2_39_iff [simplified])

theorem nonces_distinct_witness:
  "tx_nonce 5 (zeros 8) \<noteq> rx_nonce 5 (zeros 8) \<and> tx_nonce 5 (zeros 8) \<noteq> tx_nonce 6 (zeros 8)"
  using nonces_distinct [of "zeros 8" "zeros 8" 5 5] nonces_distinct [of "zeros 8" "zeros 8" 5 6]
  by simp

section \<open>Encrypted packets\<close>

text \<open>A packet of the link layer: access address, header byte, length, payload, CRC.\<close>

definition ll_pdu :: "bytes \<Rightarrow> byte \<Rightarrow> bytes \<Rightarrow> bytes \<Rightarrow> bytes" where
  "ll_pdu aa h pl crc = aa @ [h, of_nat (length pl)] @ pl @ crc"

lemma uint_of_nat_small: "n < 256 \<Longrightarrow> uint (of_nat n :: byte) = int n"
  by (simp add: uint_nat unat_of_nat)

lemma ll_pdu_parts:
  assumes "length aa = 4" "length crc = 3"
  shows "take 4 (ll_pdu aa h pl crc) = aa" "py_index (ll_pdu aa h pl crc) 4 = Inr h"
    "py_index (ll_pdu aa h pl crc) 5 = Inr (of_nat (length pl))"
    "slice_neg (ll_pdu aa h pl crc) 6 3 = pl" "length (ll_pdu aa h pl crc) = 9 + length pl"
proof -
  have "slice_neg ((aa @ [h, of_nat (length pl)]) @ pl @ crc) 6 3 = pl"
    by (rule slice_neg_append) (simp_all add: assms)
  then show "slice_neg (ll_pdu aa h pl crc) 6 3 = pl" by (simp add: ll_pdu_def)
qed (use assms in \<open>auto simp: ll_pdu_def py_index_def nth_append\<close>)

lemma encrypt_pdu_ll:
  assumes "length aa = 4" "length crc = 3" "length pl < 256"
    and "0 \<le> enc_tx_pkt_count c" "enc_tx_pkt_count c < 256 ^ 8"
  shows "encrypt_pdu X c (ll_pdu aa h pl crc) =
     (if length pl \<le> 251
      then bindE (ccm_encrypt X (conn_session_key c) (tx_nonce (enc_tx_pkt_count c) (conn_iv c))
                    [h AND 0xE3] pl) (\<lambda>(ct, mic).
             Inr (aa @ [h, of_nat (length pl + 4)] @ ct @ mic @ [0, 0, 0]))
      else Inl ValueError)"
  using assms uint_of_nat_small [OF assms(3)]
  by (simp add: encrypt_pdu_def Let_def ll_pdu_parts one_byte_def struct_pack_le_def)

text \<open>C28: While encryption is on, sending a data-channel packet puts exactly one frame on the
  serial line: the packet with its access address and header byte unchanged, its length
  grown by the 4-byte tag, and its payload encrypted under the session key, the central's nonce
  for the current counter, and the masked header byte as associated data. The counter moves on
  by one and nothing else of the mapper changes.\<close>

theorem send_encrypted:
  assumes "connection s = Some c" and "encrypted c" and "haslayer BTLE_DATA p"
    and "raw X p = Inr (ll_pdu aa h pl crc)" and "length aa = 4" and "length crc = 3"
    and "length pl \<le> 251" and "0 \<le> enc_tx_pkt_count c" and "enc_tx_pkt_count c < 256 ^ 8"
    and "ccm_encrypt X (conn_session_key c) (tx_nonce (enc_tx_pkt_count c) (conn_iv c))
           [h AND 0xE3] pl = Inr (ct, mic)"
    and "ser_write X (tx_frame (aa @ [h, of_nat (length pl + 4)] @ ct @ mic @ [0, 0, 0]))
           (outside s) = Ret () w"
  shows "send X p s = Ret ()
     (s\<lparr>outside := w, connection := Some (c\<lparr>enc_tx_pkt_count := enc_tx_pkt_count c + 1\<rparr>)\<rparr>)"
proof -
  have "encrypt_pdu X c (ll_pdu aa h pl crc) =
      Inr (aa @ [h, of_nat (length pl + 4)] @ ct @ mic @ [0, 0, 0])"
    using encrypt_pdu_ll [of aa crc pl c X h] assms by simp
  with assms show ?thesis
    by (simp add: send_def with_conn_def monad_simps upd_conn_def raw_send_def outM_def)
qed

theorem send_encrypted_witness:
  "\<exists>t. send sim_env [Layer BTLE [(''access_addr'', VInt 7)], Layer BTLE_DATA [],
                     Layer RawLayer [(''load'', VBytes [1, 2])]] (sim_sul sim0 sim_conn) = Ret () t \<and>
       connection t = Some (sim_conn\<lparr>enc_tx_pkt_count := 1\<rparr>)"
proof -
  let ?p = "[Layer BTLE [(''access_addr'', VInt 7)], Layer BTLE_DATA [],
             Layer RawLayer [(''load'', VBytes [1, 2])]]"
  have raw: "raw sim_env ?p = Inr (ll_pdu (le_bytes 4 7) 1 [1, 2] [0, 0, 0])"
    by (simp add: sim_env_def sim_raw_def ll_pdu_def)
  obtain ct mic where enc: "ccm_encrypt sim_env (zeros 16) (tx_nonce 0 (zeros 8)) [1 AND 0xE3] [1, 2]
      = Inr (ct, mic)"
    by (simp add: sim_env_def Let_def)
  let ?e = "tx_frame (le_bytes 4 7 @ [1, of_nat (length [1 :: byte, 2] + 4)] @ ct @ mic @ [0, 0, 0])"
  have wr: "ser_write sim_env ?e sim0 = Ret () (sim0\<lparr>sim_tx := [?e]\<rparr>)"
    by (simp add: sim_env_def sim0_def)
  show ?thesis
    using send_encrypted [of "sim_sul sim0 sim_conn" sim_conn ?p sim_env "le_bytes 4 7" 1 "[1, 2]"
        "[0, 0, 0]" ct mic] raw enc wr by simp
qed

text \<open>A data-channel packet whose payload has no room for the tag (more than 251 bytes) is not
  sent while encryption is on: \<open>send\<close> raises \<open>ValueError\<close> with nothing written and no
  counter moved.\<close>

theorem send_encrypted_too_long:
  assumes "connection s = Some c" and "encrypted c" and "haslayer BTLE_DATA p"
    and "raw X p = Inr (ll_pdu aa h pl crc)" and "length aa = 4" and "length crc = 3"
    and "251 < length pl" and "length pl < 256"
    and "0 \<le> enc_tx_pkt_count c" and "enc_tx_pkt_count c < 256 ^ 8"
  shows "send X p s = Raise ValueError s"
proof -
  have "encrypt_pdu X c (ll_pdu aa h pl crc) = Inl ValueError"
    using encrypt_pdu_ll [of aa crc pl c X h] assms by simp
  with assms show ?thesis by (simp add: send_def with_conn_def monad_simps)
qed

theorem send_encrypted_too_long_witness:
  "send sim_env [Layer BTLE [(''access_addr'', VInt 7)], Layer BTLE_DATA [],
                 Layer RawLayer [(''load'', VBytes (zeros 252))]] (sim_sul sim0 sim_conn) =
   Raise ValueError (sim_sul sim0 sim_conn)"
proof -
  let ?p = "[Layer BTLE [(''access_addr'', VInt 7)], Layer BTLE_DATA [],
             Layer RawLayer [(''load'', VBytes (zeros 252))]]"
  have raw: "raw sim_env ?p = Inr (ll_pdu (le_bytes 4 7) 1 (zeros 252) [0, 0, 0])"
    by (simp add: sim_env_def sim_raw_def ll_pdu_def Let_def)
  show ?thesis
    using send_encrypted_too_long [of "sim_sul sim0 sim_conn" sim_conn ?p sim_env "le_bytes 4 7" 1
        "zeros 252" "[0, 0, 0]"] raw by (simp add: zeros_def)
qed

text \<open>Advertising-channel packets, and every packet while encryption is off, go out in the
  clear: the frame carries the packet as scapy builds it, and neither keys nor counters change.\<close>

theorem send_clear:
  assumes "connection s = Some c" and "\<not> (encrypted c \<and> haslayer BTLE_DATA p)"
    and "raw X p = Inr r" and "ser_write X (tx_frame r) (outside s) = Ret () w"
    and "\<not> logs_pcap s"
  shows "send X p s = Ret () (s\<lparr>outside := w\<rparr>)"
  using assms
  by (auto simp: send_def with_conn_def send_nrf_def monad_simps raw_send_def outM_def)

theorem send_clear_witness:
  "\<exists>w. send sim_env [Layer BTLE [], Layer BTLE_ADV []] (sim_sul sim0 sim_conn) =
       Ret () ((sim_sul sim0 sim_conn)\<lparr>outside := w\<rparr>)"
proof -
  obtain r where raw: "raw sim_env [Layer BTLE [], Layer BTLE_ADV []] = Inr r"
    by (simp add: sim_env_def sim_raw_def)
  have wr: "ser_write sim_env (tx_frame r) sim0 = Ret () (sim0\<lparr>sim_tx := [tx_frame r]\<rparr>)"
    by (simp add: sim_env_def sim0_def)
  show ?thesis
    using send_clear [of "sim_sul sim0 sim_conn" sim_conn "[Layer BTLE [], Layer BTLE_ADV []]" sim_env r]
      raw wr by auto
qed

text \<open>Decryption undoes the peripheral's encryption, given that the cipher is AES-CCM.\<close>

lemma decrypt_pdu_peer:
  assumes "ccm_ok X" and "length aa = 4" and "length crc = 3"
    and "1 \<le> length pl" and "length pl \<le> 251"
    and "0 \<le> enc_rx_pkt_count c" and "enc_rx_pkt_count c < 256 ^ 8"
    and "ccm_encrypt X (conn_session_key c) (rx_nonce (enc_rx_pkt_count c) (conn_iv c))
           [h AND 0xE3] pl = Inr (ct, mic)"
  shows "decrypt_pdu X c (ll_pdu aa h (ct @ mic) crc) = Inr (Some (ll_pdu aa h pl [0, 0, 0], True))"
proof -
  let ?r = "ll_pdu aa h (ct @ mic) crc"
  have ccm: "length ct = length pl" "length mic = 4"
      "ccm_decrypt X (conn_session_key c) (rx_nonce (enc_rx_pkt_count c) (conn_iv c)) [h AND 0xE3] ct = Inr pl"
      "ccm_verify X (conn_session_key c) (rx_nonce (enc_rx_pkt_count c) (conn_iv c)) [h AND 0xE3] ct mic"
    using assms(1,8) unfolding ccm_ok_def by blast+
  have l: "uint (of_nat (length (ct @ mic)) :: byte) = int (length pl) + 4"
    using ccm assms(5) by (subst uint_of_nat_small) auto
  have "slice_neg ((aa @ [h, of_nat (length (ct @ mic))]) @ ct @ (mic @ crc)) 6 (4 + 3) = ct"
    by (rule slice_neg_append) (simp_all add: assms ccm)
  then have ct: "slice_neg ?r 6 (4 + 3) = ct" by (simp add: ll_pdu_def)
  have "slice_neg ((aa @ [h, of_nat (length (ct @ mic))] @ ct) @ mic @ crc) (6 + length pl) 3 = mic"
    by (rule slice_neg_append) (simp_all add: assms ccm)
  then have mic: "slice_neg ?r (6 + length pl) 3 = mic" by (simp add: ll_pdu_def)
  have [simp]: "nat (6 + int (length pl)) = 6 + length pl" by simp
  show ?thesis
    using assms ccm l ct mic ll_pdu_parts [OF assms(2,3), of h "ct @ mic"]
    by (simp add: decrypt_pdu_def Let_def struct_pack_le_def) (simp add: ll_pdu_def)
qed

end
