(* ===== verification/Receive.thy ===== *)
theory Receive
  imports Link
begin

text \<open>
  Receiving a response: the heuristic that decides when a response is complete
  (\<open>is_rsp_complete\<close>, which two mappers override) and the receive loop of py/BLESUL.py that
  polls the dongle, decrypts, repairs and records packets until the heuristic stops it.
  The loop's termination rests on one contract of the heuristic, the locale \<open>timed_stop\<close>.
\<close>

section \<open>When a response is complete\<close>

definition cyclic_layers :: "lname list" where
  "cyclic_layers =
     [BTLE_ADV, BTLE_ADV_IND, BTLE_ADV_NONCONN_IND, BTLE_ADV_DIRECT_IND, BTLE_DATA]"

text \<open>\<open>n_add_expect.get(symbol, max(0, n_rsp_expected - 1))\<close>; the subtraction stops at 0.\<close>

definition next_expected :: "string \<Rightarrow> nat \<Rightarrow> nat" where
  "next_expected symbol n =
     (if symbol = ''LL_CTRL_ENC_RSP'' then 1
      else if symbol = ''LL_CTRL_START_ENC_RSP'' then 3
      else n - 1)"

text \<open>The loop over the packets: how many responses are still expected, and how many cyclic packets
  ended the sequence.\<close>

definition count_packet :: "'w env \<Rightarrow> packet \<Rightarrow> nat \<times> nat \<Rightarrow> ('w, nat \<times> nat) sulM" where
  "count_packet X pkt = (\<lambda>(n_rsp_expected, n_cyclic_seen).
     bindM (liftE (py_last (map lname pkt))) (\<lambda>top.
       if top \<in> set cyclic_layers then unitM (n_rsp_expected, n_cyclic_seen + 1)
       else bindM (output_symbol X [pkt]) (\<lambda>symbol.
              unitM (next_expected symbol n_rsp_expected, 0))))"

definition seems_complete :: "nat \<times> nat \<Rightarrow> bool" where
  "seems_complete = (\<lambda>(n_rsp_expected, n_cyclic_seen).
     n_rsp_expected = 0 \<and> n_cyclic_seen \<ge> 5 \<or> n_cyclic_seen \<ge> 10)"

text \<open>The limits: the arguments where given, else the attributes; never a maximum below the minimum.\<close>

definition min_limit :: "'w sul \<Rightarrow> rat option \<Rightarrow> rat" where
  "min_limit s smin = (case smin of None \<Rightarrow> recv_s_min s | Some v \<Rightarrow> v)"

definition max_limit :: "'w sul \<Rightarrow> rat option \<Rightarrow> rat option \<Rightarrow> rat" where
  "max_limit s smin smax =
     (let mn = min_limit s smin; mx = (case smax of None \<Rightarrow> recv_s_max s | Some v \<Rightarrow> v)
      in if mx < mn then mn else mx)"

definition is_rsp_complete ::
  "'w env \<Rightarrow> packet list \<Rightarrow> rat \<Rightarrow> rat option \<Rightarrow> rat option \<Rightarrow> packet option \<Rightarrow> ('w, bool) sulM"
where
  "is_rsp_complete X pkts recv_s_time smin smax req =
     bindM (foldM pkts (count_packet X) (1, 0)) (\<lambda>counts.
       getM (\<lambda>s. recv_s_time \<ge> max_limit s smin smax \<or>
                 recv_s_time \<ge> min_limit s smin \<and> seems_complete counts))"

text \<open>The override of py/BLESUL_NimBLE.py.\<close>

definition is_rsp_complete_NimBLE ::
  "'w env \<Rightarrow> packet list \<Rightarrow> rat \<Rightarrow> rat option \<Rightarrow> rat option \<Rightarrow> packet option \<Rightarrow> ('w, bool) sulM"
where
  "is_rsp_complete_NimBLE X pkts recv_s_time smin smax req =
     (if (case req of None \<Rightarrow> False | Some p \<Rightarrow> haslayer BTLE_CONNECT_REQ p)
      then is_rsp_complete X pkts recv_s_time smin (Some (1 / 2)) None
      else bindM (getM (\<lambda>s. min_limit s smin)) (\<lambda>mn.
        if recv_s_time \<ge> mn \<and> length pkts = 0 then unitM True
        else if list_ex (haslayer BTLE_ADV_IND) pkts \<and> list_ex (haslayer BTLE_SCAN_RSP) pkts
        then unitM True
        else is_rsp_complete X pkts recv_s_time (Some mn) smax None))"

text \<open>The override of py/BLESUL\_nRF52840DKNimBLE.py.\<close>

definition is_rsp_complete_DKNimBLE ::
  "'w env \<Rightarrow> packet list \<Rightarrow> rat \<Rightarrow> rat option \<Rightarrow> rat option \<Rightarrow> packet option \<Rightarrow> ('w, bool) sulM"
where
  "is_rsp_complete_DKNimBLE X pkts recv_s_time smin smax req =
     (if (case req of None \<Rightarrow> False | Some p \<Rightarrow> haslayer BTLE_CONNECT_REQ p)
      then is_rsp_complete X pkts recv_s_time smin (Some 2) None
      else bindM (getM (\<lambda>s. min_limit s smin)) (\<lambda>mn.
        if recv_s_time \<ge> mn \<and> length pkts = 0 then unitM True
        else is_rsp_complete X pkts recv_s_time (Some mn) smax None))"

section \<open>The receive loop\<close>

text \<open>
  The two methods of a mapper class the loop calls and subclasses override; a class without
  \<open>handle_packet\<close> has \<open>None\<close> there (\<open>hasattr(self, 'handle_packet')\<close>).
\<close>

record 'w hooks =
  rsp_complete ::
    "packet list \<Rightarrow> rat \<Rightarrow> rat option \<Rightarrow> rat option \<Rightarrow> packet option \<Rightarrow> ('w, bool) sulM"
  handle_packet :: "(packet \<Rightarrow> ('w, packet option) sulM) option"

text \<open>The decryption step: the packet to go on with, its bytes, and whether it is broken.\<close>

definition decrypt_step ::
  "'w env \<Rightarrow> packet \<Rightarrow> ('w, packet \<times> bool) sulM"
where
  "decrypt_step X pkt =
     with_conn (\<lambda>c.
       if encrypted c
       then bindM (liftE (raw X pkt)) (\<lambda>raw_pkt.
            bindM (liftE (decrypt_pdu X c raw_pkt)) (\<lambda>r. case r of
              None \<Rightarrow> unitM (pkt, False)
            | Some (data, ok) \<Rightarrow>
                thenM (upd_conn (enc_rx_pkt_count_update (\<lambda>n. n + 1)))
                      (unitM (btle_dissect X data, \<not> ok))))
       else unitM (pkt, False))"

text \<open>What is done with a packet that was accepted; the result is the new start time, if the packet
  was answered.\<close>

definition process_packet ::
  "'w env \<Rightarrow> 'w hooks \<Rightarrow> nat \<Rightarrow> packet \<Rightarrow> ('w, rat option) sulM"
where
  "process_packet X H fuel pkt =
     thenM (whenM (py_contains ''Raw'' (summary X pkt)) (reset_device X fuel))
     (thenM (whenM (haslayer SM_Hdr pkt) (smp_process X pkt))
     (case handle_packet H of
        None \<Rightarrow> unitM None
      | Some handle \<Rightarrow> bindM (handle pkt) (\<lambda>res. case res of
          None \<Rightarrow> unitM None
        | Some res_pkt \<Rightarrow>
            thenM (send X res_pkt) (bindM (outM (time_time X)) (\<lambda>t. unitM (Some t))))))"

text \<open>The part of the loop body between the poll and the test: from the received bytes to the new
  list of packets and the new start time.\<close>

definition receive_body ::
  "'w env \<Rightarrow> 'w hooks \<Rightarrow> nat \<Rightarrow> bytes \<Rightarrow> packet list \<Rightarrow> rat \<Rightarrow> ('w, packet list \<times> rat) sulM"
where
  "receive_body X H fuel data pkts time_start =
     (let pkt = btle_dissect X data in
      bindM (with_conn (\<lambda>c. bindM (getM (\<lambda>s. is_target s c pkt)) liftE)) (\<lambda>target.
        if \<not> target then unitM (pkts, time_start)
        else
          thenM (whenM (haslayer BTLE_ADV pkt) (upd_conn (encrypted_update (\<lambda>_. False))))
          (bindM (decrypt_step X pkt) (\<lambda>(pkt1, is_broken).
             if is_broken then unitM (pkts, time_start)
             else bindM (liftE (fix_packet pkt1)) (\<lambda>pkt2.
                  bindM (process_packet X H fuel pkt2) (\<lambda>t.
                    unitM (pkts @ [pkt2], case t of None \<Rightarrow> time_start | Some v \<Rightarrow> v))))))) "

text \<open>One turn of the loop, and the loop; the fuel bounds the turns (and inner loops).\<close>

definition receive_turn ::
  "'w env \<Rightarrow> 'w hooks \<Rightarrow> nat \<Rightarrow> packet list \<Rightarrow> rat \<Rightarrow> ('w, packet list \<times> rat) sulM"
where
  "receive_turn X H fuel pkts time_start =
     thenM (outM (time_sleep X (1 / 100)))
     (bindM (raw_receive X) (\<lambda>data. case data of
        None \<Rightarrow> unitM (pkts, time_start)
      | Some bs \<Rightarrow> receive_body X H fuel bs pkts time_start))"

fun receive_loop ::
  "'w env \<Rightarrow> 'w hooks \<Rightarrow> nat \<Rightarrow> rat option \<Rightarrow> rat option \<Rightarrow> nat \<Rightarrow> packet option \<Rightarrow>
   nat \<Rightarrow> packet list \<Rightarrow> rat \<Rightarrow> ('w, packet list) sulM"
where
  "receive_loop X H fuel smin smax max_pkts req 0 pkts time_start = (\<lambda>s. NoRet)"
| "receive_loop X H fuel smin smax max_pkts req (Suc n) pkts time_start =
     bindM (receive_turn X H fuel pkts time_start) (\<lambda>(pkts', time_start').
     bindM (outM (time_time X)) (\<lambda>time_now.
     bindM (rsp_complete H pkts' (time_now - time_start') smin smax req) (\<lambda>complete.
       if complete \<or> max_pkts > 0 \<and> length pkts' = max_pkts then unitM pkts'
       else receive_loop X H fuel smin smax max_pkts req n pkts' time_start')))"

definition receive ::
  "'w env \<Rightarrow> 'w hooks \<Rightarrow> nat \<Rightarrow> rat option \<Rightarrow> rat option \<Rightarrow> nat \<Rightarrow> packet option \<Rightarrow>
   ('w, packet list) sulM"
where
  "receive X H fuel smin smax max_pkts req =
     bindM (outM (time_time X)) (\<lambda>time_start.
       receive_loop X H fuel smin smax max_pkts req fuel [] time_start)"

definition receive_output_symbol ::
  "'w env \<Rightarrow> 'w hooks \<Rightarrow> nat \<Rightarrow> rat option \<Rightarrow> rat option \<Rightarrow> packet option \<Rightarrow> ('w, string) sulM"
where
  "receive_output_symbol X H fuel smin smax req =
     bindM (receive X H fuel smin smax 0 req) (output_symbol X)"

section \<open>Frames\<close>

text \<open>Hooks that respect \<open>R\<close>, as every mapper's do.\<close>

definition hooks_keep :: "('w sul \<Rightarrow> 'w sul \<Rightarrow> bool) \<Rightarrow> 'w hooks \<Rightarrow> bool" where
  "hooks_keep R H \<longleftrightarrow>
     (\<forall>pkts d smin smax req. keeps R (rsp_complete H pkts d smin smax req)) \<and>
     (\<forall>h pkt. handle_packet H = Some h \<longrightarrow> keeps R (h pkt))"

context mapper_frame begin

lemma keeps_count_packet: "keeps R (count_packet X pkt c)"
  unfolding count_packet_def by (cases c) (auto intro!: mapper_rules keeps_output_symbol)

lemma keeps_is_rsp_complete: "keeps R (is_rsp_complete X pkts d smin smax req)"
  unfolding is_rsp_complete_def by (intro mapper_rules keeps_count_packet)

lemma keeps_is_rsp_complete_NimBLE: "keeps R (is_rsp_complete_NimBLE X pkts d smin smax req)"
  unfolding is_rsp_complete_NimBLE_def by (intro mapper_rules keeps_is_rsp_complete)

lemma keeps_is_rsp_complete_DKNimBLE: "keeps R (is_rsp_complete_DKNimBLE X pkts d smin smax req)"
  unfolding is_rsp_complete_DKNimBLE_def by (intro mapper_rules keeps_is_rsp_complete)

lemma keeps_decrypt_step: "keeps R (decrypt_step X pkt)"
proof -
  have "keeps R (case r of None \<Rightarrow> unitM (pkt, False) | Some (data, ok) \<Rightarrow>
      thenM (upd_conn (enc_rx_pkt_count_update (\<lambda>n. n + 1))) (unitM (btle_dissect X data, \<not> ok)))"
    for r
    by (auto split: option.split intro!: mapper_rules simp: conn_step_refl_updates)
  then show ?thesis unfolding decrypt_step_def by (intro mapper_rules)
qed

lemma keeps_process_packet:
  assumes H: "hooks_keep R H"
  shows "keeps R (process_packet X H fuel pkt)"
proof -
  have "keeps R (case r of None \<Rightarrow> unitM None | Some p \<Rightarrow>
      thenM (send X p) (bindM (outM (time_time X)) (\<lambda>t. unitM (Some t))))" for r
    by (cases r) (auto intro!: mapper_rules keeps_send)
  then have "keeps R (case handle_packet H of None \<Rightarrow> unitM None | Some handle \<Rightarrow>
      bindM (handle pkt) (\<lambda>res. case res of None \<Rightarrow> unitM None | Some p \<Rightarrow>
        thenM (send X p) (bindM (outM (time_time X)) (\<lambda>t. unitM (Some t)))))"
    using H by (auto simp: hooks_keep_def split: option.split intro!: mapper_rules)
  then show ?thesis unfolding process_packet_def
    by (intro mapper_rules keeps_reset_device keeps_smp_process)
qed

lemma keeps_receive_body: "hooks_keep R H \<Longrightarrow> keeps R (receive_body X H fuel data pkts ts)"
  unfolding receive_body_def Let_def
  by (intro mapper_rules) (auto split: prod.split intro!: mapper_rules keeps_decrypt_step
      keeps_process_packet simp: conn_step_refl_updates)

lemma keeps_receive_turn: "hooks_keep R H \<Longrightarrow> keeps R (receive_turn X H fuel pkts ts)"
  unfolding receive_turn_def
  by (intro mapper_rules) (auto split: option.split intro!: mapper_rules keeps_receive_body)

lemma keeps_receive_loop:
  "hooks_keep R H \<Longrightarrow> keeps R (receive_loop X H fuel smin smax max_pkts req n pkts ts)"
proof (induction n arbitrary: pkts ts)
  case (Suc n)
  then show ?case unfolding receive_loop.simps
    by (intro mapper_rules) (auto simp: hooks_keep_def intro!: mapper_rules keeps_receive_turn
        split: prod.split)
qed (simp add: keeps_def)

lemma keeps_receive: "hooks_keep R H \<Longrightarrow> keeps R (receive X H fuel smin smax max_pkts req)"
  unfolding receive_def by (intro mapper_rules keeps_receive_loop)

lemma keeps_receive_output_symbol:
  "hooks_keep R H \<Longrightarrow> keeps R (receive_output_symbol X H fuel smin smax req)"
  unfolding receive_output_symbol_def by (intro mapper_rules keeps_receive keeps_output_symbol)

end

section \<open>The heuristic without the loop\<close>

text \<open>
  What the loop of \<open>is_rsp_complete\<close> computes: the cyclic packets the sequence ends with, and
  the number of responses still expected after the other packets' symbols.
\<close>

definition is_cyclic :: "packet \<Rightarrow> bool" where
  "is_cyclic pkt \<longleftrightarrow> lname (last pkt) \<in> set cyclic_layers"

definition trailing_cyclic :: "packet list \<Rightarrow> nat" where
  "trailing_cyclic pkts = length (takeWhile is_cyclic (rev pkts))"

definition expected_after :: "string list \<Rightarrow> nat" where
  "expected_after answers = fold next_expected answers 1"

definition looks_complete :: "'w env \<Rightarrow> (string \<rightharpoonup> string) \<Rightarrow> packet list \<Rightarrow> bool" where
  "looks_complete X m pkts \<longleftrightarrow>
     10 \<le> trailing_cyclic pkts \<or>
     5 \<le> trailing_cyclic pkts \<and>
       expected_after (map (\<lambda>p. symbol_of X m [p]) (filter (\<lambda>p. \<not> is_cyclic p) pkts)) = 0"

lemma py_last_layer: "pkt \<noteq> [] \<Longrightarrow> py_last (map lname pkt) = Inr (lname (last pkt))"
  by (simp add: py_last_def last_map)

lemma count_packets:
  assumes "symbols s = Some m" and "[] \<notin> set pkts"
  shows "foldM pkts (count_packet X) (1, 0) s =
     Ret (expected_after (map (\<lambda>p. symbol_of X m [p]) (filter (\<lambda>p. \<not> is_cyclic p) pkts)),
          trailing_cyclic pkts) s"
  using assms(2)
proof (induction pkts rule: rev_induct)
  case Nil
  then show ?case by (simp add: unitM_def expected_after_def trailing_cyclic_def)
next
  case (snoc p pkts)
  then have "p \<noteq> []" by auto
  with snoc assms(1) show ?case
    by (simp add: foldM_append count_packet_def py_last_layer liftE_def is_cyclic_def
        trailing_cyclic_def expected_after_def thenM_def)
qed

text \<open>C12: The stop decision is what the comments promise. On packets that have layers, with the symbols
  table in place, \<open>is_rsp_complete\<close> raises nothing and changes nothing, and stops exactly when the
  maximum time is over, or when the minimum time is over and the sequence ends with ten cyclic
  packets, or with five and no further response is expected.\<close>

theorem is_rsp_complete_spec:
  assumes "symbols s = Some m" and "[] \<notin> set pkts"
  shows "is_rsp_complete X pkts d smin smax req s =
     Ret (max_limit s smin smax \<le> d \<or> min_limit s smin \<le> d \<and> looks_complete X m pkts) s"
  using count_packets [OF assms]
  by (auto simp: is_rsp_complete_def getM_def seems_complete_def looks_complete_def)

theorem is_rsp_complete_spec_witness:
  "is_rsp_complete sim_env (replicate 10 [Layer BTLE []] @ replicate 10 [Layer BTLE_DATA []])
     (2 / 10) None None None (sim_sul sim0 sim_conn) = Ret True (sim_sul sim0 sim_conn)"
proof -
  let ?p = "replicate 10 [Layer BTLE []] @ replicate 10 [Layer BTLE_DATA []]"
  have "looks_complete sim_env Map.empty ?p"
    by (simp add: looks_complete_def trailing_cyclic_def is_cyclic_def cyclic_layers_def
        numeral_eq_Suc)
  then show ?thesis
    using is_rsp_complete_spec [of "sim_sul sim0 sim_conn" Map.empty ?p sim_env "2 / 10" None None
        None]
    by (simp add: min_limit_def)
qed

section \<open>Termination of the receive loop\<close>

lemma halts_with_conn: "(\<And>c. halts (f c)) \<Longrightarrow> halts (with_conn f)"
  by (auto simp: halts_def with_conn_def split: option.split)

lemma halts_upd_conn: "halts (upd_conn g)"
  by (simp add: upd_conn_def halts_modM)

lemma halts_output_symbol: "halts (output_symbol X pkts)"
proof -
  have "ensure_symbols X s \<noteq> NoRet" for s
    by (auto simp: ensure_symbols_def with_conn_def monad_simps split: option.split sum.split)
  then show ?thesis unfolding output_symbol_def by (intro halts_rules haltsI)
qed

lemma halts_is_rsp_complete: "halts (is_rsp_complete X pkts d smin smax req)"
proof -
  have "halts (count_packet X pkt c)" for pkt c
    unfolding count_packet_def by (cases c) (auto intro!: halts_rules halts_output_symbol)
  then show ?thesis unfolding is_rsp_complete_def by (intro halts_rules)
qed


lemma halts_send: "world_halts X \<Longrightarrow> halts (send X pkt)"
  unfolding send_def
  by (intro halts_with_conn halts_rules halts_upd_conn halts_raw_send halts_send_nrf)

lemma halts_smp_process: "world_halts X \<Longrightarrow> halts (smp_process X pkt)"
proof -
  assume X: "world_halts X"
  have store: "halts (store_attr r f u)" for r f u
    unfolding store_attr_def by (intro halts_rules halts_upd_conn)
  have "halts (smp_answer r)" for r
    unfolding smp_answer_def by (intro halts_rules store)
  then have "halts (case a of None \<Rightarrow> unitM () | Some rs \<Rightarrow>
      forM rs (\<lambda>res. smp_answer (hci_dissect X res)))" for a
    by (cases a) (auto intro!: halts_rules)
  then show ?thesis unfolding smp_process_def by (intro halts_rules world_halts_out X)
qed

lemma halts_reset_device: "world_halts X \<Longrightarrow> 0 < fuel \<Longrightarrow> halts (reset_device X fuel)"
  unfolding reset_device_def by (intro halts_rules world_halts_out halts_reset_device_nrf)

lemma halts_receive_turn:
  assumes X: "world_halts X" and fuel: "0 < fuel"
    and H: "\<And>h pkt. handle_packet H = Some h \<Longrightarrow> halts (h pkt)"
  shows "halts (receive_turn X H fuel pkts ts)"
proof -
  have dec: "halts (decrypt_step X pkt)" for pkt
    unfolding decrypt_step_def
    by (intro halts_with_conn halts_rules) (auto split: option.split intro!: halts_rules halts_upd_conn)
  have answer: "halts (case r of None \<Rightarrow> unitM None | Some p \<Rightarrow>
      thenM (send X p) (bindM (outM (time_time X)) (\<lambda>t. unitM (Some t))))" for r
    by (cases r) (auto intro!: halts_rules halts_send world_halts_out X)
  have "halts (case handle_packet H of None \<Rightarrow> unitM None | Some handle \<Rightarrow>
      bindM (handle pkt) (\<lambda>res. case res of None \<Rightarrow> unitM None | Some p \<Rightarrow>
        thenM (send X p) (bindM (outM (time_time X)) (\<lambda>t. unitM (Some t)))))" for pkt
    using H by (auto split: option.split intro!: halts_rules answer)
  then have proc: "halts (process_packet X H fuel pkt)" for pkt
    unfolding process_packet_def
    by (intro halts_rules halts_reset_device halts_smp_process X fuel)
  have "halts (receive_body X H fuel bs pkts ts)" for bs
    unfolding receive_body_def Let_def
    by (intro halts_rules halts_with_conn halts_upd_conn)
       (auto split: prod.split intro!: halts_rules dec proc)
  then show ?thesis unfolding receive_turn_def
    by (intro halts_rules world_halts_out halts_raw_receive X)
       (auto split: option.split intro!: halts_rules)
qed

text \<open>The start time moves only with an answer, and then to the present; without a \<open>handle_packet\<close> it
  stays. A turn adds at most one packet.\<close>

lemma process_packet_start:
  assumes "clock_ok X now" and "process_packet X H fuel pkt s = Ret (Some v) t"
  shows "v \<le> now (outside t)"
  using assms(2) clock_time [OF assms(1)]
  by (fastforce simp: process_packet_def bindM_eq_Ret thenM_eq_Ret outM_def
      split: option.splits res.splits)

lemma receive_body_start:
  assumes "clock_ok X now" and "receive_body X H fuel bs pkts ts s = Ret (pkts', ts') t"
  shows "ts' = ts \<or> ts' \<le> now (outside t)"
  using assms(2)
  by (auto simp: receive_body_def Let_def bindM_eq_Ret thenM_eq_Ret split: if_splits option.splits
      dest: process_packet_start [OF assms(1)])

lemma receive_body_silent:
  assumes "handle_packet H = None"
    and "receive_body X H fuel bs pkts ts s = Ret (pkts', ts') t"
  shows "ts' = ts"
  using assms(2)
  by (auto simp: receive_body_def Let_def process_packet_def assms(1) bindM_eq_Ret thenM_eq_Ret
      split: if_splits)

lemma receive_body_packets:
  assumes "receive_body X H fuel bs pkts ts s = Ret (pkts', ts') t"
  shows "pkts' = pkts \<or> (\<exists>p. pkts' = pkts @ [p])"
  using assms by (auto simp: receive_body_def Let_def bindM_eq_Ret thenM_eq_Ret split: if_splits)

lemma receive_turn_packets:
  assumes "receive_turn X H fuel pkts ts s = Ret (pkts', ts') t"
  shows "pkts' = pkts \<or> (\<exists>p. pkts' = pkts @ [p])"
  using assms by (auto simp: receive_turn_def bindM_eq_Ret thenM_eq_Ret split: option.splits
      dest: receive_body_packets)

text \<open>The peer asks no more often than before.\<close>

abbreviation quota_rel :: "('w \<Rightarrow> nat) \<Rightarrow> 'w sul \<Rightarrow> 'w sul \<Rightarrow> bool" where
  "quota_rel q \<equiv> out_rel (\<lambda>w w'. q w' \<le> q w)"

text \<open>The turns that are enough: what is left of the limit, and the whole limit once per answer.\<close>

definition turns_left :: "rat \<Rightarrow> rat \<Rightarrow> nat \<Rightarrow> rat" where
  "turns_left limit elapsed answers = 100 * max 0 (limit - elapsed) + of_nat answers * (100 * limit + 1) + 1"

text \<open>Fuel for all of them, whatever the clock says at the start.\<close>

definition enough_turns :: "rat \<Rightarrow> nat \<Rightarrow> nat \<Rightarrow> bool" where
  "enough_turns limit answers fuel \<longleftrightarrow>
     0 \<le> limit \<and> (of_nat answers + 1) * (100 * limit + 1) \<le> of_nat fuel"

lemma enough_turns_limit: "enough_turns limit k fuel \<Longrightarrow> 0 \<le> limit"
  by (simp add: enough_turns_def)

lemma enough_turns_fewer:
  assumes "enough_turns limit k fuel" and "k' \<le> k"
  shows "enough_turns limit k' fuel"
proof -
  have "(of_nat k' + 1) * (100 * limit + 1) \<le> (of_nat k + 1) * (100 * limit + 1)"
    using assms by (intro mult_right_mono) (simp_all add: enough_turns_def)
  also have "\<dots> \<le> of_nat fuel" using assms(1) by (simp add: enough_turns_def)
  finally show ?thesis using assms(1) by (simp add: enough_turns_def)
qed

lemma enough_turns_once: "enough_turns limit k fuel \<Longrightarrow> 100 * limit + 1 \<le> of_nat fuel"
  using enough_turns_fewer [of limit k fuel 0] by (simp add: enough_turns_def)

lemma enough_turns_pos: "enough_turns limit k fuel \<Longrightarrow> 0 < fuel"
  using enough_turns_once [of limit k fuel] enough_turns_limit [of limit k fuel] by (cases fuel) simp_all

lemma turns_left_mono:
  assumes "0 \<le> limit" and "d \<le> d'" and "k' \<le> k"
  shows "turns_left limit d' k' \<le> turns_left limit d k"
  unfolding turns_left_def using assms
  by (intro add_mono mult_mono max.mono order_refl) simp_all

lemma turns_left_elapsed:
  assumes "d + 1 / 100 \<le> d'" and "d' < limit"
  shows "turns_left limit d' k + 1 \<le> turns_left limit d k"
proof -
  have "max 0 (limit - d') = limit - d'" "max 0 (limit - d) = limit - d" using assms by simp_all
  moreover have "100 * (limit - d') + 1 \<le> 100 * (limit - d)" using assms(1) by simp
  ultimately show ?thesis by (simp add: turns_left_def)
qed

lemma turns_left_Suc:
  "turns_left limit d (Suc k) = turns_left limit d k + (100 * limit + 1)"
  by (simp add: turns_left_def algebra_simps)

lemma turns_left_fresh:
  assumes "0 \<le> limit" and "0 \<le> d'"
  shows "turns_left limit d' k + 1 \<le> turns_left limit d (Suc k)"
proof -
  have "turns_left limit d' k \<le> turns_left limit 0 k" using assms by (intro turns_left_mono) simp_all
  moreover have "turns_left limit 0 k \<le> turns_left limit d k + 100 * limit"
    using assms(1) by (simp add: turns_left_def)
  ultimately show ?thesis unfolding turns_left_Suc by simp
qed

lemma turns_left_turn:
  assumes "0 \<le> limit" and "turns_left limit d k \<le> of_nat (Suc n)" and "k' \<le> k" and "d + 1 / 100 \<le> d'"
    and "d' < limit" and "d' \<le> d''"
  shows "turns_left limit d'' k' \<le> of_nat n"
proof -
  have "turns_left limit d'' k' \<le> turns_left limit d' k" by (rule turns_left_mono [OF assms(1,6,3)])
  moreover have "turns_left limit d' k + 1 \<le> turns_left limit d k" by (rule turns_left_elapsed [OF assms(4,5)])
  ultimately show ?thesis using assms(2) by simp
qed

lemma turns_left_answer:
  assumes "0 \<le> limit" and "turns_left limit d k \<le> of_nat (Suc n)" and "k' < k" and "0 \<le> d'"
  shows "turns_left limit d' k' \<le> of_nat n"
proof -
  have "turns_left limit d' k' + 1 \<le> turns_left limit d (Suc k')" by (rule turns_left_fresh [OF assms(1,4)])
  moreover have "turns_left limit d (Suc k') \<le> turns_left limit d k"
    using assms(1,3) by (intro turns_left_mono) simp_all
  ultimately show ?thesis using assms(2) by simp
qed

lemma turns_left_pos: "0 \<le> limit \<Longrightarrow> 0 < turns_left limit d k"
  by (simp add: turns_left_def add_nonneg_pos)

text \<open>
  The contract that makes the loop end: whatever was received, a stop decision asked for a time of
  at least \<open>bound\<close> is yes; the bound depends on the configuration only, and deciding ends. A class
  that answers packets starts the clock again with each answer; \<open>q\<close> bounds how often the peer will
  still make it answer. It is 0 for the other classes.
\<close>

locale timed_stop =
  fixes X :: "'w env" and H :: "'w hooks"
    and bound :: "rat option \<Rightarrow> rat option \<Rightarrow> packet option \<Rightarrow> 'w sul \<Rightarrow> rat"
    and q :: "'w \<Rightarrow> nat"
  assumes stops: "rsp_complete H pkts d smin smax req s = Ret b t \<Longrightarrow> bound smin smax req s \<le> d \<Longrightarrow> b"
    and bound_cfg: "cfg_rel s t \<Longrightarrow> bound smin smax req t = bound smin smax req s"
    and decision_frame: "mapper_frame R X \<Longrightarrow> keeps R (rsp_complete H pkts d smin smax req)"
    and decision_halts: "halts (rsp_complete H pkts d smin smax req)"
    and handler_frame: "mapper_frame R X \<Longrightarrow> handle_packet H = Some h \<Longrightarrow> keeps R (h pkt)"
    and handler_halts: "handle_packet H = Some h \<Longrightarrow> halts (h pkt)"
    and quota: "env_keeps X (\<lambda>w w'. q w' \<le> q w)"
    and answer_cost: "raw_receive X s = Ret (Some data) t \<Longrightarrow>
      receive_body X H fuel data pkts ts t = Ret (pkts', ts') u \<Longrightarrow> ts' \<noteq> ts \<Longrightarrow>
      q (outside t) < q (outside s)"
begin

lemma hooks_kept: "mapper_frame R X \<Longrightarrow> hooks_keep R H"
  by (simp add: hooks_keep_def handler_frame decision_frame)

lemma quota_step_frame: "step_frame (quota_rel q) X"
  by (rule out_step_frame [OF quota]) auto

lemmas quota_frame = step_frame.axioms(1) [OF quota_step_frame]

lemma quota_time: "time_time X w = Ret v w' \<Longrightarrow> q w' \<le> q w"
  using quota by (simp add: env_keeps_def keeps_def)

lemma turn_kept: "mapper_frame R X \<Longrightarrow> keeps R (receive_turn X H fuel pkts ts)"
  by (rule mapper_frame.keeps_receive_turn [OF _ hooks_kept])

lemma time_passes:
  assumes clock: "clock_ok X now" and mono: "clock_mono X now"
    and turn: "receive_turn X H fuel pkts ts s = Ret r t"
  shows "now (outside s) + 1 / 100 \<le> now (outside t)"
proof -
  note T = time_frame [OF mono]
  obtain w where w: "time_sleep X (1 / 100) (outside s) = Ret () w"
      "now (outside s) + 1 / 100 \<le> now w"
    using clock_sleep [OF clock, of "1 / 100"] by auto
  let ?rest = "bindM (raw_receive X) (\<lambda>data. case data of None \<Rightarrow> unitM (pkts, ts)
      | Some bs \<Rightarrow> receive_body X H fuel bs pkts ts)"
  have "keeps (time_rel now) (case data of None \<Rightarrow> unitM (pkts, ts)
      | Some bs \<Rightarrow> receive_body X H fuel bs pkts ts)" for data
    by (cases data)
      (simp_all add: mapper_frame.keeps_receive_body [OF T hooks_kept [OF T]]
        mapper_frame.mapper_rules(1) [OF T])
  then have "keeps (time_rel now) ?rest"
    by (intro mapper_frame.mapper_rules [OF T])
  moreover have "?rest (s\<lparr>outside := w\<rparr>) = Ret r t"
    using turn w(1) by (simp add: receive_turn_def thenM_def outM_def bindM_def)
  ultimately have "time_rel now (s\<lparr>outside := w\<rparr>) t" by (rule keeps_Ret)
  with w(2) show ?thesis by (simp add: out_rel_def)
qed

text \<open>Every turn sleeps, so a call of \<open>receive\<close> that returns has taken a hundredth of a second.\<close>

lemma receive_takes_time:
  assumes clock: "clock_ok X now" and mono: "clock_mono X now"
    and rec: "receive X H fuel smin smax max_pkts req s = Ret pkts t"
  shows "now (outside s) + 1 / 100 \<le> now (outside t)"
proof -
  note T = time_frame [OF mono]
  have loop: "now (outside u) + 1 / 100 \<le> now (outside t)"
    if r: "receive_loop X H fuel smin smax max_pkts req n [] ts u = Ret pkts t" for n ts u
  proof (cases n)
    case (Suc k)
    obtain p ts1 v where turn: "receive_turn X H fuel [] ts u = Ret (p, ts1) v"
      and rest: "bindM (outM (time_time X)) (\<lambda>time_now.
         bindM (rsp_complete H p (time_now - ts1) smin smax req) (\<lambda>complete.
           if complete \<or> max_pkts > 0 \<and> length p = max_pkts then unitM p
           else receive_loop X H fuel smin smax max_pkts req k p ts1)) v = Ret pkts t"
      using r unfolding Suc receive_loop.simps bindM_eq_Ret [of "receive_turn X H fuel [] ts"]
      by auto
    have "keeps (time_rel now) (bindM (outM (time_time X)) (\<lambda>time_now.
         bindM (rsp_complete H p (time_now - ts1) smin smax req) (\<lambda>complete.
           if complete \<or> max_pkts > 0 \<and> length p = max_pkts then unitM p
           else receive_loop X H fuel smin smax max_pkts req k p ts1)))"
      by (intro mapper_frame.mapper_rules [OF T] decision_frame [OF T]
          mapper_frame.keeps_receive_loop [OF T hooks_kept [OF T]])
    from keeps_Ret [OF this rest] time_passes [OF clock mono turn] show ?thesis
      by (simp add: out_rel_def)
  qed (use r in simp)
  obtain v u where u: "outM (time_time X) s = Ret v u"
      "receive_loop X H fuel smin smax max_pkts req fuel [] v u = Ret pkts t"
    using rec unfolding receive_def bindM_eq_Ret by blast
  have "keeps (time_rel now) (outM (time_time X))" by (intro mapper_frame.mapper_rules [OF T])
  then have "time_rel now s u" using u(1) by (rule keeps_Ret)
  with loop [OF u(2)] show ?thesis by (simp add: out_rel_def)
qed

text \<open>One turn: the clock is not started again, or one answer less is to come.\<close>

lemma turn_start:
  assumes clock: "clock_ok X now" and turn: "receive_turn X H fuel pkts ts s = Ret (pkts1, ts1) t"
  shows "q (outside t) \<le> q (outside s) \<and>
    (ts1 = ts \<or> ts1 \<le> now (outside t) \<and> q (outside t) < q (outside s))"
proof -
  obtain u data v where u: "outM (time_sleep X (1 / 100)) s = Ret () u" "raw_receive X u = Ret data v"
    and rest: "(case data of None \<Rightarrow> unitM (pkts, ts) | Some bs \<Rightarrow> receive_body X H fuel bs pkts ts) v =
      Ret (pkts1, ts1) t"
    using turn by (auto simp: receive_turn_def bindM_eq_Ret thenM_eq_Ret)
  have "keeps (quota_rel q) (outM (time_sleep X (1 / 100)))"
    by (rule mapper_frame.mapper_rules [OF quota_frame]) simp
  moreover have "keeps (quota_rel q) (raw_receive X)"
    by (rule driver_frame.keeps_raw_receive [OF mapper_frame.axioms(1) [OF quota_frame]])
  ultimately have Q: "keeps (quota_rel q) (outM (time_sleep X (1 / 100)))"
    "keeps (quota_rel q) (raw_receive X)" .
  from keeps_Ret [OF Q(1) u(1)] keeps_Ret [OF Q(2) u(2)]
  have uv: "q (outside u) \<le> q (outside s)" "q (outside v) \<le> q (outside u)" by (simp_all add: out_rel_def)
  show ?thesis
  proof (cases data)
    case None
    with rest uv show ?thesis by auto
  next
    case (Some bs)
    then have body: "receive_body X H fuel bs pkts ts v = Ret (pkts1, ts1) t" using rest by simp
    have vt: "q (outside t) \<le> q (outside v)"
      using keeps_Ret [OF mapper_frame.keeps_receive_body [OF quota_frame hooks_kept [OF quota_frame]] body]
      by (simp add: out_rel_def)
    have "q (outside v) < q (outside u)" if "ts1 \<noteq> ts"
      using answer_cost [OF _ body that] u(2) Some by simp
    with uv vt receive_body_start [OF clock body] show ?thesis by fastforce
  qed
qed

lemma turn_ends:
  assumes clock: "clock_ok X now" and mono: "clock_mono X now"
    and turn: "receive_turn X H fuel pkts ts s = Ret (pkts1, ts1) t"
    and limit: "0 \<le> limit" "bound smin smax req s \<le> limit"
    and left: "turns_left limit (now (outside s) - ts) (q (outside s)) \<le> of_nat (Suc n)"
    and again: "\<And>u. bound smin smax req u \<le> limit \<Longrightarrow>
      turns_left limit (now (outside u) - ts1) (q (outside u)) \<le> of_nat n \<Longrightarrow>
      receive_loop X H fuel smin smax max_pkts req n pkts1 ts1 u \<noteq> NoRet"
  shows "bindM (outM (time_time X)) (\<lambda>time_now.
     bindM (rsp_complete H pkts1 (time_now - ts1) smin smax req) (\<lambda>complete.
       if complete \<or> max_pkts > 0 \<and> length pkts1 = max_pkts then unitM pkts1
       else receive_loop X H fuel smin smax max_pkts req n pkts1 ts1)) t \<noteq> NoRet"
proof -
  obtain v w where v: "time_time X (outside t) = Ret v w" "now (outside t) \<le> v" "v \<le> now w"
    using clock_time [OF clock] by blast
  let ?t = "t\<lparr>outside := w\<rparr>"
  have "cfg_rel s t" by (rule keeps_Ret [OF turn_kept [OF cfg.mapper_frame_axioms] turn])
  then have bound_t: "bound smin smax req ?t = bound smin smax req s"
    by (intro bound_cfg) (simp add: cfg_rel_def)
  have qt: "q w \<le> q (outside t)" by (rule quota_time [OF v(1)])
  have "receive_loop X H fuel smin smax max_pkts req n pkts1 ts1 u \<noteq> NoRet"
    if d: "rsp_complete H pkts1 (v - ts1) smin smax req ?t = Ret False u" for u
  proof (rule again)
    have "cfg_rel ?t u" by (rule keeps_Ret [OF decision_frame [OF cfg.mapper_frame_axioms] d])
    then show "bound smin smax req u \<le> limit" using bound_cfg bound_t limit(2) by simp
    have "v - ts1 < limit" using stops [OF d] bound_t limit(2) by force
    have u: "now w \<le> now (outside u)" "q (outside u) \<le> q w"
      using keeps_Ret [OF decision_frame [OF time_frame [OF mono]] d]
        keeps_Ret [OF decision_frame [OF quota_frame] d] by (simp_all add: out_rel_def)
    have s: "now (outside s) + 1 / 100 \<le> now (outside t)" by (rule time_passes [OF clock mono turn])
    show "turns_left limit (now (outside u) - ts1) (q (outside u)) \<le> of_nat n"
    proof (cases "ts1 = ts")
      case True
      have k: "q (outside u) \<le> q (outside s)" using turn_start [OF clock turn] u(2) qt by simp
      have d: "now (outside s) - ts + 1 / 100 \<le> v - ts" using s v(2) by simp
      have d': "v - ts \<le> now (outside u) - ts" using v(3) u(1) by simp
      have "v - ts < limit" using \<open>v - ts1 < limit\<close> by (simp add: True)
      from turns_left_turn [OF limit(1) left k d this d'] show ?thesis by (simp add: True)
    next
      case False
      with turn_start [OF clock turn] have "ts1 \<le> now (outside t)" "q (outside u) < q (outside s)"
        using u(2) qt by auto
      with turns_left_answer [OF limit(1) left] u(1) v show ?thesis by simp
    qed
  qed
  then show ?thesis
    using v(1) decision_halts [of pkts1 "v - ts1"]
    by (auto simp: bindM_eq_NoRet outM_def halts_def unitM_def split: if_splits)
qed

lemma loop_ends:
  assumes X: "world_halts X" and clock: "clock_ok X now" and mono: "clock_mono X now"
    and fuel: "0 < fuel" and limit: "0 \<le> limit"
  shows "bound smin smax req s \<le> limit \<Longrightarrow>
    turns_left limit (now (outside s) - ts) (q (outside s)) \<le> of_nat n \<Longrightarrow>
    receive_loop X H fuel smin smax max_pkts req n pkts ts s \<noteq> NoRet"
proof (induction n arbitrary: s pkts ts)
  case 0
  with turns_left_pos [OF limit, of "now (outside s) - ts" "q (outside s)"] show ?case by simp
next
  case (Suc n)
  show ?case
  proof (cases "receive_turn X H fuel pkts ts s")
    case (Ret r t)
    obtain pkts1 ts1 where r: "r = (pkts1, ts1)" by (cases r)
    from turn_ends [OF clock mono Ret [unfolded r] limit Suc.prems Suc.IH] show ?thesis
      by (simp add: Ret r)
  next
    case (Raise e t)
    then show ?thesis by simp
  next
    case NoRet
    have "halts (receive_turn X H fuel pkts ts)"
      by (rule halts_receive_turn [OF X fuel]) (rule handler_halts)
    from haltsD [OF this, of s] NoRet show ?thesis by simp
  qed
qed

lemma receive_ends:
  assumes "world_halts X" "clock_ok X now" "clock_mono X now" and bound: "bound smin smax req s \<le> limit"
    and fuel: "enough_turns limit (q (outside s)) fuel"
  shows "receive X H fuel smin smax max_pkts req s \<noteq> NoRet"
proof -
  have limit: "0 \<le> limit" by (rule enough_turns_limit [OF fuel])
  obtain v w where v: "time_time X (outside s) = Ret v w" "v \<le> now w"
    using clock_time [OF assms(2)] by blast
  let ?s = "s\<lparr>outside := w\<rparr>"
  have b: "bound smin smax req ?s \<le> limit"
    using bound_cfg [of s ?s] bound by (simp add: cfg_rel_def)
  have "q w \<le> q (outside s)" by (rule quota_time [OF v(1)])
  then have "turns_left limit (now w - v) (q w) \<le> turns_left limit 0 (q (outside s))"
    using v(2) limit by (intro turns_left_mono) simp_all
  also have "\<dots> = (of_nat (q (outside s)) + 1) * (100 * limit + 1)"
    using limit by (simp add: turns_left_def algebra_simps)
  finally have left: "turns_left limit (now (outside ?s) - v) (q (outside ?s)) \<le> of_nat fuel"
    using fuel by (simp add: enough_turns_def)
  from loop_ends [OF assms(1-3) enough_turns_pos [OF fuel] limit b left] v(1) show ?thesis
    by (simp add: receive_def outM_def bindM_def)
qed

end

section \<open>The mappers' heuristics meet the contract\<close>

definition default_hooks :: "'w env \<Rightarrow> 'w hooks" where
  "default_hooks X = \<lparr>rsp_complete = is_rsp_complete X, handle_packet = None\<rparr>"

definition NimBLE_hooks :: "'w env \<Rightarrow> 'w hooks" where
  "NimBLE_hooks X = \<lparr>rsp_complete = is_rsp_complete_NimBLE X, handle_packet = None\<rparr>"

definition DKNimBLE_hooks :: "'w env \<Rightarrow> 'w hooks" where
  "DKNimBLE_hooks X = \<lparr>rsp_complete = is_rsp_complete_DKNimBLE X, handle_packet = None\<rparr>"

text \<open>The longest time a response is waited for; a connect request has a maximum \<open>v\<close> of its own.\<close>

definition connect_req :: "packet option \<Rightarrow> bool" where
  "connect_req req \<longleftrightarrow> (case req of None \<Rightarrow> False | Some p \<Rightarrow> haslayer BTLE_CONNECT_REQ p)"

definition stop_bound :: "rat \<Rightarrow> rat option \<Rightarrow> rat option \<Rightarrow> packet option \<Rightarrow> 'w sul \<Rightarrow> rat" where
  "stop_bound v smin smax req s = max_limit s smin (if connect_req req then Some v else smax)"

lemma limits_cfg:
  assumes "cfg_rel s t"
  shows "max_limit t smin smax = max_limit s smin smax" "min_limit t smin = min_limit s smin"
  using assms by (auto simp: cfg_rel_def max_limit_def min_limit_def split: option.split)

lemma max_limit_min: "max_limit t (Some (min_limit s smin)) smax = max_limit s smin smax"
  if "cfg_rel s t"
  using that by (auto simp: cfg_rel_def max_limit_def min_limit_def split: option.split)

lemma is_rsp_complete_stops:
  assumes "is_rsp_complete X pkts d smin smax req s = Ret b t" and "max_limit s smin smax \<le> d"
  shows b
proof -
  obtain c u where u: "foldM pkts (count_packet X) (1, 0) s = Ret c u"
    "b = (max_limit u smin smax \<le> d \<or> min_limit u smin \<le> d \<and> seems_complete c)"
    using assms(1) by (auto simp: is_rsp_complete_def bindM_eq_Ret getM_def)
  have "keeps cfg_rel (foldM pkts (count_packet X) (1, 0))"
    by (intro cfg.mapper_rules cfg.keeps_count_packet)
  then have "cfg_rel s u" using u(1) by (rule keeps_Ret)
  with u(2) assms(2) show ?thesis by (simp add: limits_cfg)
qed

lemma no_quota: "env_keeps X (\<lambda>w w'. True)"
  by (simp add: env_keeps_def keeps_def)

interpretation default_stop:
  timed_stop X "default_hooks X" "\<lambda>smin smax req s. max_limit s smin smax" "\<lambda>_. 0" for X :: "'w env"
  by unfold_locales
     (auto simp: default_hooks_def limits_cfg no_quota intro: is_rsp_complete_stops
        halts_is_rsp_complete mapper_frame.keeps_is_rsp_complete dest: receive_body_silent [rotated])

interpretation NimBLE_stop:
  timed_stop X "NimBLE_hooks X" "stop_bound (1 / 2)" "\<lambda>_. 0" for X :: "'w env"
proof unfold_locales
  show "b" if "rsp_complete (NimBLE_hooks X) pkts d smin smax req s = Ret b t"
    "stop_bound (1 / 2) smin smax req s \<le> d" for pkts d smin smax req s b t
    using that
    by (auto simp: NimBLE_hooks_def stop_bound_def connect_req_def is_rsp_complete_NimBLE_def
        getM_def unitM_def max_limit_min cfg_rel_def bindM_def split: if_splits
        dest!: is_rsp_complete_stops)
  show "halts (rsp_complete (NimBLE_hooks X) pkts d smin smax req)" for pkts d smin smax req
    by (simp add: NimBLE_hooks_def is_rsp_complete_NimBLE_def halts_rules halts_is_rsp_complete)
qed (auto simp: NimBLE_hooks_def stop_bound_def limits_cfg no_quota
       intro: mapper_frame.keeps_is_rsp_complete_NimBLE dest: receive_body_silent [rotated])

interpretation DKNimBLE_stop:
  timed_stop X "DKNimBLE_hooks X" "stop_bound 2" "\<lambda>_. 0" for X :: "'w env"
proof unfold_locales
  show "b" if "rsp_complete (DKNimBLE_hooks X) pkts d smin smax req s = Ret b t"
    "stop_bound 2 smin smax req s \<le> d" for pkts d smin smax req s b t
    using that
    by (auto simp: DKNimBLE_hooks_def stop_bound_def connect_req_def is_rsp_complete_DKNimBLE_def
        getM_def unitM_def max_limit_min cfg_rel_def bindM_def split: if_splits
        dest!: is_rsp_complete_stops)
  show "halts (rsp_complete (DKNimBLE_hooks X) pkts d smin smax req)" for pkts d smin smax req
    by (simp add: DKNimBLE_hooks_def is_rsp_complete_DKNimBLE_def halts_rules halts_is_rsp_complete)
qed (auto simp: DKNimBLE_hooks_def stop_bound_def limits_cfg no_quota
       intro: mapper_frame.keeps_is_rsp_complete_DKNimBLE dest: receive_body_silent [rotated])

section \<open>What becomes of a received packet\<close>

text \<open>C9: An encrypted packet is delivered in the clear. When the peripheral encrypts a payload under
  the session key, IV and receive counter of the connection, the loop's turn appends the packet
  with exactly that payload, counts it, and changes nothing else (for a packet of no concern to
  the security manager, in a mapper that answers nothing).\<close>

theorem encrypted_packet_delivered:
  assumes "ccm_ok X" and "connection s = Some c" and "encrypted c" and "handle_packet H = None"
    and "ccm_encrypt X (conn_session_key c) (rx_nonce (enc_rx_pkt_count c) (conn_iv c))
           [h AND 0xE3] pl = Inr (ct, mic)"
    and "length aa = 4" and "length crc = 3" and "1 \<le> length pl" and "length pl \<le> 251"
    and "0 \<le> enc_rx_pkt_count c" and "enc_rx_pkt_count c < 256 ^ 8"
    and "raw X (btle_dissect X data) = Inr (ll_pdu aa h (ct @ mic) crc)"
    and "is_target s c (btle_dissect X data) = Inr True"
    and "\<not> haslayer BTLE_ADV (btle_dissect X data)"
    and "fix_packet (btle_dissect X (ll_pdu aa h pl [0, 0, 0])) = Inr pkt"
    and "\<not> py_contains ''Raw'' (summary X pkt)" and "\<not> haslayer SM_Hdr pkt"
  shows "receive_body X H fuel data pkts ts s =
     Ret (pkts @ [pkt], ts)
       (s\<lparr>connection := Some (c\<lparr>enc_rx_pkt_count := enc_rx_pkt_count c + 1\<rparr>)\<rparr>)"
  using assms decrypt_pdu_peer [OF assms(1,6-11,5)]
  by (simp add: receive_body_def Let_def decrypt_step_def process_packet_def with_conn_def
      upd_conn_def monad_simps)

text \<open>A connection with a session key, and the bytes of a packet the simulated peripheral encrypts.\<close>

definition sim_key_conn :: conn where
  "sim_key_conn = sim_conn\<lparr>conn_session_key := [3]\<rparr>"

definition sim_conn2 :: conn where
  "sim_conn2 = sim_conn\<lparr>enc_rx_pkt_count := 5\<rparr>"

definition sim_mic9 :: bytes where
  "sim_mic9 = sim_mic (rx_nonce 0 (zeros 8)) [1] [10]"

definition sim_data :: bytes where
  "sim_data = ll_pdu [7, 0, 0, 0] 1 ([10] @ sim_mic9) [0, 0, 0]"

lemma sim_data_dissect:
  "sim_dissect sim_data = [Layer BTLE [(''access_addr'', VInt 7)], Layer BTLE_DATA [],
     Layer RawLayer [(''load'', VBytes ([10] @ sim_mic9))]]"
  "sim_raw [Layer BTLE [(''access_addr'', VInt 7)], Layer BTLE_DATA [],
     Layer RawLayer [(''load'', VBytes (10 # sim_mic9))]] =
   Inr (ll_pdu [7, 0, 0, 0] 1 (10 # sim_mic9) [0, 0, 0])"
  "sim_dissect (ll_pdu [7, 0, 0, 0] 1 [9] [0, 0, 0]) =
     [Layer BTLE [(''access_addr'', VInt 7)], Layer BTLE_DATA [],
      Layer BTLE_CTRL [(''opcode'', VInt 9)], Layer LL_FEATURE_RSP []]"
  by code_simp+

theorem encrypted_packet_delivered_witness:
  "receive_body sim_env (default_hooks sim_env) 1 sim_data [] 0 (sim_sul sim0 sim_key_conn) =
     Ret ([sim_dissect (ll_pdu [7, 0, 0, 0] 1 [9] [0, 0, 0])], 0)
       ((sim_sul sim0 sim_key_conn)
         \<lparr>connection := Some (sim_key_conn\<lparr>enc_rx_pkt_count := 1\<rparr>)\<rparr>)"
proof -
  have X: "btle_dissect sim_env = sim_dissect" "raw sim_env = sim_raw" "summary sim_env = sim_summary"
    by (simp_all add: sim_env_def)
  have c: "conn_session_key sim_key_conn = [3]" "enc_rx_pkt_count sim_key_conn = 0"
    "conn_iv sim_key_conn = zeros 8" "encrypted sim_key_conn" "access_address sim_key_conn = 7"
    by (simp_all add: sim_key_conn_def)
  have "ccm_encrypt sim_env [3] (rx_nonce 0 (zeros 8)) [1 AND 0xE3] [9] = Inr ([10], sim_mic9)"
    by (simp add: sim_env_def sim_k_def sim_mic9_def Let_def)
  moreover have "\<not> py_contains ''Raw'' (sim_summary
     (sim_dissect (ll_pdu [7, 0, 0, 0] 1 [9] [0, 0, 0])))" by code_simp
  ultimately show ?thesis
    using encrypted_packet_delivered [OF sim_ccm, of "sim_sul sim0 sim_key_conn" sim_key_conn
        "default_hooks sim_env" 1 "[9]" "[10]" sim_mic9 "[7, 0, 0, 0]" "[0, 0, 0]" sim_data
        "sim_dissect (ll_pdu [7, 0, 0, 0] 1 [9] [0, 0, 0])" 1 "[]" 0]
    by (simp add: X c sim_data_dissect haslayer_def is_target_def fix_packet_def getattr_def
        default_hooks_def)
qed

text \<open>C29: A packet whose tag is wrong is as good as not received: it is not recorded, not answered,
  not given to the security manager; only the receive counter moves.\<close>

theorem broken_packet_dropped:
  assumes "connection s = Some c" and "encrypted c"
    and "is_target s c (btle_dissect X data) = Inr True"
    and "\<not> haslayer BTLE_ADV (btle_dissect X data)"
    and "raw X (btle_dissect X data) = Inr r"
    and "decrypt_pdu X c r = Inr (Some (d, False))"
  shows "receive_body X H fuel data pkts ts s =
     Ret (pkts, ts) (s\<lparr>connection := Some (c\<lparr>enc_rx_pkt_count := enc_rx_pkt_count c + 1\<rparr>)\<rparr>)"
  using assms
  by (simp add: receive_body_def Let_def decrypt_step_def with_conn_def upd_conn_def monad_simps)

theorem broken_packet_dropped_witness:
  "receive_body sim_env (default_hooks sim_env) 1 sim_data [] 0 (sim_sul sim0 sim_conn2) =
     Ret ([], 0) ((sim_sul sim0 sim_conn2)
                    \<lparr>connection := Some (sim_conn2\<lparr>enc_rx_pkt_count := 6\<rparr>)\<rparr>)"
proof -
  let ?r = "ll_pdu [7, 0, 0, 0] 1 (10 # sim_mic9) [0, 0, 0]"
  have X: "btle_dissect sim_env = sim_dissect" "raw sim_env = sim_raw"
    by (simp_all add: sim_env_def)
  have c: "encrypted sim_conn2" "access_address sim_conn2 = 7" "enc_rx_pkt_count sim_conn2 = 5"
    by (simp_all add: sim_conn2_def)
  have "map_sum id (map_option snd) (decrypt_pdu sim_env sim_conn2 ?r) = Inr (Some False)"
    by code_simp
  then obtain d where "decrypt_pdu sim_env sim_conn2 ?r = Inr (Some (d, False))"
    by (cases "decrypt_pdu sim_env sim_conn2 ?r") auto
  then show ?thesis
    using broken_packet_dropped [of "sim_sul sim0 sim_conn2" sim_conn2 sim_env sim_data ?r]
    by (simp add: X c sim_data_dissect haslayer_def is_target_def getattr_def)
qed

text \<open>A limit on the number of packets is respected: whatever else the loop does, a call that
  returns gives at most that many packets.\<close>

theorem receive_max_pkts:
  assumes "0 < max_pkts" and "receive X H fuel smin smax max_pkts req s = Ret pkts t"
  shows "length pkts \<le> max_pkts"
proof -
  have "length pkts' < max_pkts \<Longrightarrow>
      receive_loop X H fuel smin smax max_pkts req n pkts' ts u = Ret pkts t \<Longrightarrow>
      length pkts \<le> max_pkts" for n pkts' ts u
  proof (induction n arbitrary: pkts' ts u)
    case (Suc n)
    from Suc.prems(2) obtain pkts1 ts1 v
      where turn: "receive_turn X H fuel pkts' ts u = Ret (pkts1, ts1) v"
        and rest: "pkts = pkts1 \<or> length pkts1 \<noteq> max_pkts \<and>
          (\<exists>v'. receive_loop X H fuel smin smax max_pkts req n pkts1 ts1 v' = Ret pkts t)"
      using assms(1) by (auto simp: bindM_eq_Ret split: if_splits)
    have "length pkts1 \<le> max_pkts"
      using receive_turn_packets [OF turn] Suc.prems(1) by auto
    with rest Suc.IH show ?case by (metis le_neq_implies_less)
  qed simp
  from this [of "[]"] show ?thesis using assms by (auto simp: receive_def bindM_eq_Ret)
qed

theorem receive_max_pkts_witness:
  "\<exists>pkts t. receive sim_env (default_hooks sim_env) 100 None None 1 None
       (sim_sul (sim0\<lparr>sim_rx := [0xA7, 9, 0, 0, 0, 7, 0, 0, 0, 1, 0, 0, 0, 0, 8]\<rparr>)
          (reset_conn sim_addr 7)) = Ret pkts t \<and> length pkts \<le> 1"
proof -
  let ?s = "sim_sul (sim0\<lparr>sim_rx := [0xA7, 9, 0, 0, 0, 7, 0, 0, 0, 1, 0, 0, 0, 0, 8]\<rparr>)
      (reset_conn sim_addr 7)"
  have "case receive sim_env (default_hooks sim_env) 100 None None 1 None ?s of
      Ret pkts t \<Rightarrow> True | _ \<Rightarrow> False"
    by code_simp
  then obtain pkts t where
      "receive sim_env (default_hooks sim_env) 100 None None 1 None ?s = Ret pkts t"
    by (auto split: res.splits)
  with receive_max_pkts [OF _ this] show ?thesis by auto
qed

end
