(* ===== verification/Steps.thy ===== *)
theory Steps
  imports Receive
begin

text \<open>
  The methods of py/BLESUL.py that belong to single input symbols: \<open>ll_adv_scan_req_pre/post\<close>,
  \<open>ll_adv_connect_ind_pre\<close>, \<open>ll_ctrl_enc_req\<close> (the encryption start procedure, which
  derives the session key), \<open>ll_ctrl_pause_enc_req_post\<close>, \<open>sm_pairing_req_pre\<close>.
\<close>

section \<open>Advertising\<close>

definition ll_adv_scan_req_pre :: "packet \<Rightarrow> ('w, packet) sulM" where
  "ll_adv_scan_req_pre pkt = thenM (upd_conn (encrypted_update (\<lambda>_. False))) (unitM pkt)"

text \<open>Whether a packet tells the peripheral's address type.\<close>

definition tells_address_type :: "'w sul \<Rightarrow> packet \<Rightarrow> bool" where
  "tells_address_type s pkt \<longleftrightarrow>
     (haslayer BTLE_SCAN_RSP pkt \<or> haslayer BTLE_ADV pkt) \<and>
     (case Option.bind (lookup_field ''AdvA'' pkt) val_upper of
        None \<Rightarrow> False
      | Some u \<Rightarrow> VStr (py_upper (peripheral_address s)) = u)"

definition ll_adv_scan_req_post :: "packet list \<Rightarrow> ('w, packet list) sulM" where
  "ll_adv_scan_req_post pkts =
     thenM (forM pkts (\<lambda>pkt.
       bindM (getM (\<lambda>s. tells_address_type s pkt)) (\<lambda>b. whenM b
         (bindM (liftE (getattr pkt ''TxAdd'')) (\<lambda>v.
          modM (\<lambda>s. s\<lparr>peripheral_address_is_rand := v\<rparr>))))))
     (unitM pkts)"

definition ll_adv_connect_ind_pre :: "packet \<Rightarrow> ('w, packet) sulM" where
  "ll_adv_connect_ind_pre pkt = thenM (upd_conn (encrypted_update (\<lambda>_. False))) (unitM pkt)"

section \<open>Encryption\<close>

text \<open>\<open>struct.pack\<close> of a field, \<open>res[layer].field\<close>, and \<open>key[::-1]\<close>; only integers can be packed
  and only bytes be used as a key.\<close>

definition pack_val :: "nat \<Rightarrow> val \<Rightarrow> exn + bytes" where
  "pack_val n v = (case v of VInt i \<Rightarrow> struct_pack_le n i | _ \<Rightarrow> Inl StructError)"

definition layer_attr :: "packet \<Rightarrow> lname \<Rightarrow> string \<Rightarrow> exn + val" where
  "layer_attr pkt l f = bindE (from_layer pkt l) (\<lambda>p. getattr p f)"

definition reversed_key :: "val \<Rightarrow> exn + bytes" where
  "reversed_key v = (case v of VBytes b \<Rightarrow> Inr (rev b) | _ \<Rightarrow> Inl TypeError)"

text \<open>What the encryption procedure does with one response.\<close>

definition enc_answer :: "'w env \<Rightarrow> packet \<Rightarrow> ('w, unit) sulM" where
  "enc_answer X pkt =
     (if haslayer LL_ENC_RSP pkt
      then bindM (liftE (bindE (layer_attr pkt LL_ENC_RSP ''skds'') (pack_val 8))) (\<lambda>skds.
           thenM (upd_conn (\<lambda>c. c\<lparr>conn_skd := take 8 (conn_skd c) @ skds\<rparr>))
           (bindM (liftE (bindE (layer_attr pkt LL_ENC_RSP ''ivs'') (pack_val 4))) (\<lambda>ivs.
            thenM (upd_conn (\<lambda>c. c\<lparr>conn_iv := take 4 (conn_iv c) @ ivs\<rparr>))
            (with_conn (\<lambda>c. whenM (\<not> encrypted c)
               (bindM (liftE (bindE (reversed_key (conn_ltk c))
                               (\<lambda>k. bt_crypto_e X k (rev (conn_skd c))))) (\<lambda>key.
                upd_conn (\<lambda>c. c\<lparr>conn_session_key := key\<rparr>))))))))
      else if haslayer LL_START_ENC_REQ pkt
      then upd_conn (encrypted_update (\<lambda>_. True))
      else unitM ())"

text \<open>
  The loop of \<open>ll_ctrl_enc_req\<close>: one packet at a time, so that the key changes between the
  response and the request that follows it. The last packet received is the \<open>req\<close> of the next
  \<open>receive\<close>, because the variable is reused. The fuel bounds the turns.
\<close>

fun enc_loop ::
  "'w env \<Rightarrow> 'w hooks \<Rightarrow> nat \<Rightarrow> nat \<Rightarrow> packet \<Rightarrow> packet list \<Rightarrow> rat \<Rightarrow> ('w, packet list) sulM"
where
  "enc_loop X H fuel 0 pkt res_pkts time_start = (\<lambda>s. NoRet)"
| "enc_loop X H fuel (Suc n) pkt res_pkts time_start =
     bindM (outM (time_time X)) (\<lambda>time_now.
     bindM (rsp_complete H res_pkts (time_now - time_start) None None None) (\<lambda>complete.
       if complete then unitM res_pkts
       else bindM (receive X H fuel None None 1 (Some pkt)) (\<lambda>pkts.
              case pkts of
                [] \<Rightarrow> enc_loop X H fuel n pkt res_pkts time_start
              | p # _ \<Rightarrow>
                  thenM (enc_answer X p) (enc_loop X H fuel n p (res_pkts @ [p]) time_start))))"

definition ll_ctrl_enc_req :: "'w env \<Rightarrow> 'w hooks \<Rightarrow> nat \<Rightarrow> packet \<Rightarrow> ('w, string) sulM" where
  "ll_ctrl_enc_req X H fuel pkt =
     thenM (send X pkt)
     (thenM (upd_conn (\<lambda>c. c\<lparr>enc_tx_pkt_count := 0, enc_rx_pkt_count := 0\<rparr>))
     (bindM (outM (time_time X)) (\<lambda>time_start.
      bindM (enc_loop X H fuel fuel pkt [] time_start) (output_symbol X))))"

definition ll_ctrl_pause_enc_req_post :: "packet list \<Rightarrow> ('w, packet list) sulM" where
  "ll_ctrl_pause_enc_req_post pkts =
     thenM (forM pkts (\<lambda>pkt. whenM (haslayer LL_PAUSE_ENC_RSP pkt)
                              (upd_conn (encrypted_update (\<lambda>_. False)))))
     (unitM pkts)"

section \<open>Pairing\<close>

definition address_bytes :: "string \<Rightarrow> exn + bytes" where
  "address_bytes a = fromhex (py_replace '':'' '''' a)"

text \<open>The form \<open>reset\<close> gives the central's address: \<open>':'.join(randbytes(1).hex() ...)\<close>.\<close>

definition address_string :: "bytes \<Rightarrow> string" where
  "address_string bs = py_join '':'' (map byte_hex bs)"

definition sm_pairing_req_pre :: "'w env \<Rightarrow> packet \<Rightarrow> ('w, packet) sulM" where
  "sm_pairing_req_pre X pkt =
     bindM (liftE (layer_attr pkt SM_Pairing_Request ''authentication'')) (\<lambda>authentication.
     bindM (liftE (layer_attr pkt SM_Pairing_Request ''iocap'')) (\<lambda>pairing_iocap.
     with_conn (\<lambda>c.
     bindM (liftE (address_bytes (central_address c))) (\<lambda>central_address_raw.
     bindM (getM peripheral_address) (\<lambda>pa.
     bindM (liftE (address_bytes pa)) (\<lambda>peripheral_address_raw.
     thenM (outM (smp_set_pin_code X (replicate 4 (CHR 0x00))))
     (bindM (getM peripheral_address_is_rand) (\<lambda>is_rand.
     thenM (outM (smp_configure X central_address_raw peripheral_address_raw is_rand
                    pairing_iocap authentication))
     (bindM (outM (smp_pairing_request X)) (\<lambda>hci_res.
     bindM (liftE (from_layer (hci_dissect X hci_res) SM_Hdr)) (\<lambda>sm.
       unitM ([Layer BTLE [(''access_addr'', VInt (access_address c))], Layer BTLE_DATA [],
               Layer L2CAP_Hdr []] @ sm))))))))))))"

definition sm_pairing_req_sc_pre :: "'w env \<Rightarrow> packet \<Rightarrow> ('w, packet) sulM" where
  "sm_pairing_req_sc_pre X pkt = sm_pairing_req_pre X pkt"

section \<open>Frames\<close>

lemma length_struct_pack_le: "struct_pack_le n v = Inr b \<Longrightarrow> length b = n"
  by (auto simp: struct_pack_le_def split: if_splits)

lemma length_pack_val: "pack_val n v = Inr b \<Longrightarrow> length b = n"
  by (auto simp: pack_val_def length_struct_pack_le split: val.splits)

context mapper_frame begin

lemma keeps_ll_adv_scan_req_pre: "keeps R (ll_adv_scan_req_pre pkt)"
  unfolding ll_adv_scan_req_pre_def by (intro mapper_rules conn_step_refl_updates)

lemma keeps_ll_adv_scan_req_post: "keeps R (ll_adv_scan_req_post pkts)"
  unfolding ll_adv_scan_req_post_def by (intro mapper_rules keeps_modM R_rand)

lemma keeps_ll_adv_connect_ind_pre: "keeps R (ll_adv_connect_ind_pre pkt)"
  unfolding ll_adv_connect_ind_pre_def by (intro mapper_rules conn_step_refl_updates)

lemma keeps_ll_ctrl_pause_enc_req_post: "keeps R (ll_ctrl_pause_enc_req_post pkts)"
  unfolding ll_ctrl_pause_enc_req_post_def by (intro mapper_rules conn_step_refl_updates)

lemma keeps_sm_pairing_req_pre: "keeps R (sm_pairing_req_pre X pkt)"
  unfolding sm_pairing_req_pre_def by (intro mapper_rules)

lemma keeps_sm_pairing_req_sc_pre: "keeps R (sm_pairing_req_sc_pre X pkt)"
  unfolding sm_pairing_req_sc_pre_def by (rule keeps_sm_pairing_req_pre)

end

context step_frame begin

lemma keeps_enc_answer: "keeps R (enc_answer X pkt)"
  unfolding enc_answer_def
  by (intro keeps_bind_liftE mapper_rules keeps_upd_keys)
     (auto simp: key_step_def conn_wf_def bindE_eq_Inr dest: length_pack_val)

lemma keeps_enc_loop: "hooks_keep R H \<Longrightarrow> keeps R (enc_loop X H fuel n pkt res_pkts ts)"
proof (induction n arbitrary: pkt res_pkts)
  case (Suc n)
  have "keeps R (case pkts of [] \<Rightarrow> enc_loop X H fuel n pkt res_pkts ts
      | p # _ \<Rightarrow> thenM (enc_answer X p) (enc_loop X H fuel n p (res_pkts @ [p]) ts))" for pkts
    by (cases pkts) (simp_all add: Suc mapper_rules keeps_enc_answer)
  moreover have "keeps R (rsp_complete H ps d None None None)" for ps d
    using Suc.prems by (simp add: hooks_keep_def)
  ultimately show ?case unfolding enc_loop.simps
    by (intro mapper_rules keeps_receive Suc.prems)
qed (simp add: keeps_def)

lemma keeps_ll_ctrl_enc_req: "hooks_keep R H \<Longrightarrow> keeps R (ll_ctrl_enc_req X H fuel pkt)"
  unfolding ll_ctrl_enc_req_def
  by (intro mapper_rules keeps_send keeps_enc_loop keeps_output_symbol conn_step_refl_updates)

end

section \<open>The encryption procedure ends\<close>

lemma halts_enc_answer: "halts (enc_answer X pkt)"
  unfolding enc_answer_def by (intro halts_rules halts_upd_conn halts_with_conn)

context timed_stop begin

text \<open>What follows a received packet, and one turn of the loop after the stop decision.\<close>

lemma enc_answered_ends:
  assumes mono: "clock_mono X now"
    and again: "\<And>p ps u. cfg_rel s u \<Longrightarrow> quota_rel q s u \<Longrightarrow>
      now (outside s) + 1 / 100 \<le> now (outside u) \<Longrightarrow> enc_loop X H fuel n p ps ts u \<noteq> NoRet"
    and u: "cfg_rel s u" "quota_rel q s u" "now (outside s) + 1 / 100 \<le> now (outside u)"
  shows "(case pkts of [] \<Rightarrow> enc_loop X H fuel n pkt res_pkts ts
      | p # _ \<Rightarrow> thenM (enc_answer X p) (enc_loop X H fuel n p (res_pkts @ [p]) ts)) u \<noteq> NoRet"
proof (cases pkts)
  case Nil
  with again [OF u] show ?thesis by simp
next
  case (Cons p ps)
  have "enc_loop X H fuel n p (res_pkts @ [p]) ts u' \<noteq> NoRet"
    if a: "enc_answer X p u = Ret r u'" for r u'
  proof (rule again)
    show "cfg_rel s u'"
      using cfg.step_trans [OF u(1)] keeps_Ret [OF cfg.keeps_enc_answer a] .
    have "quota_rel q u u'"
      by (rule keeps_Ret [OF step_frame.keeps_enc_answer [OF quota_step_frame] a])
    with u(2) show "quota_rel q s u'" by (simp add: out_rel_def)
    have "time_rel now u u'"
      by (rule keeps_Ret [OF step_frame.keeps_enc_answer [OF time_step_frame [OF mono]] a])
    with u(3) show "now (outside s) + 1 / 100 \<le> now (outside u')" by (simp add: out_rel_def)
  qed
  then show ?thesis
    using haltsD [OF halts_enc_answer] by (simp add: Cons thenM_def bindM_eq_NoRet) blast
qed

lemma enc_turn_ends:
  assumes X: "world_halts X" and clock: "clock_ok X now" and mono: "clock_mono X now"
    and fuel: "enough_turns limit (q (outside s)) fuel"
    and bounds: "\<And>req. bound None None req s \<le> limit"
    and again: "\<And>p ps u. cfg_rel s u \<Longrightarrow> quota_rel q s u \<Longrightarrow>
      now (outside s) + 1 / 100 \<le> now (outside u) \<Longrightarrow> enc_loop X H fuel n p ps ts u \<noteq> NoRet"
    and t: "cfg_rel s t" "quota_rel q s t" "now (outside s) \<le> now (outside t)"
  shows "bindM (receive X H fuel None None 1 (Some pkt)) (\<lambda>pkts. case pkts of
      [] \<Rightarrow> enc_loop X H fuel n pkt res_pkts ts
    | p # _ \<Rightarrow> thenM (enc_answer X p) (enc_loop X H fuel n p (res_pkts @ [p]) ts)) t \<noteq> NoRet"
proof -
  note C = cfg.mapper_frame_axioms
  have "receive X H fuel None None 1 (Some pkt) t \<noteq> NoRet"
    using bounds bound_cfg [OF t(1)] enough_turns_fewer [OF fuel] t(2)
    by (intro receive_ends [OF X clock mono]) (simp_all add: out_rel_def)
  moreover have "(case pkts of [] \<Rightarrow> enc_loop X H fuel n pkt res_pkts ts
      | p # _ \<Rightarrow> thenM (enc_answer X p) (enc_loop X H fuel n p (res_pkts @ [p]) ts)) u \<noteq> NoRet"
    if rec: "receive X H fuel None None 1 (Some pkt) t = Ret pkts u" for pkts u
  proof (rule enc_answered_ends [OF mono again])
    show "cfg_rel s u"
      using cfg.step_trans [OF t(1)] keeps_Ret [OF cfg.keeps_receive [OF hooks_kept [OF C]] rec] .
    have "quota_rel q t u"
      by (rule keeps_Ret [OF mapper_frame.keeps_receive [OF quota_frame hooks_kept [OF quota_frame]] rec])
    with t(2) show "quota_rel q s u" by (simp add: out_rel_def)
    show "now (outside s) + 1 / 100 \<le> now (outside u)"
      using receive_takes_time [OF clock mono rec] t(3) by simp
  qed
  ultimately show ?thesis unfolding bindM_eq_NoRet by blast
qed

lemma enc_loop_ends:
  assumes X: "world_halts X" and clock: "clock_ok X now" and mono: "clock_mono X now"
  shows "enough_turns limit (q (outside s)) fuel \<Longrightarrow> (\<And>req. bound None None req s \<le> limit) \<Longrightarrow>
    bound None None None s + 1 / 100 \<le> of_nat n / 100 + (now (outside s) - ts) \<Longrightarrow> 0 < n \<Longrightarrow>
    enc_loop X H fuel n pkt res_pkts ts s \<noteq> NoRet"
proof (induction n arbitrary: s pkt res_pkts)
  case (Suc n)
  obtain v w where v: "time_time X (outside s) = Ret v w" "now (outside s) \<le> v" "v \<le> now w"
    using clock_time [OF clock] by blast
  let ?s = "s\<lparr>outside := w\<rparr>"
  let ?turn = "bindM (receive X H fuel None None 1 (Some pkt)) (\<lambda>pkts. case pkts of
      [] \<Rightarrow> enc_loop X H fuel n pkt res_pkts ts
    | p # _ \<Rightarrow> thenM (enc_answer X p) (enc_loop X H fuel n p (res_pkts @ [p]) ts))"
  have cfg_s: "cfg_rel s ?s" by (simp add: cfg_rel_def)
  have time: "outM (time_time X) s = Ret v ?s" using v(1) by (simp add: outM_def)
  have quota_s: "quota_rel q s ?s" using quota_time [OF v(1)] by (simp add: out_rel_def)
  have turn: "?turn t \<noteq> NoRet" if d: "rsp_complete H res_pkts (v - ts) None None None ?s = Ret False t" for t
  proof (rule enc_turn_ends [OF X clock mono Suc.prems(1,2)])
    show "cfg_rel s t"
      using cfg_s keeps_Ret [OF decision_frame [OF cfg.mapper_frame_axioms] d] by (rule cfg.step_trans)
    show "quota_rel q s t"
      using quota_s keeps_Ret [OF decision_frame [OF quota_frame] d] by (simp add: out_rel_def)
    show "now (outside s) \<le> now (outside t)"
      using keeps_Ret [OF decision_frame [OF time_frame [OF mono]] d] v by (simp add: out_rel_def)
    have "v - ts < bound None None None s"
      using stops [OF d] bound_cfg [OF cfg_s, of None None None] by force
    then have n: "0 < n" using Suc.prems(3) v(2) by (cases n) auto
    show "enc_loop X H fuel n p ps ts u \<noteq> NoRet"
      if "cfg_rel s u" "quota_rel q s u" "now (outside s) + 1 / 100 \<le> now (outside u)" for p ps u
      using Suc.prems(2,3) that(2,3) bound_cfg [OF that(1)] enough_turns_fewer [OF Suc.prems(1)]
      by (intro Suc.IH n) (simp_all add: out_rel_def field_simps)
  qed
  have "(if b then unitM res_pkts else ?turn) t \<noteq> NoRet"
    if "rsp_complete H res_pkts (v - ts) None None None ?s = Ret b t" for b t
    using turn that by (cases b) (simp_all add: unitM_def)
  moreover have "rsp_complete H res_pkts (v - ts) None None None ?s \<noteq> NoRet"
    by (rule haltsD [OF decision_halts])
  ultimately have "bindM (rsp_complete H res_pkts (v - ts) None None None) (\<lambda>complete.
      if complete then unitM res_pkts else ?turn) ?s \<noteq> NoRet"
    unfolding bindM_eq_NoRet by blast
  with time show ?case by simp
qed simp

end

context timed_stop begin

lemma ll_ctrl_enc_req_ends:
  assumes X: "world_halts X" and clock: "clock_ok X now" and mono: "clock_mono X now"
    and fuel: "enough_turns limit (q (outside s)) fuel"
    and bounds: "\<And>req. bound None None req s \<le> limit"
  shows "ll_ctrl_enc_req X H fuel pkt s \<noteq> NoRet"
proof -
  note C = cfg.mapper_frame_axioms
  let ?pre = "thenM (send X pkt) (upd_conn (\<lambda>c. c\<lparr>enc_tx_pkt_count := 0, enc_rx_pkt_count := 0\<rparr>))"
  have eq: "ll_ctrl_enc_req X H fuel pkt = bindM ?pre (\<lambda>_. bindM (outM (time_time X)) (\<lambda>ts.
      bindM (enc_loop X H fuel fuel pkt [] ts) (output_symbol X)))"
    by (simp add: ll_ctrl_enc_req_def thenM_def bindM_assoc)
  have pre: "keeps cfg_rel ?pre"
    by (intro cfg.mapper_rules cfg.keeps_send conn_step_refl_updates)
  have quota_pre: "keeps (quota_rel q) ?pre"
    by (intro mapper_frame.mapper_rules [OF quota_frame] mapper_frame.keeps_send [OF quota_frame]
        conn_step_refl_updates)
  have "bindM (outM (time_time X)) (\<lambda>ts. bindM (enc_loop X H fuel fuel pkt [] ts) (output_symbol X)) t
      \<noteq> NoRet" if t: "?pre s = Ret u t" for u t
  proof -
    obtain v w where v: "time_time X (outside t) = Ret v w" "v \<le> now w"
      using clock_time [OF clock] by blast
    let ?t = "t\<lparr>outside := w\<rparr>"
    have "cfg_rel s t" by (rule keeps_Ret [OF pre t])
    then have b: "bound smin smax req ?t = bound smin smax req s" for smin smax req
      using bound_cfg [of t ?t] bound_cfg [of s t] by (simp add: cfg_rel_def)
    have "enc_loop X H fuel fuel pkt [] v ?t \<noteq> NoRet"
    proof (rule enc_loop_ends [OF X clock mono])
      have "quota_rel q s t" by (rule keeps_Ret [OF quota_pre t])
      with quota_time [OF v(1)] show "enough_turns limit (q (outside ?t)) fuel"
        by (intro enough_turns_fewer [OF fuel]) (simp add: out_rel_def)
      show "bound None None req ?t \<le> limit" for req unfolding b by (rule bounds)
      show "bound None None None ?t + 1 / 100 \<le> of_nat fuel / 100 + (now (outside ?t) - v)"
        unfolding b using bounds [of None] v(2) enough_turns_once [OF fuel] by (simp add: field_simps)
    qed (rule enough_turns_pos [OF fuel])
    then have "bindM (enc_loop X H fuel fuel pkt [] v) (output_symbol X) ?t \<noteq> NoRet"
      by (simp add: bindM_eq_NoRet haltsD [OF halts_output_symbol])
    with v(1) show ?thesis by (simp add: outM_def bindM_def)
  qed
  moreover have "?pre s \<noteq> NoRet"
    by (intro haltsD [of ?pre] halts_rules halts_send halts_upd_conn X)
  ultimately show ?thesis unfolding eq by (simp add: bindM_eq_NoRet)
qed

end

section \<open>Properties\<close>

text \<open>C11: Both sides derive the same key. The mapper announces its half of the session key diversifier
  and of the IV in the encryption request it builds; when the peripheral's response brings the
  other halves, the mapper's SKD and IV are the announced half followed by the received one, and
  the session key is the block cipher of that SKD under the long term key (both taken in
  big-endian order). While encryption is on, the session key stays what it was.\<close>

theorem enc_key_agreement:
  assumes "connection s = Some c" and "conn_wf c" and "conn_ltk c = VBytes ltk"
    and "mk_packet ''LL_CTRL_ENC_REQ'' s = Ret req s"
    and "layer_attr req LL_ENC_REQ ''skdm'' = Inr (VInt skdm)"
    and "layer_attr req LL_ENC_REQ ''ivm'' = Inr (VInt ivm)"
    and "layer_attr rsp LL_ENC_RSP ''skds'' = Inr (VInt skds)" and "0 \<le> skds" and "skds < 256 ^ 8"
    and "layer_attr rsp LL_ENC_RSP ''ivs'' = Inr (VInt ivs)" and "0 \<le> ivs" and "ivs < 256 ^ 4"
    and "haslayer LL_ENC_RSP rsp"
    and "aes_ecb X (rev ltk) (rev (le_bytes 8 skdm @ le_bytes 8 skds)) = Inr key"
  shows "enc_answer X rsp s =
     Ret () (s\<lparr>connection := Some (c\<lparr>conn_skd := le_bytes 8 skdm @ le_bytes 8 skds,
                                    conn_iv := le_bytes 4 ivm @ le_bytes 4 ivs,
                                    conn_session_key :=
                                      (if encrypted c then conn_session_key c else key)\<rparr>)\<rparr>)"
proof -
  have req: "req = data_pkt c [Layer BTLE_CTRL [], Layer LL_ENC_REQ [(''rand'', VInt 0),
      (''ediv'', VInt 0), (''skdm'', VInt (from_le (take 8 (conn_skd c)))),
      (''ivm'', VInt (from_le (take 4 (conn_iv c))))]]"
    using assms(1,4)
    by (simp add: mk_packet_def sul_packets_def packets_def liftE_def unitM_def ctrl_def)
  have "skdm = from_le (take 8 (conn_skd c))" "ivm = from_le (take 4 (conn_iv c))"
    using assms(5,6)
    by (simp_all add: req layer_attr_def data_pkt_def from_layer_def getattr_def)
  then have "le_bytes 8 skdm = take 8 (conn_skd c)" "le_bytes 4 ivm = take 4 (conn_iv c)"
    using assms(2) le_bytes_from_le [of "take 8 (conn_skd c)"] le_bytes_from_le [of "take 4 (conn_iv c)"]
    by (simp_all add: conn_wf_def)
  with assms show ?thesis
    by (simp add: enc_answer_def pack_val_def struct_pack_le_def liftE_def unitM_def upd_conn_def
        modM_def thenM_def with_conn_def whenM_def reversed_key_def bt_crypto_e_def bindM_def)
qed

definition sim_enc_rsp :: packet where
  "sim_enc_rsp = [Layer BTLE [(''access_addr'', VInt 7)], Layer BTLE_DATA [],
     Layer BTLE_CTRL [(''opcode'', VInt 4)], Layer LL_ENC_RSP [(''skds'', VInt 5), (''ivs'', VInt 6)]]"

theorem enc_key_agreement_witness:
  "\<exists>key. enc_answer sim_env sim_enc_rsp (sim_sul sim0 (reset_conn sim_addr 7)) =
     Ret () ((sim_sul sim0 (reset_conn sim_addr 7))
       \<lparr>connection := Some ((reset_conn sim_addr 7)
          \<lparr>conn_skd := le_bytes 8 0 @ le_bytes 8 5, conn_iv := le_bytes 4 0 @ le_bytes 4 6,
           conn_session_key := key\<rparr>)\<rparr>)"
proof -
  let ?c = "reset_conn sim_addr 7"
  let ?req = "data_pkt ?c [Layer BTLE_CTRL [], Layer LL_ENC_REQ [(''rand'', VInt 0),
      (''ediv'', VInt 0), (''skdm'', VInt 0), (''ivm'', VInt 0)]]"
  have zero: "from_le (take 8 (zeros 16)) = 0" "from_le (take 4 (zeros 8)) = 0"
    by code_simp+
  have c: "conn_skd ?c = zeros 16" "conn_iv ?c = zeros 8" "conn_ltk ?c = VBytes (zeros 16)"
    "\<not> encrypted ?c" "conn_wf ?c"
    by (simp_all add: reset_conn_def conn_wf_def zeros_def)
  have req: "mk_packet ''LL_CTRL_ENC_REQ'' (sim_sul sim0 ?c) = Ret ?req (sim_sul sim0 ?c)"
    by (simp add: mk_packet_def sul_packets_def packets_def liftE_def unitM_def ctrl_def c zero)
  have aes: "\<exists>key. aes_ecb sim_env (rev (zeros 16)) (rev (le_bytes 8 0 @ le_bytes 8 5)) = Inr key"
    by (simp add: sim_env_def)
  then obtain key where
      "aes_ecb sim_env (rev (zeros 16)) (rev (le_bytes 8 0 @ le_bytes 8 5)) = Inr key" by blast
  with enc_key_agreement [OF sim_sul_simps(1) c(5,3) req, of 0 0 sim_enc_rsp 5 6 sim_env key] c(4)
  show ?thesis
    by (auto simp: data_pkt_def layer_attr_def from_layer_def getattr_def sim_enc_rsp_def
        haslayer_def simp del: le_bytes.simps)
qed

lemma filter_colon_hex: "filter (\<lambda>x. x \<noteq> CHR '':'') (byte_hex b) = byte_hex b"
proof -
  have "unat b div 16 < 16" "unat b mod 16 < 16" using unat_byte_less [of b] by auto
  then show ?thesis by (simp add: byte_hex_def hex_digit_not_colon)
qed

text \<open>C40: The security manager gets the address the packets carry. The text form in which \<open>reset\<close>
  makes up the central's address is taken apart again into exactly the random bytes it was made
  of when pairing starts.\<close>

theorem address_roundtrip: "address_bytes (address_string bs) = Inr bs"
proof -
  have "filter (\<lambda>x. x \<noteq> CHR '':'') (py_join '':'' (map byte_hex bs)) = concat (map byte_hex bs)"
    by (induction bs rule: induct_list012) (simp_all add: filter_colon_hex)
  then show ?thesis
    by (simp add: address_bytes_def address_string_def py_replace_drop_char fromhex_hex)
qed

text \<open>The address type follows the last advertisement. After a scan request, the type used in
  later packets is the \<open>TxAdd\<close> of the last packet that carries the peripheral's address; when no
  packet does, it stays. The packets themselves go on unchanged.\<close>

theorem scan_sets_address_type:
  assumes "\<And>p. p \<in> set pkts \<Longrightarrow> tells_address_type s p \<Longrightarrow> getattr p ''TxAdd'' = Inr (tx p)"
  shows "ll_adv_scan_req_post pkts s =
     Ret pkts (s\<lparr>peripheral_address_is_rand :=
       last (peripheral_address_is_rand s # map tx (filter (tells_address_type s) pkts))\<rparr>)"
proof -
  let ?f = "\<lambda>pkt. bindM (getM (\<lambda>s. tells_address_type s pkt)) (\<lambda>b. whenM b
      (bindM (liftE (getattr pkt ''TxAdd'')) (\<lambda>v. modM (\<lambda>s. s\<lparr>peripheral_address_is_rand := v\<rparr>))))"
  have tells: "tells_address_type (s\<lparr>peripheral_address_is_rand := v\<rparr>) = tells_address_type s" for v
    by (simp add: tells_address_type_def fun_eq_iff split: option.split)
  have "forM ps ?f (s\<lparr>peripheral_address_is_rand := v\<rparr>) =
      Ret () (s\<lparr>peripheral_address_is_rand := last (v # map tx (filter (tells_address_type s) ps))\<rparr>)"
    if "set ps \<subseteq> set pkts" for ps v
    using that
  proof (induction ps arbitrary: v)
    case (Cons p ps)
    then have IH: "forM ps ?f (s\<lparr>peripheral_address_is_rand := u\<rparr>) =
      Ret () (s\<lparr>peripheral_address_is_rand := last (u # map tx (filter (tells_address_type s) ps))\<rparr>)"
      for u by simp
    have "?f p (s\<lparr>peripheral_address_is_rand := v\<rparr>) =
        Ret () (s\<lparr>peripheral_address_is_rand := if tells_address_type s p then tx p else v\<rparr>)"
      using assms [of p] Cons.prems
      by (simp add: bindM_def getM_def whenM_def liftE_def unitM_def modM_def tells)
    then have "forM (p # ps) ?f (s\<lparr>peripheral_address_is_rand := v\<rparr>) =
        forM ps ?f (s\<lparr>peripheral_address_is_rand := if tells_address_type s p then tx p else v\<rparr>)"
      by (simp add: thenM_def)
    then show ?case unfolding IH by simp
  qed (simp add: unitM_def)
  from this [of pkts "peripheral_address_is_rand s"] show ?thesis
    by (simp add: ll_adv_scan_req_post_def thenM_def bindM_def unitM_def)
qed

theorem scan_sets_address_type_witness:
  "ll_adv_scan_req_post [[Layer BTLE [], Layer BTLE_ADV [(''TxAdd'', VInt 0)],
       Layer BTLE_SCAN_RSP [(''AdvA'', VStr sim_addr)]]] (sim_sul sim0 sim_conn) =
     Ret [[Layer BTLE [], Layer BTLE_ADV [(''TxAdd'', VInt 0)],
       Layer BTLE_SCAN_RSP [(''AdvA'', VStr sim_addr)]]]
       ((sim_sul sim0 sim_conn)\<lparr>peripheral_address_is_rand := VInt 0\<rparr>)"
  using scan_sets_address_type [of "[[Layer BTLE [], Layer BTLE_ADV [(''TxAdd'', VInt 0)],
       Layer BTLE_SCAN_RSP [(''AdvA'', VStr sim_addr)]]]" "sim_sul sim0 sim_conn" "\<lambda>_. VInt 0"]
  by (simp add: tells_address_type_def haslayer_def getattr_def)

end
