(* ===== verification/Session.thy ===== *)
theory Session
  imports Steps
begin

text \<open>
  A test run as the learner drives it, \<open>pre\<close>, \<open>step\<close>, \<open>post\<close>, \<open>close\<close> of
  py/BLESUL.py with \<open>reset\<close>, \<open>step_internal\<close> and \<open>retry_sequence\<close>. What a subclass may
  override is a record of methods (\<open>cls\<close>); theory Mappers fills it in for each class.
\<close>

section \<open>A mapper class\<close>

text \<open>
  The methods looked up by name (\<open>hasattr\<close>, \<open>getattr\<close>): one for a whole input symbol, those
  run before sending (\<open>_pre\<close>) and those run on the response (\<open>_post\<close>); \<open>is_last_sym_suspicious\<close>,
  and \<open>pre\<close>.
\<close>

record 'w cls =
  hooks_of :: "'w hooks"
  whole_method :: "string \<Rightarrow> (packet \<Rightarrow> ('w, string) sulM) option"
  pre_method :: "string \<Rightarrow> (packet \<Rightarrow> ('w, packet) sulM) option"
  post_method :: "string \<Rightarrow> (packet list \<Rightarrow> ('w, packet list) sulM) option"
  is_last_sym_suspicious :: "('w, bool) sulM"
  pre_run :: "('w, unit) sulM"

section \<open>Reset\<close>

text \<open>The new addresses and the fresh state of a connection.\<close>

definition random_address :: "'w env \<Rightarrow> ('w, string) sulM" where
  "random_address X =
     bindM (foldM (replicate 6 ()) (\<lambda>_ bs. bindM (outM (rand_byte X)) (\<lambda>b. unitM (bs @ [b]))) [])
       (\<lambda>bs. unitM (address_string bs))"

definition new_connection :: "'w env \<Rightarrow> ('w, unit) sulM" where
  "new_connection X =
     bindM (random_address X) (\<lambda>ca.
     bindM (outM (rand_bits32 X)) (\<lambda>aa.
       modM (\<lambda>s. s\<lparr>connection := Some (reset_conn ca aa),
                    input_sequence := [], output_sequence := []\<rparr>)))"

text \<open>\<open>min(2.0, self.recv_s_min * pow(2, i))\<close>\<close>

definition scan_wait :: "rat \<Rightarrow> nat \<Rightarrow> rat" where
  "scan_wait smin i = min 2 (smin * 2 ^ i)"

text \<open>The \<open>for\<close> loop of the scan attempts: \<open>n\<close> attempts are left, from attempt \<open>i\<close> on.\<close>

fun scan_loop :: "'w env \<Rightarrow> 'w hooks \<Rightarrow> nat \<Rightarrow> nat \<Rightarrow> nat \<Rightarrow> ('w, unit) sulM" where
  "scan_loop X H fuel i 0 =
     raiseM (RuntimeError
       ''RESET: PROBLEM: CANNOT GET A SCAN RESPONSE FROM THE DEVICE DURING RESET'')"
| "scan_loop X H fuel i (Suc n) =
     bindM (mk_packet ''LL_ADV_SCAN_REQ'') (\<lambda>scan_pkt.
     thenM (send X scan_pkt)
     (bindM (getM (\<lambda>s. scan_wait (recv_s_min s) i)) (\<lambda>smin.
      bindM (receive X H fuel (Some smin) None 0 (Some scan_pkt)) (\<lambda>scan_res.
        if list_ex (haslayer BTLE_SCAN_RSP) scan_res then unitM ()
        else thenM (whenM (i \<ge> 28) (reset_device X fuel)) (scan_loop X H fuel (Suc i) n)))))"

definition reset :: "'w env \<Rightarrow> 'w hooks \<Rightarrow> nat \<Rightarrow> ('w, unit) sulM" where
  "reset X H fuel =
     bindM (getM (\<lambda>s. connection s \<noteq> None)) (\<lambda>connected.
     thenM (whenM connected
       (bindM (mk_packet ''LL_CTRL_TERMINATE_IND'') (\<lambda>pkt.
        thenM (send X pkt)
          (bindM (getM recv_s_min) (\<lambda>d. outM (time_sleep X d))))))
     (thenM (new_connection X) (scan_loop X H fuel 0 32)))"

text \<open>\<open>pre\<close>: the traceback is printed and the exception raised again.\<close>

definition pre :: "'w env \<Rightarrow> 'w hooks \<Rightarrow> nat \<Rightarrow> ('w, unit) sulM" where
  "pre X H fuel = tryM (reset X H fuel) raiseM"

definition post :: "('w, unit) sulM" where
  "post = unitM ()"

section \<open>Steps\<close>

text \<open>From the input symbol to the output symbol.\<close>

definition run_symbol :: "'w env \<Rightarrow> 'w cls \<Rightarrow> nat \<Rightarrow> string \<Rightarrow> ('w, string) sulM" where
  "run_symbol X C fuel input_symbol =
     bindM (mk_packet input_symbol) (\<lambda>pkt.
       case whole_method C (py_lower input_symbol) of
         Some m \<Rightarrow> m pkt
       | None \<Rightarrow>
           bindM (case pre_method C (py_lower input_symbol @ ''_pre'') of
                    Some m \<Rightarrow> m pkt | None \<Rightarrow> unitM pkt) (\<lambda>pkt.
           thenM (send X pkt)
           (bindM (receive X (hooks_of C) fuel None None 0 (Some pkt)) (\<lambda>res_pkts.
            bindM (case post_method C (py_lower input_symbol @ ''_post'') of
                     Some m \<Rightarrow> m res_pkts | None \<Rightarrow> unitM res_pkts)
              (output_symbol X)))))"

definition record_symbols :: "string \<Rightarrow> string \<Rightarrow> ('w, unit) sulM" where
  "record_symbols i out =
     modM (\<lambda>s. s\<lparr>input_sequence := input_sequence s @ [i],
                  output_sequence := output_sequence s @ [out]\<rparr>)"

text \<open>\<open>step_internal\<close>, with the retry it may start as an argument.\<close>

definition step_with ::
  "('w, string) sulM \<Rightarrow> 'w env \<Rightarrow> 'w cls \<Rightarrow> nat \<Rightarrow> string \<Rightarrow> ('w, string) sulM"
where
  "step_with retry X C fuel input_symbol =
     bindM (run_symbol X C fuel input_symbol) (\<lambda>out.
     thenM (record_symbols input_symbol out)
     (bindM (getM is_retry_running) (\<lambda>running.
        if running then unitM out
        else bindM (is_last_sym_suspicious C) (\<lambda>suspicious.
               if suspicious then retry else unitM out))))"

text \<open>The filtered symbols but the last, which a retry must reproduce.\<close>

definition earlier_symbols :: "string list \<Rightarrow> string list \<Rightarrow> string list" where
  "earlier_symbols filters out = map (\<lambda>o1. filter_symbol o1 filters) (butlast out)"

text \<open>
  One turn of the loop of \<open>retry_sequence\<close>, with \<open>attempt\<close> already counted and \<open>stepf\<close>
  for \<open>step_internal\<close>; the result says whether the loop goes on. Then the loop, with fuel \<open>n\<close>.
\<close>

definition retry_attempt ::
  "'w env \<Rightarrow> 'w cls \<Rightarrow> nat \<Rightarrow> (string \<Rightarrow> ('w, string) sulM) \<Rightarrow> string list \<Rightarrow> string list \<Rightarrow>
   nat \<Rightarrow> ('w, bool) sulM"
where
  "retry_attempt X C fuel stepf seq_in seq_out attempt =
     thenM post
     (thenM (whenM (attempt \<ge> 4) (reset_device X fuel))
     (thenM (modM (is_retry_running_update (\<lambda>_. True)))
     (thenM (pre_run C)
     (thenM (forM seq_in (\<lambda>sym_in. bindM (stepf sym_in) (\<lambda>_. unitM ())))
     (bindM (getM (\<lambda>s. earlier_symbols (output_symbol_filters s) seq_out \<noteq>
                        earlier_symbols (output_symbol_filters s) (output_sequence s))) (\<lambda>messed_up.
        if messed_up then unitM (attempt < 7)
        else bindM (is_last_sym_suspicious C) (\<lambda>suspicious.
               unitM (suspicious \<and> attempt < 6))))))))"

fun retry_loop ::
  "'w env \<Rightarrow> 'w cls \<Rightarrow> nat \<Rightarrow> (string \<Rightarrow> ('w, string) sulM) \<Rightarrow> string list \<Rightarrow> string list \<Rightarrow>
   nat \<Rightarrow> nat \<Rightarrow> ('w, unit) sulM"
where
  "retry_loop X C fuel stepf seq_in seq_out attempt 0 = (\<lambda>s. NoRet)"
| "retry_loop X C fuel stepf seq_in seq_out attempt (Suc n) =
     bindM (retry_attempt X C fuel stepf seq_in seq_out (attempt + 1)) (\<lambda>go_on.
       if go_on then retry_loop X C fuel stepf seq_in seq_out (attempt + 1) n else unitM ())"

definition retry_sequence ::
  "'w env \<Rightarrow> 'w cls \<Rightarrow> nat \<Rightarrow> (string \<Rightarrow> ('w, string) sulM) \<Rightarrow> ('w, string) sulM"
where
  "retry_sequence X C fuel stepf =
     bindM (getM input_sequence) (\<lambda>seq_in.
     bindM (getM output_sequence) (\<lambda>seq_out.
     thenM (retry_loop X C fuel stepf seq_in seq_out 0 fuel)
     (thenM (modM (is_retry_running_update (\<lambda>_. False)))
     (bindM (getM output_sequence) (\<lambda>out. liftE (py_last out))))))"

text \<open>
  The two methods call each other. The number bounds how deep retries may nest; theorem
  \<open>retries_do_not_nest\<close> shows that the bound is never met.
\<close>

fun step_internal :: "'w env \<Rightarrow> 'w cls \<Rightarrow> nat \<Rightarrow> nat \<Rightarrow> string \<Rightarrow> ('w, string) sulM" where
  "step_internal X C fuel 0 = step_with (\<lambda>s. NoRet) X C fuel"
| "step_internal X C fuel (Suc d) =
     step_with (retry_sequence X C fuel (step_internal X C fuel d)) X C fuel"

definition step :: "'w env \<Rightarrow> 'w cls \<Rightarrow> nat \<Rightarrow> string \<Rightarrow> ('w, string) sulM" where
  "step X C fuel input_symbol =
     tryM (bindM (step_internal X C fuel 1 input_symbol) (\<lambda>out.
           bindM (getM output_symbol_filters) (\<lambda>filters. unitM (filter_symbol out filters))))
          raiseM"

section \<open>Close\<close>

text \<open>The total of the reset breaks, as \<open>close\<close> prints it.\<close>

definition total_pause_time :: "'w sul \<Rightarrow> rat" where
  "total_pause_time s = fold (\<lambda>(pause_start, pause_end) t. t + (pause_end - pause_start)) (reset_breaks s) 0"

definition close :: "'w env \<Rightarrow> ('w, unit) sulM" where
  "close X =
     thenM (outM (time_time X)) (thenM (save_pcap X ''BLESUL_io.pcapng'') (close_nrf X))"

section \<open>The retries are bounded\<close>

lemma retry_attempt_goes_on:
  assumes "retry_attempt X C fuel stepf seq_in seq_out attempt s = Ret True t"
  shows "attempt < 7"
  using assms by (auto simp: retry_attempt_def ret_simps split: if_splits)

lemma retry_loop_fuel:
  "a < 7 \<Longrightarrow> 7 \<le> a + n \<Longrightarrow> 7 \<le> a + m \<Longrightarrow>
   retry_loop X C fuel stepf seq_in seq_out a n s = retry_loop X C fuel stepf seq_in seq_out a m s"
proof (induction n arbitrary: a m s)
  case (Suc n)
  then obtain k where m: "m = Suc k" by (cases m) auto
  show ?case
  proof (cases "retry_attempt X C fuel stepf seq_in seq_out (a + 1) s")
    case (Ret go_on t)
    have "retry_loop X C fuel stepf seq_in seq_out (a + 1) n t =
        retry_loop X C fuel stepf seq_in seq_out (a + 1) k t" if go_on
      using retry_attempt_goes_on [of X C fuel stepf seq_in seq_out "a + 1" s t] Ret that Suc.prems m
      by (intro Suc.IH) auto
    with Ret m show ?thesis by simp
  qed (simp_all add: m)
qed simp

text \<open>A suspicious sequence is tried at most seven times: whatever the device answers, the retry
  loop behaves the same with any number of attempts allowed from seven on.\<close>

theorem retries_bounded:
  "retry_loop X C fuel stepf seq_in seq_out 0 (7 + n) s =
   retry_loop X C fuel stepf seq_in seq_out 0 7 s"
  by (rule retry_loop_fuel) simp_all

section \<open>Frames\<close>

text \<open>A class whose methods respect \<open>R\<close>.\<close>

definition cls_keep :: "('w sul \<Rightarrow> 'w sul \<Rightarrow> bool) \<Rightarrow> 'w cls \<Rightarrow> bool" where
  "cls_keep R C \<longleftrightarrow>
     hooks_keep R (hooks_of C) \<and>
     (\<forall>name m pkt. whole_method C name = Some m \<longrightarrow> keeps R (m pkt)) \<and>
     (\<forall>name m pkt. pre_method C name = Some m \<longrightarrow> keeps R (m pkt)) \<and>
     (\<forall>name m pkts. post_method C name = Some m \<longrightarrow> keeps R (m pkts)) \<and>
     keeps R (is_last_sym_suspicious C)"

context mapper_frame begin

lemma keeps_scan_loop: "hooks_keep R H \<Longrightarrow> keeps R (scan_loop X H fuel i n)"
proof (induction n arbitrary: i)
  case (Suc n)
  then show ?case unfolding scan_loop.simps
    by (intro mapper_rules keeps_send keeps_receive keeps_reset_device)
qed (simp add: keeps_raiseM)

lemma keeps_run_symbol:
  assumes "cls_keep R C"
  shows "keeps R (run_symbol X C fuel i)"
proof -
  have whole: "keeps R (m pkt)" if "whole_method C name = Some m" for name m pkt
    using assms that by (auto simp: cls_keep_def)
  have pre: "keeps R (case pre_method C name of Some m \<Rightarrow> m pkt | None \<Rightarrow> unitM pkt)" for name pkt
    using assms by (auto simp: cls_keep_def keeps_unitM split: option.split)
  have post: "keeps R (case post_method C name of Some m \<Rightarrow> m pkts | None \<Rightarrow> unitM pkts)" for name pkts
    using assms by (auto simp: cls_keep_def keeps_unitM split: option.split)
  have hooks: "hooks_keep R (hooks_of C)" using assms by (simp add: cls_keep_def)
  have rest: "keeps R (bindM (case pre_method C name of Some m \<Rightarrow> m pkt | None \<Rightarrow> unitM pkt) (\<lambda>pkt.
      thenM (send X pkt) (bindM (receive X (hooks_of C) fuel None None 0 (Some pkt)) (\<lambda>res_pkts.
        bindM (case post_method C name' of Some m \<Rightarrow> m res_pkts | None \<Rightarrow> unitM res_pkts)
          (output_symbol X)))))" for name name' pkt
    by (intro mapper_rules pre post keeps_send keeps_receive hooks keeps_output_symbol)
  show ?thesis unfolding run_symbol_def
  proof (intro mapper_rules)
    fix pkt
    show "keeps R (case whole_method C (py_lower i) of Some m \<Rightarrow> m pkt | None \<Rightarrow>
        bindM (case pre_method C (py_lower i @ ''_pre'') of Some m \<Rightarrow> m pkt | None \<Rightarrow> unitM pkt)
          (\<lambda>pkt. thenM (send X pkt)
            (bindM (receive X (hooks_of C) fuel None None 0 (Some pkt)) (\<lambda>res_pkts.
              bindM (case post_method C (py_lower i @ ''_post'') of
                       Some m \<Rightarrow> m res_pkts | None \<Rightarrow> unitM res_pkts)
                (output_symbol X)))))"
      using rest by (cases "whole_method C (py_lower i)") (simp_all add: whole)
  qed
qed

end

text \<open>Relations that a reset respects as well, and those that a whole run respects.\<close>

locale reset_frame = step_frame +
  assumes R_new: "R s (s\<lparr>connection := Some (reset_conn ca aa),
                         input_sequence := [], output_sequence := []\<rparr>)"
    and R_wait: "keeps R (bindM (getM recv_s_min) (\<lambda>d. outM (time_sleep X d)))"
begin

lemma keeps_new_connection: "keeps R (new_connection X)"
  unfolding new_connection_def random_address_def by (intro mapper_rules keeps_modM R_new)

lemma keeps_reset: "hooks_keep R H \<Longrightarrow> keeps R (reset X H fuel)"
  unfolding reset_def
  by (intro comp_rules keeps_mk_packet keeps_send R_wait keeps_new_connection keeps_scan_loop)

lemma keeps_pre: "hooks_keep R H \<Longrightarrow> keeps R (pre X H fuel)"
  unfolding pre_def by (intro comp_rules keeps_reset)

end

locale run_frame = reset_frame +
  assumes R_record: "R s (s\<lparr>input_sequence := input_sequence s @ [i],
                            output_sequence := output_sequence s @ [out]\<rparr>)"
    and R_flag: "R s (s\<lparr>is_retry_running := b\<rparr>)"
begin

lemma keeps_record_symbols: "keeps R (record_symbols i out)"
  unfolding record_symbols_def by (intro keeps_modM R_record)

lemma keeps_step_with:
  "cls_keep R C \<Longrightarrow> keeps R retry \<Longrightarrow> keeps R (step_with retry X C fuel i)"
  unfolding step_with_def
  by (intro comp_rules keeps_run_symbol keeps_record_symbols) (simp_all add: cls_keep_def)

lemma keeps_retry_attempt:
  assumes "cls_keep R C" "keeps R (pre_run C)" "\<And>i. keeps R (stepf i)"
  shows "keeps R (retry_attempt X C fuel stepf seq_in seq_out attempt)"
  unfolding retry_attempt_def post_def
  by (intro comp_rules keeps_reset_device keeps_modM R_flag assms)
     (use assms in \<open>simp add: cls_keep_def\<close>)

lemma keeps_retry_loop:
  assumes "cls_keep R C" "keeps R (pre_run C)" "\<And>i. keeps R (stepf i)"
  shows "keeps R (retry_loop X C fuel stepf seq_in seq_out attempt n)"
proof (induction n arbitrary: attempt)
  case (Suc n)
  then show ?case unfolding retry_loop.simps by (intro comp_rules keeps_retry_attempt assms)
qed (simp add: keeps_def)

lemma keeps_retry_sequence:
  assumes "cls_keep R C" "keeps R (pre_run C)" "\<And>i. keeps R (stepf i)"
  shows "keeps R (retry_sequence X C fuel stepf)"
  unfolding retry_sequence_def by (intro comp_rules keeps_retry_loop assms keeps_modM R_flag)

lemma keeps_step_internal:
  assumes "cls_keep R C" "keeps R (pre_run C)"
  shows "keeps R (step_internal X C fuel d i)"
proof (induction d arbitrary: i)
  case 0
  show ?case unfolding step_internal.simps
    by (intro keeps_step_with assms) (simp add: keeps_def)
next
  case (Suc d)
  then show ?case unfolding step_internal.simps
    by (intro keeps_step_with keeps_retry_sequence assms)
qed

lemma keeps_step: "cls_keep R C \<Longrightarrow> keeps R (pre_run C) \<Longrightarrow> keeps R (step X C fuel i)"
  unfolding step_def by (intro comp_rules keeps_step_internal)

end

text \<open>
  The configuration is respected by all of these, the retry flag by resets, and the sizes of the
  key material and the symbols table by whole runs.
\<close>

definition conf_rel :: "'w sul \<Rightarrow> 'w sul \<Rightarrow> bool" where
  "conf_rel s t \<longleftrightarrow>
     peripheral_address t = peripheral_address s \<and>
     central_address_is_rand t = central_address_is_rand s \<and>
     recv_s_min t = recv_s_min s \<and> recv_s_max t = recv_s_max s \<and>
     output_symbol_filters t = output_symbol_filters s \<and> test_start_time t = test_start_time s \<and>
     reset_cmd t = reset_cmd s \<and> logs_pcap t = logs_pcap s"

definition set_rel :: "'w sul \<Rightarrow> 'w sul \<Rightarrow> bool" where
  "set_rel s t \<longleftrightarrow> conf_rel s t \<and> is_retry_running t = is_retry_running s"

lemma cfg_set_rel: "cfg_rel s t \<Longrightarrow> set_rel s t"
  by (simp add: cfg_rel_def set_rel_def conf_rel_def)

lemma drv_set_rel: "drv_frame s t \<Longrightarrow> set_rel s t"
  by (rule cfg_set_rel) (rule drv_cfg_rel)

lemma keeps_wait:
  fixes R :: "'w sul \<Rightarrow> 'w sul \<Rightarrow> bool"
  assumes "\<And>s w. R s (s\<lparr>outside := w\<rparr>)"
  shows "keeps R (bindM (getM recv_s_min) (\<lambda>d. outM (time_sleep X d)))"
proof (rule keepsI)
  fix s t :: "'w sul"
  assume "final (bindM (getM recv_s_min) (\<lambda>d. outM (time_sleep X d)) s) = Some t"
  with keeps_outM [of R "time_sleep X (recv_s_min s)", OF assms] show "R s t"
    by (simp add: bindM_def getM_def keeps_def)
qed

interpretation conf: run_frame conf_rel X for X :: "'w env"
proof (intro run_frame.intro reset_frame.intro run_frame_axioms.intro reset_frame_axioms.intro
    step_frameI)
  show "conf_rel s t" if "drv_frame s t" for s t :: "'w sul"
    using drv_set_rel [OF that] by (simp add: set_rel_def)
qed (auto intro: keeps_wait simp: conf_rel_def)

interpretation settings: reset_frame set_rel X for X :: "'w env"
proof (intro reset_frame.intro reset_frame_axioms.intro step_frameI)
  show "set_rel s t" if "drv_frame s t" for s t :: "'w sul" by (rule drv_set_rel [OF that])
qed (auto intro: keeps_wait simp: set_rel_def conf_rel_def)

interpretation symtab: run_frame sym_rel X for X :: "'w env"
  by unfold_locales (auto intro: keeps_wait simp: sym_rel_def)

lemma reset_conn_wf: "conn_wf (reset_conn ca aa)"
  by (simp add: conn_wf_def reset_conn_def zeros_def)

interpretation wf: run_frame wf_rel X for X :: "'w env"
  by unfold_locales (auto intro: keeps_wait simp: wf_rel_def sul_wf_def reset_conn_wf)

section \<open>What a reset leaves\<close>

lemma new_connection_Ret:
  assumes "new_connection X s = Ret () t"
  shows "\<exists>ca aa. connection t = Some (reset_conn ca aa) \<and> input_sequence t = [] \<and> output_sequence t = []"
  using assms by (auto simp: new_connection_def bindM_eq_Ret modM_def) blast

lemma reset_Ret:
  assumes H: "\<And>R. mapper_frame R X \<Longrightarrow> hooks_keep R H" and r: "reset X H fuel s = Ret () t"
  shows "\<exists>v ca aa c. connection v = Some (reset_conn ca aa) \<and> input_sequence v = [] \<and>
    output_sequence v = [] \<and> scan_loop X H fuel 0 32 v = Ret () t \<and>
    connection t = Some c \<and> conn_step (smp_speaks X) (reset_conn ca aa) c \<and>
    input_sequence t = [] \<and> output_sequence t = []"
proof -
  obtain u v where u: "new_connection X u = Ret () v" and v: "scan_loop X H fuel 0 32 v = Ret () t"
    using r unfolding reset_def bindM_eq_Ret thenM_eq_Ret getM_def by auto
  obtain ca aa where new: "connection v = Some (reset_conn ca aa)"
      "input_sequence v = []" "output_sequence v = []"
    using new_connection_Ret [OF u] by blast
  have "key_rel (smp_speaks X) v t"
    by (rule keeps_Ret [OF keys.keeps_scan_loop [OF H [OF keys.mapper_frame_axioms]] v])
  then obtain c where "connection t = Some c" "conn_step (smp_speaks X) (reset_conn ca aa) c"
    using new(1) by (cases "connection t") (auto simp: key_rel_def)
  moreover have "cfg_rel v t"
    by (rule keeps_Ret [OF cfg.keeps_scan_loop [OF H [OF cfg.mapper_frame_axioms]] v])
  ultimately show ?thesis using new v by (auto simp: cfg_rel_def)
qed

lemma pre_Ret: "pre X H fuel s = Ret () t \<Longrightarrow> reset X H fuel s = Ret () t"
  by (auto simp: pre_def tryM_def raiseM_def split: res.splits)

section \<open>The contract of a mapper class\<close>

text \<open>
  A class whose methods are made of sends, receives and updates of the connection, and whose
  \<open>pre\<close> starts a new sequence under the same settings. Every class of the program meets it
  (theory Mappers); what follows from it is proved here once.
\<close>

locale mapper_class =
  fixes X :: "'w env" and C :: "'w cls"
  assumes class_frame: "step_frame R X \<Longrightarrow> cls_keep R C"
    and pre_frame: "reset_frame R X \<Longrightarrow> keeps R (pre_run C)"
    and pre_fresh: "pre_run C s = Ret () t \<Longrightarrow> input_sequence t = [] \<and> output_sequence t = []"
begin

lemma run_symbol_cfg: "run_symbol X C fuel i s = Ret out t \<Longrightarrow> cfg_rel s t"
  by (rule keeps_Ret [OF cfg.keeps_run_symbol [OF class_frame [OF cfg.step_frame_axioms]]])

lemma suspicious_cfg: "is_last_sym_suspicious C s = Ret b t \<Longrightarrow> cfg_rel s t"
proof -
  have "cls_keep cfg_rel C" by (rule class_frame [OF cfg.step_frame_axioms])
  then have "keeps cfg_rel (is_last_sym_suspicious C)" by (simp add: cls_keep_def)
  then show "is_last_sym_suspicious C s = Ret b t \<Longrightarrow> cfg_rel s t" by (rule keeps_Ret)
qed

text \<open>While a retry is running, a step records its symbols and starts no other retry.\<close>

lemma step_while_retrying:
  assumes flag: "is_retry_running s" and r: "step_with retry X C fuel i s = Ret out t"
  shows "input_sequence t = input_sequence s @ [i] \<and>
    output_sequence t = output_sequence s @ [out] \<and> set_rel s t"
proof -
  obtain u where u: "run_symbol X C fuel i s = Ret out u"
    and t: "t = u\<lparr>input_sequence := input_sequence u @ [i],
                  output_sequence := output_sequence u @ [out]\<rparr>"
    using r flag run_symbol_cfg
    by (auto simp: step_with_def bindM_eq_Ret thenM_eq_Ret record_symbols_def modM_def getM_def
        cfg_rel_def split: if_splits)
  show ?thesis using run_symbol_cfg [OF u] by (simp add: t cfg_rel_def set_rel_def conf_rel_def)
qed

lemma step_with_irrelevant:
  assumes flag: "is_retry_running s"
  shows "step_with retry X C fuel i s = step_with retry' X C fuel i s"
proof (cases "run_symbol X C fuel i s")
  case (Ret out u)
  then have "is_retry_running u" using run_symbol_cfg [OF Ret] flag by (simp add: cfg_rel_def)
  with Ret show ?thesis
    by (simp add: step_with_def thenM_def record_symbols_def modM_def getM_def bindM_def)
qed (simp_all add: step_with_def)

text \<open>The replay of the sequence in one attempt.\<close>

lemma replay:
  assumes stepf: "\<And>i u out v. is_retry_running u \<Longrightarrow> stepf i u = Ret out v \<Longrightarrow>
      input_sequence v = input_sequence u @ [i] \<and> output_sequence v = output_sequence u @ [out] \<and>
      set_rel u v"
  shows "is_retry_running s \<Longrightarrow> forM xs (\<lambda>i. bindM (stepf i) (\<lambda>_. unitM ())) s = Ret () t \<Longrightarrow>
    input_sequence t = input_sequence s @ xs \<and>
    length (output_sequence t) = length (output_sequence s) + length xs \<and> set_rel s t"
proof (induction xs arbitrary: s)
  case Nil
  then show ?case by (simp add: settings.step_refl)
next
  case (Cons x xs)
  then obtain out u where u: "stepf x s = Ret out u"
      and rest: "forM xs (\<lambda>i. bindM (stepf i) (\<lambda>_. unitM ())) u = Ret () t"
    by (auto simp: thenM_eq_Ret bindM_eq_Ret)
  have "is_retry_running u"
    using stepf [OF Cons.prems(1) u] Cons.prems(1) by (simp add: set_rel_def)
  from Cons.IH [OF this rest] stepf [OF Cons.prems(1) u] show ?case
    by (auto intro: settings.step_trans)
qed

lemma replay_cong:
  assumes stepf: "\<And>i u. is_retry_running u \<Longrightarrow> stepf i u = stepf' i u"
    and flag: "\<And>i u out v. is_retry_running u \<Longrightarrow> stepf i u = Ret out v \<Longrightarrow> is_retry_running v"
  shows "is_retry_running s \<Longrightarrow>
    forM xs (\<lambda>i. bindM (stepf i) (\<lambda>_. unitM ())) s = forM xs (\<lambda>i. bindM (stepf' i) (\<lambda>_. unitM ())) s"
proof (induction xs arbitrary: s)
  case (Cons x xs)
  show ?case
  proof (cases "stepf x s")
    case (Ret out u)
    moreover have "stepf' x s = Ret out u" using Ret stepf [OF Cons.prems] by simp
    moreover have "is_retry_running u" by (rule flag [OF Cons.prems Ret])
    ultimately show ?thesis using Cons.IH by (simp add: thenM_def)
  next
    case (Raise e u)
    moreover have "stepf' x s = Raise e u" using Raise stepf [OF Cons.prems] by simp
    ultimately show ?thesis by (simp add: thenM_def)
  next
    case NoRet
    moreover have "stepf' x s = NoRet" using NoRet stepf [OF Cons.prems] by simp
    ultimately show ?thesis by (simp add: thenM_def)
  qed
qed simp

end

section \<open>Retries\<close>

text \<open>
  \<open>sequences s\<close>: as many output symbols as input symbols. A step function \<open>records\<close> if, while a
  retry is running, it appends its symbols and leaves the settings.
\<close>

definition records :: "(string \<Rightarrow> ('w, string) sulM) \<Rightarrow> bool" where
  "records stepf \<longleftrightarrow>
     (\<forall>i s out t. is_retry_running s \<longrightarrow> stepf i s = Ret out t \<longrightarrow>
        input_sequence t = input_sequence s @ [i] \<and> output_sequence t = output_sequence s @ [out] \<and>
        set_rel s t)"

lemma recordsD:
  assumes "records stepf" "is_retry_running s" "stepf i s = Ret out t"
  shows "input_sequence t = input_sequence s @ [i] \<and> output_sequence t = output_sequence s @ [out] \<and>
    set_rel s t"
  using assms unfolding records_def by blast

definition sequences :: "'w sul \<Rightarrow> bool" where
  "sequences s \<longleftrightarrow> length (output_sequence s) = length (input_sequence s)"

text \<open>The part of an attempt before the replay, and the part after it.\<close>

definition attempt_start :: "'w env \<Rightarrow> 'w cls \<Rightarrow> nat \<Rightarrow> nat \<Rightarrow> ('w, unit) sulM" where
  "attempt_start X C fuel attempt =
     thenM (whenM (attempt \<ge> 4) (reset_device X fuel))
       (thenM (modM (is_retry_running_update (\<lambda>_. True))) (pre_run C))"

definition attempt_verdict :: "'w cls \<Rightarrow> string list \<Rightarrow> nat \<Rightarrow> ('w, bool) sulM" where
  "attempt_verdict C seq_out attempt =
     bindM (getM (\<lambda>s. earlier_symbols (output_symbol_filters s) seq_out \<noteq>
                      earlier_symbols (output_symbol_filters s) (output_sequence s))) (\<lambda>messed_up.
       if messed_up then unitM (attempt < 7)
       else bindM (is_last_sym_suspicious C) (\<lambda>suspicious. unitM (suspicious \<and> attempt < 6)))"

lemma retry_attempt_parts:
  "retry_attempt X C fuel stepf seq_in seq_out attempt =
     thenM (attempt_start X C fuel attempt)
       (thenM (forM seq_in (\<lambda>i. bindM (stepf i) (\<lambda>_. unitM ())))
         (attempt_verdict C seq_out attempt))"
  by (simp add: retry_attempt_def attempt_start_def attempt_verdict_def post_def thenM_def bindM_assoc)

context mapper_class begin

lemma attempt_start_Ret:
  assumes "attempt_start X C fuel attempt s = Ret () t"
  shows "input_sequence t = [] \<and> output_sequence t = [] \<and> is_retry_running t \<and> conf_rel s t"
proof -
  obtain u where u: "whenM (attempt \<ge> 4) (reset_device X fuel) s = Ret () u"
      and p: "pre_run C (u\<lparr>is_retry_running := True\<rparr>) = Ret () t"
    using assms by (auto simp: attempt_start_def thenM_eq_Ret modM_def)
  have "keeps conf_rel (whenM (attempt \<ge> 4) (reset_device X fuel))"
    by (intro conf.comp_rules conf.keeps_reset_device)
  then have "conf_rel s u" using u by (rule keeps_Ret)
  moreover have "set_rel (u\<lparr>is_retry_running := True\<rparr>) t"
    by (rule keeps_Ret [OF pre_frame [OF settings.reset_frame_axioms] p])
  ultimately show ?thesis
    using pre_fresh [OF p] by (simp add: set_rel_def conf_rel_def)
qed

lemma attempt_verdict_Ret:
  "attempt_verdict C seq_out attempt s = Ret b t \<Longrightarrow> cfg_rel s t \<and> (b \<longrightarrow> attempt < 7)"
  using suspicious_cfg
  by (auto simp: attempt_verdict_def bindM_eq_Ret getM_def cfg.step_refl split: if_splits)

lemma retry_attempt_Ret:
  assumes "records stepf" and r: "retry_attempt X C fuel stepf seq_in seq_out attempt s = Ret b t"
  shows "input_sequence t = seq_in \<and> length (output_sequence t) = length seq_in \<and>
    is_retry_running t \<and> conf_rel s t \<and> (b \<longrightarrow> attempt < 7)"
proof -
  obtain u v where u: "attempt_start X C fuel attempt s = Ret () u"
      and v: "forM seq_in (\<lambda>i. bindM (stepf i) (\<lambda>_. unitM ())) u = Ret () v"
      and t: "attempt_verdict C seq_out attempt v = Ret b t"
    using r unfolding retry_attempt_parts thenM_eq_Ret by auto
  note start = attempt_start_Ret [OF u]
  have "input_sequence v = input_sequence u @ seq_in \<and>
      length (output_sequence v) = length (output_sequence u) + length seq_in \<and> set_rel u v"
    by (rule replay [OF recordsD [OF assms(1)] _ v]) (use start in simp_all)
  with start attempt_verdict_Ret [OF t] show ?thesis
    by (auto simp: cfg_rel_def set_rel_def conf_rel_def)
qed

lemma retry_loop_Ret:
  assumes "records stepf"
  shows "retry_loop X C fuel stepf seq_in seq_out attempt n s = Ret () t \<Longrightarrow>
    input_sequence t = seq_in \<and> length (output_sequence t) = length seq_in \<and> conf_rel s t"
proof (induction n arbitrary: attempt s)
  case (Suc n)
  then obtain b u where u: "retry_attempt X C fuel stepf seq_in seq_out (attempt + 1) s = Ret b u"
      and rest: "b \<and> retry_loop X C fuel stepf seq_in seq_out (attempt + 1) n u = Ret () t \<or> \<not> b \<and> t = u"
    by (auto simp: bindM_eq_Ret split: if_splits)
  note a = retry_attempt_Ret [OF assms u]
  from rest show ?case
  proof
    assume "b \<and> retry_loop X C fuel stepf seq_in seq_out (attempt + 1) n u = Ret () t"
    with Suc.IH a show ?thesis by (auto intro: conf.step_trans)
  qed (use a in simp)
qed simp

lemma retry_sequence_Ret:
  assumes "records stepf" and r: "retry_sequence X C fuel stepf s = Ret out t"
  shows "input_sequence t = input_sequence s \<and> sequences t \<and> \<not> is_retry_running t \<and>
    output_sequence t \<noteq> [] \<and> out = last (output_sequence t) \<and> conf_rel s t"
proof -
  obtain u where u: "retry_loop X C fuel stepf (input_sequence s) (output_sequence s) 0 fuel s = Ret () u"
      and t: "t = u\<lparr>is_retry_running := False\<rparr>" "py_last (output_sequence u) = Inr out"
    using r by (auto simp: retry_sequence_def ret_simps)
  from retry_loop_Ret [OF assms(1) u] t show ?thesis
    by (auto simp: sequences_def py_last_def conf_rel_def split: if_splits)
qed

lemma step_internal_records: "records (step_internal X C fuel d)"
  by (cases d) (auto simp: records_def dest: step_while_retrying)

text \<open>One step outside a retry, whether or not it starts one.\<close>

lemma step_internal_Ret:
  assumes flag: "\<not> is_retry_running s" and seqs: "sequences s"
    and r: "step_internal X C fuel (Suc d) i s = Ret out t"
  shows "input_sequence t = input_sequence s @ [i] \<and> sequences t \<and> \<not> is_retry_running t \<and>
    out = last (output_sequence t) \<and> conf_rel s t"
proof -
  obtain o1 u where u: "run_symbol X C fuel i s = Ret o1 u"
    and rest: "thenM (record_symbols i o1) (bindM (getM is_retry_running) (\<lambda>running.
        if running then unitM o1
        else bindM (is_last_sym_suspicious C) (\<lambda>suspicious.
          if suspicious then retry_sequence X C fuel (step_internal X C fuel d) else unitM o1))) u =
        Ret out t"
    using r unfolding step_internal.simps step_with_def bindM_eq_Ret [of "run_symbol X C fuel i"]
    by blast
  have "\<not> is_retry_running u" using run_symbol_cfg [OF u] flag by (simp add: cfg_rel_def)
  then obtain b v where susp: "is_last_sym_suspicious C (u\<lparr>input_sequence := input_sequence u @ [i],
         output_sequence := output_sequence u @ [o1]\<rparr>) = Ret b v"
    and rest: "b \<and> retry_sequence X C fuel (step_internal X C fuel d) v = Ret out t \<or>
         \<not> b \<and> out = o1 \<and> t = v"
    using rest by (auto simp: ret_simps record_symbols_def split: if_splits)
  have v: "input_sequence v = input_sequence s @ [i]" "output_sequence v = output_sequence s @ [o1]"
      "is_retry_running v = is_retry_running s" "conf_rel s v"
    using run_symbol_cfg [OF u] suspicious_cfg [OF susp] by (simp_all add: cfg_rel_def conf_rel_def)
  from rest show ?thesis
  proof
    assume "b \<and> retry_sequence X C fuel (step_internal X C fuel d) v = Ret out t"
    with retry_sequence_Ret [OF step_internal_records] v show ?thesis
      by (auto intro: conf.step_trans)
  next
    assume "\<not> b \<and> out = o1 \<and> t = v"
    with v flag seqs show ?thesis by (simp add: sequences_def)
  qed
qed

end

section \<open>Retries do not nest\<close>

context mapper_class begin

lemma retry_attempt_cong:
  assumes agree: "\<And>i u. is_retry_running u \<Longrightarrow> stepf i u = stepf' i u" and rec: "records stepf"
  shows "retry_attempt X C fuel stepf seq_in seq_out attempt s =
    retry_attempt X C fuel stepf' seq_in seq_out attempt s"
proof -
  have flag: "is_retry_running v" if "is_retry_running u" "stepf i u = Ret out v" for i u out v
    using recordsD [OF rec that] that(1) by (simp add: set_rel_def)
  show ?thesis
  proof (cases "attempt_start X C fuel attempt s")
    case (Ret r u)
    then have "is_retry_running u" using attempt_start_Ret by simp
    then have "forM seq_in (\<lambda>i. bindM (stepf i) (\<lambda>_. unitM ())) u =
        forM seq_in (\<lambda>i. bindM (stepf' i) (\<lambda>_. unitM ())) u"
      by (intro replay_cong) (auto intro: agree flag)
    with Ret show ?thesis by (simp add: retry_attempt_parts thenM_def bindM_def)
  qed (simp_all add: retry_attempt_parts thenM_def)
qed

lemma retry_loop_cong:
  assumes "\<And>i u. is_retry_running u \<Longrightarrow> stepf i u = stepf' i u" and "records stepf"
  shows "retry_loop X C fuel stepf seq_in seq_out attempt n s =
    retry_loop X C fuel stepf' seq_in seq_out attempt n s"
proof (induction n arbitrary: attempt s)
  case (Suc n)
  have "retry_attempt X C fuel stepf seq_in seq_out (attempt + 1) s =
      retry_attempt X C fuel stepf' seq_in seq_out (attempt + 1) s"
    by (rule retry_attempt_cong [OF assms])
  then show ?case
    by (cases "retry_attempt X C fuel stepf' seq_in seq_out (attempt + 1) s") (simp_all add: Suc.IH)
qed simp

lemma step_internal_depth: "step_internal X C fuel (Suc d) i s = step_internal X C fuel 1 i s"
proof -
  have agree: "step_internal X C fuel d i u = step_internal X C fuel 0 i u" if "is_retry_running u" for i u
    by (cases d) (simp_all add: step_with_irrelevant [OF that])
  have "retry_sequence X C fuel (step_internal X C fuel d) =
      retry_sequence X C fuel (step_internal X C fuel 0)"
    using retry_loop_cong [OF agree step_internal_records]
    by (simp add: retry_sequence_def fun_eq_iff bindM_def thenM_def getM_def)
  then show ?thesis by simp
qed

end

section \<open>Steps end\<close>

text \<open>
  A class of which, in the states \<open>ok\<close>, symbols, \<open>pre\<close> and device resets end; \<open>ok\<close> survives what a
  run frame \<open>R\<close> allows. Then steps end too: a retry makes at most seven attempts.
\<close>

locale ending_class = mapper_class + run_frame +
  fixes fuel :: nat and ok :: "'a sul \<Rightarrow> bool"
  assumes ok_frame: "R s t \<Longrightarrow> ok s \<Longrightarrow> ok t"
    and ok_fuel: "ok s \<Longrightarrow> 7 \<le> fuel"
    and run_ends: "ok s \<Longrightarrow> run_symbol X C fuel i s \<noteq> NoRet"
    and suspicious_ends: "halts (is_last_sym_suspicious C)"
    and pre_ends: "ok s \<Longrightarrow> pre_run C s \<noteq> NoRet"
    and device_ends: "ok s \<Longrightarrow> reset_device X fuel s \<noteq> NoRet"
begin

lemma class_kept: "cls_keep R C"
  by (rule class_frame [OF step_frame_axioms])

lemma pre_kept: "keeps R (pre_run C)"
  by (rule pre_frame [OF reset_frame_axioms])

lemma ok_kept: "keeps R m \<Longrightarrow> m s = Ret x t \<Longrightarrow> ok s \<Longrightarrow> ok t"
  by (rule ok_frame) (rule keeps_Ret)

lemma ok_flag: "ok s \<Longrightarrow> ok (s\<lparr>is_retry_running := b\<rparr>)"
  by (rule ok_frame [OF R_flag])

lemma step_with_ends:
  assumes ok: "ok s" and retry: "\<And>t. ok t \<Longrightarrow> \<not> is_retry_running s \<Longrightarrow> retry t \<noteq> NoRet"
  shows "step_with retry X C fuel i s \<noteq> NoRet"
proof (cases "run_symbol X C fuel i s")
  case (Ret out u)
  let ?u = "u\<lparr>input_sequence := input_sequence u @ [i], output_sequence := output_sequence u @ [out]\<rparr>"
  have u: "ok ?u" "is_retry_running u = is_retry_running s"
    using ok_frame [OF R_record ok_kept [OF keeps_run_symbol [OF class_kept] Ret ok]] run_symbol_cfg [OF Ret]
    by (simp_all add: cfg_rel_def)
  have "keeps R (is_last_sym_suspicious C)" using class_kept by (simp add: cls_keep_def)
  from retry [OF ok_kept [OF this _ u(1)]]
  have "retry v \<noteq> NoRet" if "is_last_sym_suspicious C ?u = Ret b v" "\<not> is_retry_running s" for b v
    using that .
  with Ret u haltsD [OF suspicious_ends, of ?u] show ?thesis
    by (auto simp: step_with_def thenM_def record_symbols_def modM_def getM_def bindM_eq_NoRet
        unitM_def split: if_splits)
qed (use run_ends [OF ok] in \<open>simp_all add: step_with_def\<close>)

lemma replay_ends:
  assumes stepf: "\<And>i u. is_retry_running u \<Longrightarrow> ok u \<Longrightarrow> stepf i u \<noteq> NoRet" and rec: "records stepf"
    and kept: "\<And>i. keeps R (stepf i)"
  shows "is_retry_running s \<Longrightarrow> ok s \<Longrightarrow> forM xs (\<lambda>i. bindM (stepf i) (\<lambda>_. unitM ())) s \<noteq> NoRet"
proof (induction xs arbitrary: s)
  case (Cons x xs)
  show ?case
  proof (cases "stepf x s")
    case (Ret out u)
    have "is_retry_running u" "ok u"
      using recordsD [OF rec Cons.prems(1) Ret] Cons.prems ok_kept [OF kept Ret]
      by (simp_all add: set_rel_def)
    with Ret Cons.IH show ?thesis by (simp add: thenM_def)
  qed (use stepf Cons.prems in \<open>simp_all add: thenM_def\<close>)
qed (simp add: unitM_def)

lemma attempt_start_kept: "keeps R (attempt_start X C fuel attempt)"
  unfolding attempt_start_def by (intro comp_rules keeps_reset_device keeps_modM R_flag pre_kept)

lemma attempt_start_ends: "ok s \<Longrightarrow> attempt_start X C fuel attempt s \<noteq> NoRet"
proof -
  assume ok: "ok s"
  have "whenM (attempt \<ge> 4) (reset_device X fuel) s \<noteq> NoRet"
    using device_ends [OF ok] by (simp add: whenM_def unitM_def)
  moreover have "pre_run C (u\<lparr>is_retry_running := True\<rparr>) \<noteq> NoRet"
    if "whenM (attempt \<ge> 4) (reset_device X fuel) s = Ret r u" for r u
  proof -
    have "keeps R (whenM (attempt \<ge> 4) (reset_device X fuel))"
      by (intro comp_rules keeps_reset_device)
    from ok_kept [OF this that ok] show ?thesis by (intro pre_ends ok_flag)
  qed
  ultimately show ?thesis
    by (simp add: attempt_start_def thenM_def bindM_eq_NoRet modM_def)
qed

lemma retry_attempt_ends:
  assumes stepf: "\<And>i u. is_retry_running u \<Longrightarrow> ok u \<Longrightarrow> stepf i u \<noteq> NoRet" and rec: "records stepf"
    and kept: "\<And>i. keeps R (stepf i)" and ok: "ok s"
  shows "retry_attempt X C fuel stepf seq_in seq_out attempt s \<noteq> NoRet"
proof -
  have verdict: "attempt_verdict C seq_out attempt v \<noteq> NoRet" for v
    unfolding attempt_verdict_def by (intro haltsD halts_rules suspicious_ends)
  have "forM seq_in (\<lambda>i. bindM (stepf i) (\<lambda>_. unitM ())) u \<noteq> NoRet"
    if "attempt_start X C fuel attempt s = Ret r u" for r u
    using attempt_start_Ret [of fuel attempt s u] that ok_kept [OF attempt_start_kept that ok]
    by (intro replay_ends stepf rec kept) simp_all
  with attempt_start_ends [OF ok] verdict show ?thesis
    by (simp add: retry_attempt_parts thenM_def bindM_eq_NoRet)
qed

lemma retry_loop_ends:
  assumes stepf: "\<And>i u. is_retry_running u \<Longrightarrow> ok u \<Longrightarrow> stepf i u \<noteq> NoRet" and rec: "records stepf"
    and kept: "\<And>i. keeps R (stepf i)"
  shows "ok s \<Longrightarrow> attempt < 7 \<Longrightarrow> 7 \<le> attempt + n \<Longrightarrow>
    retry_loop X C fuel stepf seq_in seq_out attempt n s \<noteq> NoRet"
proof (induction n arbitrary: attempt s)
  case (Suc n)
  show ?case
  proof (cases "retry_attempt X C fuel stepf seq_in seq_out (attempt + 1) s")
    case (Ret b u)
    have "retry_loop X C fuel stepf seq_in seq_out (attempt + 1) n u \<noteq> NoRet" if b
      using retry_attempt_Ret [OF rec Ret] that Suc.prems
        ok_kept [OF keeps_retry_attempt [OF class_kept pre_kept kept] Ret]
      by (intro Suc.IH) simp_all
    with Ret show ?thesis by (simp add: unitM_def)
  qed (use retry_attempt_ends [OF assms] Suc.prems in simp_all)
qed simp

lemma step_internal_ends: "ok s \<Longrightarrow> step_internal X C fuel (Suc d) i s \<noteq> NoRet"
proof -
  assume ok: "ok s"
  have inner: "step_internal X C fuel d j u \<noteq> NoRet" if "is_retry_running u" "ok u" for j u
  proof -
    have "step_with retry X C fuel j u \<noteq> NoRet" for retry
      using that by (intro step_with_ends) simp_all
    then show ?thesis by (cases d) simp_all
  qed
  have "retry_sequence X C fuel (step_internal X C fuel d) t \<noteq> NoRet" if "ok t" for t
    using retry_loop_ends [OF inner step_internal_records keeps_step_internal [OF class_kept pre_kept] that,
        of 0] ok_fuel [OF ok]
    by (simp add: retry_sequence_def thenM_def bindM_eq_NoRet getM_def modM_def
        haltsD [OF halts_liftE])
  with ok show ?thesis by (simp add: step_with_ends)
qed

lemma step_ends: "ok s \<Longrightarrow> step X C fuel i s \<noteq> NoRet"
  using step_internal_ends [of s 0 i]
  by (auto simp: step_def tryM_def bindM_eq_NoRet getM_def unitM_def raiseM_def split: res.split)

end

end
