(* ===== verification/Mappers.thy ===== *)
theory Mappers
  imports Session
begin

text \<open>
  The mapper classes: \<open>BLESUL\<close> itself and the eight subclasses in py/BLESUL\_*.py, each with its
  constructor's arguments, its output filter and the methods it overrides, built in one table of
  classes indexed by the enumeration \<open>mapper\<close>.
\<close>

section \<open>The classes\<close>

datatype mapper =
    BLESUL | NimBLE | CI | ArduinoNanoESP32 | IntelAX200BlueZ | RPiPico2W | RPiZeroWBlueZ
  | NRF52840 | NRF52840DKNimBLE

text \<open>The methods of the base class, looked up by their names.\<close>

definition base_whole ::
  "'w env \<Rightarrow> 'w hooks \<Rightarrow> nat \<Rightarrow> string \<Rightarrow> (packet \<Rightarrow> ('w, string) sulM) option"
where
  "base_whole X H fuel name =
     (if name = ''ll_ctrl_enc_req'' then Some (ll_ctrl_enc_req X H fuel) else None)"

definition base_pre :: "'w env \<Rightarrow> string \<Rightarrow> (packet \<Rightarrow> ('w, packet) sulM) option" where
  "base_pre X name =
     (if name = ''ll_adv_scan_req_pre'' then Some ll_adv_scan_req_pre
      else if name = ''ll_adv_connect_ind_pre'' then Some ll_adv_connect_ind_pre
      else if name = ''sm_pairing_req_pre'' then Some (sm_pairing_req_pre X)
      else if name = ''sm_pairing_req_sc_pre'' then Some (sm_pairing_req_sc_pre X)
      else None)"

definition base_post :: "string \<Rightarrow> (packet list \<Rightarrow> ('w, packet list) sulM) option" where
  "base_post name =
     (if name = ''ll_adv_scan_req_post'' then Some ll_adv_scan_req_post
      else if name = ''ll_ctrl_pause_enc_req_post'' then Some ll_ctrl_pause_enc_req_post
      else None)"

definition base_suspicious :: "('w, bool) sulM" where
  "base_suspicious = unitM False"

text \<open>\<open>att_read_req_pre\<close> of the subclasses: the handle of the characteristic on that device.\<close>

definition att_read_req_pre_NimBLE :: "packet \<Rightarrow> ('w, packet) sulM" where
  "att_read_req_pre_NimBLE pkt = unitM (setattr pkt ''gatt_handle'' (VInt 0x24))"

definition att_read_req_pre_Arduino :: "packet \<Rightarrow> ('w, packet) sulM" where
  "att_read_req_pre_Arduino pkt = unitM (setattr pkt ''gatt_handle'' (VInt 0x2a))"

definition att_read_req_pre_RPiPico2W :: "packet \<Rightarrow> ('w, packet) sulM" where
  "att_read_req_pre_RPiPico2W pkt = unitM (setattr pkt ''gatt_handle'' (VInt 0x09))"

definition att_read_req_pre_RPiZeroWBlueZ :: "packet \<Rightarrow> ('w, packet) sulM" where
  "att_read_req_pre_RPiZeroWBlueZ pkt = unitM (setattr pkt ''gatt_handle'' (VInt 0x18))"

definition att_read_req_pre_nRF52840 :: "packet \<Rightarrow> ('w, packet) sulM" where
  "att_read_req_pre_nRF52840 pkt = unitM (setattr pkt ''gatt_handle'' (VInt 0x12))"

definition att_read_req_pre_DKNimBLE :: "packet \<Rightarrow> ('w, packet) sulM" where
  "att_read_req_pre_DKNimBLE pkt = unitM (setattr pkt ''gatt_handle'' (VInt 0x24))"

lemmas att_read_req_pre_defs =
  att_read_req_pre_NimBLE_def att_read_req_pre_Arduino_def att_read_req_pre_RPiPico2W_def
  att_read_req_pre_RPiZeroWBlueZ_def att_read_req_pre_nRF52840_def att_read_req_pre_DKNimBLE_def

text \<open>\<open>ll_adv_connect_ind\<close> of the two NimBLE classes, each with a copy of its own: a length request
  after each connect.\<close>

definition ll_adv_connect_ind :: "'w env \<Rightarrow> 'w hooks \<Rightarrow> nat \<Rightarrow> packet \<Rightarrow> ('w, string) sulM" where
  "ll_adv_connect_ind X H fuel pkt =
     thenM (send X pkt)
     (bindM (receive X H fuel None None 0 (Some pkt)) (\<lambda>res_pkts.
      bindM (mk_packet ''LL_CTRL_LENGTH_REQ'') (\<lambda>pkt.
      thenM (send X pkt)
      (bindM (receive X H fuel None None 0 (Some pkt)) (\<lambda>_.
       output_symbol X res_pkts)))))"

definition ll_adv_connect_ind_DKNimBLE ::
  "'w env \<Rightarrow> 'w hooks \<Rightarrow> nat \<Rightarrow> packet \<Rightarrow> ('w, string) sulM" where
  "ll_adv_connect_ind_DKNimBLE X H fuel pkt =
     thenM (send X pkt)
     (bindM (receive X H fuel None None 0 (Some pkt)) (\<lambda>res_pkts.
      bindM (mk_packet ''LL_CTRL_LENGTH_REQ'') (\<lambda>pkt.
      thenM (send X pkt)
      (bindM (receive X H fuel None None 0 (Some pkt)) (\<lambda>_.
       output_symbol X res_pkts)))))"

lemma connect_ind_copies: "ll_adv_connect_ind_DKNimBLE = ll_adv_connect_ind"
  by (simp add: fun_eq_iff ll_adv_connect_ind_DKNimBLE_def ll_adv_connect_ind_def)

text \<open>\<open>ll_adv_scan_req_pre\<close> of \<open>BLESUL_NimBLE\<close>, which does not end the encryption.\<close>

definition ll_adv_scan_req_pre_NimBLE :: "packet \<Rightarrow> ('w, packet) sulM" where
  "ll_adv_scan_req_pre_NimBLE pkt = unitM pkt"

text \<open>\<open>ll_ctrl_terminate_ind\<close> of \<open>BLESUL_nRF52840\<close>: two more packets end the connection at once.\<close>

definition feature_req :: "conn \<Rightarrow> packet" where
  "feature_req c = data_pkt c [Layer BTLE_CTRL [], Layer LL_FEATURE_REQ
     [(''feature_set'', VStr ''le_encryption+le_data_len_ext'')]]"

definition ll_ctrl_terminate_ind :: "'w env \<Rightarrow> 'w hooks \<Rightarrow> nat \<Rightarrow> packet \<Rightarrow> ('w, string) sulM" where
  "ll_ctrl_terminate_ind X H fuel pkt =
     thenM (send X pkt)
     (thenM (with_conn (\<lambda>c. send X (feature_req c)))
     (thenM (with_conn (\<lambda>c. send X (feature_req c)))
       (receive_output_symbol X H fuel None None None)))"

text \<open>\<open>handle_packet\<close> of \<open>BLESUL_IntelAX200BlueZ\<close>: answers to BlueZ's own requests.\<close>

definition att_answer :: "conn \<Rightarrow> layer \<Rightarrow> packet" where
  "att_answer c l = data_pkt c [Layer L2CAP_Hdr [], Layer ATT_Hdr [], l]"

definition handle_packet_BlueZ :: "packet \<Rightarrow> ('w, packet option) sulM" where
  "handle_packet_BlueZ pkt =
     with_conn (\<lambda>c.
       if haslayer ATT_Exchange_MTU_Request pkt
       then unitM (Some (att_answer c (Layer ATT_Exchange_MTU_Response [(''mtu'', VInt 247)])))
       else bindM (if haslayer ATT_Read_By_Type_Request pkt
                   then liftE (layer_attr pkt ATT_Read_By_Type_Request ''uuid'')
                   else unitM VNone) (\<lambda>uuid.
         if uuid = VInt 0x2b3a
         then bindM (liftE (fromhex ''050001'')) (\<lambda>h. unitM (Some (att_answer c
                (Layer ATT_Read_By_Type_Response [(''len'', VInt 3), (''handles'', VRaw h)]))))
         else if uuid = VInt 0x2b2a
         then bindM (liftE (fromhex ''09008991c462ebe9d90b9ea0da3e16d0f513'')) (\<lambda>h. unitM (Some
                (att_answer c
                  (Layer ATT_Read_By_Type_Response [(''len'', VInt 18), (''handles'', VRaw h)]))))
         else if haslayer ATT_Read_By_Group_Type_Request pkt
         then bindM (liftE (layer_attr pkt ATT_Read_By_Group_Type_Request ''start'')) (\<lambda>start.
                unitM (Some (att_answer c (Layer ATT_Error_Response
                  [(''request'', VInt 0x10), (''handle'', start),
                   (''ecode'', VStr ''unsupported req'')]))))
         else unitM None))"

section \<open>Suspicious outputs\<close>

text \<open>\<open>self.input_sequence[-1]\<close> and \<open>[-2]\<close> after the length test, \<open>self.output_sequence[-1]\<close>.\<close>

definition last_two :: "'w sul \<Rightarrow> string \<Rightarrow> string \<Rightarrow> bool" where
  "last_two s a b \<longleftrightarrow>
     (let i = input_sequence s in 2 \<le> length i \<and> i ! (length i - 2) = a \<and> last i = b)"

definition suspicious_Arduino :: "('w, bool) sulM" where
  "suspicious_Arduino =
     bindM (getM (\<lambda>s. last_two s ''LL_ADV_CONNECT_IND'' ''LL_CTRL_PAUSE_ENC_REQ'')) (\<lambda>b.
       if b then bindM (getM output_sequence) (\<lambda>out. bindM (liftE (py_last out)) (\<lambda>o1.
              unitM (\<not> py_contains ''LL_CTRL_REJECT_IND'' o1)))
       else base_suspicious)"

definition suspicious_nRF52840 :: "('w, bool) sulM" where
  "suspicious_nRF52840 =
     bindM (getM (\<lambda>s. last_two s ''LL_ADV_CONNECT_IND'' ''SM_PAIRING_REQ'')) (\<lambda>b.
       if b then bindM (getM output_sequence) (\<lambda>out. bindM (liftE (py_last out)) (\<lambda>o1.
              if py_contains ''SM_FAILED'' o1 then unitM True else base_suspicious))
       else base_suspicious)"

definition suspicious_DKNimBLE :: "('w, bool) sulM" where
  "suspicious_DKNimBLE =
     bindM (getM output_sequence) (\<lambda>out. bindM (liftE (py_last out)) (\<lambda>o1.
       if py_contains ''Raw'' o1 then unitM True else base_suspicious))"

text \<open>\<open>pre\<close> of \<open>BLESUL_nRF52840\<close>: a device reset when the last one is more than eight hours ago.\<close>

definition pre_nRF52840 :: "'w env \<Rightarrow> 'w hooks \<Rightarrow> nat \<Rightarrow> ('w, unit) sulM" where
  "pre_nRF52840 X H fuel =
     bindM (outM (time_time X)) (\<lambda>t.
     bindM (getM (\<lambda>s. t - last_device_reset_time s > 60 * 60 * 8)) (\<lambda>old.
     thenM (whenM old
       (thenM (reset_device_nrf X fuel)
         (bindM (outM (time_time X)) (\<lambda>t1. modM (\<lambda>s. s\<lparr>last_device_reset_time := t1\<rparr>)))))
       (pre X H fuel)))"

section \<open>Constructors\<close>

text \<open>The output filters, and the constructors; the defaults are those of the base class, which has
  no reset command.\<close>

definition OUTPUT_FILTER_Arduino :: "string list" where
  "OUTPUT_FILTER_Arduino = [''LL_ADV_SCAN_RSP'', ''LL_CTRL_VERSION_IND'']"

definition OUTPUT_FILTER_IntelAX200BlueZ :: "string list" where
  "OUTPUT_FILTER_IntelAX200BlueZ =
     [''L2CAP_CONNECTION_PARAMETER_UPDATE_REQ'', ''ATT_EXCHANGE_MTU_REQ'', ''ATT_READ_BY_TYPE_REQ'',
      ''ATT_READ_BY_GROUP_TYPE_REQ'', ''SM_SIGNING_INFORMATION'']"

definition OUTPUT_FILTER_nRF52840 :: "string list" where
  "OUTPUT_FILTER_nRF52840 = [''L2CAP_CONNECTION_PARAMETER_UPDATE_REQ'']"

definition OUTPUT_FILTER_DKNimBLE :: "string list" where
  "OUTPUT_FILTER_DKNimBLE = [''LL_ADV_SCAN_RSP'']"

text \<open>\<open>self.peripheral_address_is_rand = v\<close>, after the base class's constructor.\<close>

definition set_is_rand :: "int \<Rightarrow> ('w, unit) sulM" where
  "set_is_rand v = modM (\<lambda>s. s\<lparr>peripheral_address_is_rand := VInt v\<rparr>)"

definition init_NimBLE :: "'w env \<Rightarrow> string \<Rightarrow> string \<Rightarrow> ('w, unit) sulM" where
  "init_NimBLE X port addr =
     thenM (BLESUL_init X port addr (Some ''scripts/reset_manually.sh'') (15 / 100) (3 / 10) [])
       (set_is_rand 0)"

definition init_CI :: "'w env \<Rightarrow> string \<Rightarrow> string \<Rightarrow> ('w, unit) sulM" where
  "init_CI X port addr =
     thenM (BLESUL_init X port addr (Some ''scripts/reset_ci.sh'') (2 / 10) (5 / 10) [])
       (set_is_rand 0)"

definition init_Arduino :: "'w env \<Rightarrow> string \<Rightarrow> string \<Rightarrow> ('w, unit) sulM" where
  "init_Arduino X port addr =
     thenM (BLESUL_init X port addr (Some ''scripts/reset_manually.sh'') (2 / 10) (5 / 10) OUTPUT_FILTER_Arduino)
       (set_is_rand 0)"

definition init_IntelAX200BlueZ :: "'w env \<Rightarrow> string \<Rightarrow> string \<Rightarrow> ('w, unit) sulM" where
  "init_IntelAX200BlueZ X port addr =
     BLESUL_init X port addr (Some ''scripts/reset_ble_stack.sh'') (1 / 10) 1 OUTPUT_FILTER_IntelAX200BlueZ"

definition init_RPiPico2W :: "'w env \<Rightarrow> string \<Rightarrow> string \<Rightarrow> ('w, unit) sulM" where
  "init_RPiPico2W X port addr =
     thenM (BLESUL_init X port addr (Some ''scripts/reset_manually.sh'') (1 / 10) (2 / 10) [])
       (set_is_rand 0)"

definition init_RPiZeroWBlueZ :: "'w env \<Rightarrow> string \<Rightarrow> string \<Rightarrow> ('w, unit) sulM" where
  "init_RPiZeroWBlueZ X port addr =
     BLESUL_init X port addr (Some ''scripts/reset_manually.sh'') (5 / 10) 2 []"

definition init_nRF52840 :: "'w env \<Rightarrow> string \<Rightarrow> string \<Rightarrow> ('w, unit) sulM" where
  "init_nRF52840 X port addr =
     BLESUL_init X port addr (Some ''scripts/reset_manually.sh'') (1 / 10) 1 OUTPUT_FILTER_nRF52840"

definition init_DKNimBLE :: "'w env \<Rightarrow> string \<Rightarrow> string \<Rightarrow> ('w, unit) sulM" where
  "init_DKNimBLE X port addr =
     thenM (BLESUL_init X port addr (Some ''scripts/reset_manually.sh'') (15 / 100) (4 / 10) OUTPUT_FILTER_DKNimBLE)
       (set_is_rand 1)"

section \<open>The table of classes\<close>

definition init :: "'w env \<Rightarrow> mapper \<Rightarrow> string \<Rightarrow> string \<Rightarrow> ('w, unit) sulM" where
  "init X f port addr =
     (case f of
        BLESUL \<Rightarrow> BLESUL_init X port addr None (1 / 10) 1 []
      | NimBLE \<Rightarrow> init_NimBLE X port addr
      | CI \<Rightarrow> init_CI X port addr
      | ArduinoNanoESP32 \<Rightarrow> init_Arduino X port addr
      | IntelAX200BlueZ \<Rightarrow> init_IntelAX200BlueZ X port addr
      | RPiPico2W \<Rightarrow> init_RPiPico2W X port addr
      | RPiZeroWBlueZ \<Rightarrow> init_RPiZeroWBlueZ X port addr
      | NRF52840 \<Rightarrow> init_nRF52840 X port addr
      | NRF52840DKNimBLE \<Rightarrow> init_DKNimBLE X port addr)"

definition att_method :: "mapper \<Rightarrow> (packet \<Rightarrow> ('w, packet) sulM) option" where
  "att_method f =
     (case f of
        NimBLE \<Rightarrow> Some att_read_req_pre_NimBLE
      | CI \<Rightarrow> Some att_read_req_pre_NimBLE
      | ArduinoNanoESP32 \<Rightarrow> Some att_read_req_pre_Arduino
      | RPiPico2W \<Rightarrow> Some att_read_req_pre_RPiPico2W
      | RPiZeroWBlueZ \<Rightarrow> Some att_read_req_pre_RPiZeroWBlueZ
      | NRF52840 \<Rightarrow> Some att_read_req_pre_nRF52840
      | NRF52840DKNimBLE \<Rightarrow> Some att_read_req_pre_DKNimBLE
      | BLESUL \<Rightarrow> None
      | IntelAX200BlueZ \<Rightarrow> None)"

definition mapper_hooks :: "'w env \<Rightarrow> mapper \<Rightarrow> 'w hooks" where
  "mapper_hooks X f =
     (case f of
        NimBLE \<Rightarrow> NimBLE_hooks X
      | CI \<Rightarrow> NimBLE_hooks X
      | NRF52840DKNimBLE \<Rightarrow> DKNimBLE_hooks X
      | IntelAX200BlueZ \<Rightarrow> (default_hooks X)\<lparr>handle_packet := Some handle_packet_BlueZ\<rparr>
      | _ \<Rightarrow> default_hooks X)"

definition mapper_whole ::
  "'w env \<Rightarrow> nat \<Rightarrow> mapper \<Rightarrow> string \<Rightarrow> (packet \<Rightarrow> ('w, string) sulM) option"
where
  "mapper_whole X fuel f name =
     (if f \<in> {NimBLE, CI} \<and> name = ''ll_adv_connect_ind''
      then Some (ll_adv_connect_ind X (mapper_hooks X f) fuel)
      else if f = NRF52840DKNimBLE \<and> name = ''ll_adv_connect_ind''
      then Some (ll_adv_connect_ind_DKNimBLE X (mapper_hooks X f) fuel)
      else if f = NRF52840 \<and> name = ''ll_ctrl_terminate_ind''
      then Some (ll_ctrl_terminate_ind X (mapper_hooks X f) fuel)
      else base_whole X (mapper_hooks X f) fuel name)"

definition mapper_pre :: "'w env \<Rightarrow> mapper \<Rightarrow> string \<Rightarrow> (packet \<Rightarrow> ('w, packet) sulM) option" where
  "mapper_pre X f name =
     (if name = ''att_read_req_pre'' then att_method f
      else if f \<in> {NimBLE, CI} \<and> name = ''ll_adv_scan_req_pre'' then Some ll_adv_scan_req_pre_NimBLE
      else base_pre X name)"

definition mapper :: "'w env \<Rightarrow> nat \<Rightarrow> mapper \<Rightarrow> 'w cls" where
  "mapper X fuel f =
     \<lparr>hooks_of = mapper_hooks X f,
      whole_method = mapper_whole X fuel f,
      pre_method = mapper_pre X f,
      post_method = base_post,
      is_last_sym_suspicious =
        (case f of ArduinoNanoESP32 \<Rightarrow> suspicious_Arduino | NRF52840 \<Rightarrow> suspicious_nRF52840
         | NRF52840DKNimBLE \<Rightarrow> suspicious_DKNimBLE | _ \<Rightarrow> base_suspicious),
      pre_run =
        (if f = NRF52840 then pre_nRF52840 X (mapper_hooks X f) fuel
         else pre X (mapper_hooks X f) fuel)\<rparr>"

section \<open>Every class meets the contract\<close>

context mapper_frame begin

lemma keeps_handle_packet_BlueZ: "keeps R (handle_packet_BlueZ pkt)"
  unfolding handle_packet_BlueZ_def by (intro mapper_rules)

lemma hooks_keep_mapper: "hooks_keep R (mapper_hooks X f)"
  by (cases f)
     (auto simp: mapper_hooks_def hooks_keep_def default_hooks_def NimBLE_hooks_def
        DKNimBLE_hooks_def keeps_is_rsp_complete keeps_is_rsp_complete_NimBLE
        keeps_is_rsp_complete_DKNimBLE keeps_handle_packet_BlueZ)

lemma keeps_ll_adv_connect_ind: "hooks_keep R H \<Longrightarrow> keeps R (ll_adv_connect_ind X H fuel pkt)"
  unfolding ll_adv_connect_ind_def
  by (intro mapper_rules keeps_send keeps_receive keeps_output_symbol)

lemma keeps_ll_ctrl_terminate_ind:
  "hooks_keep R H \<Longrightarrow> keeps R (ll_ctrl_terminate_ind X H fuel pkt)"
  unfolding ll_ctrl_terminate_ind_def
  by (intro mapper_rules keeps_send keeps_receive_output_symbol)

lemma keeps_suspicious:
  "keeps R base_suspicious" "keeps R suspicious_Arduino" "keeps R suspicious_nRF52840"
  "keeps R suspicious_DKNimBLE"
  unfolding base_suspicious_def suspicious_Arduino_def suspicious_nRF52840_def
    suspicious_DKNimBLE_def
  by (intro mapper_rules)+

lemma keeps_att_method: "att_method f = Some m \<Longrightarrow> keeps R (m pkt)"
  by (auto simp: att_method_def att_read_req_pre_defs keeps_unitM split: mapper.splits)

lemma keeps_scan_req_pre_NimBLE: "keeps R (ll_adv_scan_req_pre_NimBLE pkt)"
  unfolding ll_adv_scan_req_pre_NimBLE_def by (intro mapper_rules)

end

lemma cls_keep_mapper:
  assumes R: "step_frame R X"
  shows "cls_keep R (mapper X fuel f)"
proof -
  have M: "mapper_frame R X" by (rule step_frame.axioms(1) [OF R])
  note K = mapper_frame.hooks_keep_mapper [OF M]
  have "keeps R (m pkt)" if "mapper_whole X fuel f name = Some m" for name m pkt
    using that
    by (auto simp: mapper_whole_def base_whole_def connect_ind_copies split: if_splits
        intro: mapper_frame.keeps_ll_adv_connect_ind [OF M K]
          mapper_frame.keeps_ll_ctrl_terminate_ind [OF M K] step_frame.keeps_ll_ctrl_enc_req [OF R K])
  moreover have "keeps R (m pkt)" if "mapper_pre X f name = Some m" for name m pkt
    using that
    by (auto simp: mapper_pre_def base_pre_def split: if_splits
        intro: mapper_frame.keeps_att_method [OF M]
          mapper_frame.keeps_scan_req_pre_NimBLE [OF M] mapper_frame.keeps_ll_adv_scan_req_pre [OF M]
          mapper_frame.keeps_ll_adv_connect_ind_pre [OF M]
          mapper_frame.keeps_sm_pairing_req_pre [OF M] mapper_frame.keeps_sm_pairing_req_sc_pre [OF M])
  moreover have "keeps R (m pkts)" if "base_post name = Some m" for name m pkts
    using that
    by (auto simp: base_post_def split: if_splits
        intro: mapper_frame.keeps_ll_adv_scan_req_post [OF M]
          mapper_frame.keeps_ll_ctrl_pause_enc_req_post [OF M])
  ultimately show ?thesis
    using K mapper_frame.keeps_suspicious [OF M]
    by (auto simp: cls_keep_def mapper_def split: mapper.split)
qed

lemma keeps_pre_nRF52840:
  assumes R: "reset_frame R X" and H: "hooks_keep R H"
  shows "keeps R (pre_nRF52840 X H fuel)"
proof -
  have M: "mapper_frame R X"
    using R by (auto dest: reset_frame.axioms(1) step_frame.axioms(1))
  show ?thesis unfolding pre_nRF52840_def
    by (intro mapper_frame.mapper_rules [OF M] reset_frame.keeps_pre [OF R H]
        stepwise.keeps_modM [OF driver_frame.axioms(1) [OF mapper_frame.axioms(1) [OF M]]]
        mapper_frame.R_stamp [OF M])
qed

lemma keeps_pre_run:
  assumes R: "reset_frame R X"
  shows "keeps R (pre_run (mapper X fuel f))"
proof -
  have M: "mapper_frame R X"
    using R by (auto dest: reset_frame.axioms(1) step_frame.axioms(1))
  note K = mapper_frame.hooks_keep_mapper [OF M]
  show ?thesis
    by (simp add: mapper_def keeps_pre_nRF52840 [OF R K] reset_frame.keeps_pre [OF R K])
qed

lemma pre_run_reset:
  assumes "pre_run (mapper X fuel f) s = Ret () t"
  shows "\<exists>u. reset X (mapper_hooks X f) fuel u = Ret () t"
  using assms
  by (auto simp: mapper_def pre_nRF52840_def ret_simps dest: pre_Ret split: if_splits)

interpretation classes: mapper_class X "mapper X fuel f"
  for X :: "'w env" and fuel :: nat and f :: mapper
proof
  show "cls_keep R (mapper X fuel f)" if "step_frame R X" for R
    by (rule cls_keep_mapper [OF that])
  show "keeps R (pre_run (mapper X fuel f))" if "reset_frame R X" for R
    by (rule keeps_pre_run [OF that])
  show "input_sequence t = [] \<and> output_sequence t = []"
    if r: "pre_run (mapper X fuel f) s = Ret () t" for s t
  proof -
    obtain u where "reset X (mapper_hooks X f) fuel u = Ret () t" using pre_run_reset [OF r] ..
    from reset_Ret [OF mapper_frame.hooks_keep_mapper this] show ?thesis by blast
  qed
qed

end
