(* ===== verification/Ending.thy ===== *)
theory Ending
  imports Mappers
begin

text \<open>
  The runs of a mapper end, in a world that answers and whose clock goes forward: the fuel the
  model's loops are given is enough as soon as it is a hundred times the longest waiting time (and
  one), for a class that answers packets once for each of the peer's questions and once more. A
  predicate transformer carries the argument through a program.
\<close>

section \<open>Programs that end\<close>

text \<open>From a state with \<open>P\<close>, \<open>m\<close> does not run out of fuel, and a result it returns comes with
  a state with \<open>P\<close>.\<close>

definition ends :: "('s \<Rightarrow> bool) \<Rightarrow> ('s, 'a) comp \<Rightarrow> bool" where
  "ends P m \<longleftrightarrow> (\<forall>s. P s \<longrightarrow> m s \<noteq> NoRet \<and> (\<forall>x t. m s = Ret x t \<longrightarrow> P t))"

lemma endsI:
  "(\<And>s. P s \<Longrightarrow> m s \<noteq> NoRet) \<Longrightarrow> (\<And>s x t. P s \<Longrightarrow> m s = Ret x t \<Longrightarrow> P t) \<Longrightarrow> ends P m"
  by (simp add: ends_def)

lemma endsD: "ends P m \<Longrightarrow> P s \<Longrightarrow> m s \<noteq> NoRet"
  by (simp add: ends_def)

lemma ends_bindM:
  assumes m: "ends P m" and f: "\<And>x. ends P (f x)"
  shows "ends P (bindM m f)"
proof -
  have "bindM m f s \<noteq> NoRet \<and> (\<forall>y u. bindM m f s = Ret y u \<longrightarrow> P u)" if "P s" for s
  proof (cases "m s")
    case (Ret x t)
    then have "P t" using m that by (simp add: ends_def)
    with f [of x] Ret show ?thesis by (simp add: ends_def)
  qed (use m that in \<open>simp_all add: ends_def\<close>)
  then show ?thesis by (simp add: ends_def)
qed

lemma ends_thenM: "ends P m \<Longrightarrow> ends P k \<Longrightarrow> ends P (thenM m k)"
  by (simp add: thenM_def ends_bindM)

lemma ends_unitM: "ends P (unitM x)"
  by (simp add: ends_def unitM_def)

lemma ends_raiseM: "ends P (raiseM e)"
  by (simp add: ends_def raiseM_def)

lemma ends_getM: "ends P (getM f)"
  by (simp add: ends_def getM_def)

lemma ends_liftE: "ends P (liftE r)"
  by (simp add: liftE_def ends_unitM ends_raiseM split: sum.split)

lemma ends_if: "(b \<Longrightarrow> ends P m) \<Longrightarrow> (\<not> b \<Longrightarrow> ends P k) \<Longrightarrow> ends P (if b then m else k)"
  by simp

lemma ends_whenM: "(b \<Longrightarrow> ends P m) \<Longrightarrow> ends P (whenM b m)"
  by (simp add: whenM_def ends_unitM)

lemma ends_reraise: "ends P m \<Longrightarrow> ends P (tryM m raiseM)"
  by (auto simp: ends_def tryM_def raiseM_def split: res.splits)

lemmas ends_rules =
  ends_bindM ends_thenM ends_unitM ends_raiseM ends_getM ends_liftE ends_if ends_whenM ends_reraise

section \<open>Enough fuel\<close>

definition wait_limit :: "'w sul \<Rightarrow> rat" where
  "wait_limit s = max 2 (max (recv_s_min s) (recv_s_max s))"

text \<open>A bound \<open>q\<close> on what the peer will still ask for, and what every run respects.\<close>

definition asks_less :: "'w env \<Rightarrow> ('w \<Rightarrow> nat) \<Rightarrow> bool" where
  "asks_less X q \<longleftrightarrow>
     env_keeps X (\<lambda>w w'. q w' \<le> q w) \<and> (\<forall>d. keeps (\<lambda>w w'. q w' \<le> q w) (time_sleep X d))"

lemma asks_nothing: "asks_less X (\<lambda>_. 0)"
  by (simp add: asks_less_def env_keeps_def keeps_def)

definition run_rel :: "'w env \<Rightarrow> ('w \<Rightarrow> nat) \<Rightarrow> 'w sul \<Rightarrow> 'w sul \<Rightarrow> bool" where
  "run_rel X q s t \<longleftrightarrow> conf_rel s t \<and> (asks_less X q \<longrightarrow> q (outside t) \<le> q (outside s))"

lemma keeps_run_out:
  assumes "asks_less X q \<Longrightarrow> keeps (\<lambda>w w'. q w' \<le> q w) m"
  shows "keeps (run_rel X q) (outM m :: ('w sul, 'a) comp)"
proof (rule keepsI)
  fix s t :: "'w sul"
  assume "final (outM m s) = Some t"
  then obtain w where "final (m (outside s)) = Some w" "t = s\<lparr>outside := w\<rparr>"
    by (auto simp: outM_def split: res.splits)
  with keepsD [OF assms] show "run_rel X q s t" by (simp add: run_rel_def conf_rel_def)
qed

lemma run_driver_frame: "driver_frame (run_rel X q :: 'w sul \<Rightarrow> 'w sul \<Rightarrow> bool) X"
proof -
  have E: "env_keeps X (\<lambda>w w'. q w' \<le> q w)" if "asks_less X q" using that by (simp add: asks_less_def)
  show ?thesis
  proof unfold_locales
    show "run_rel X q s s" for s :: "'w sul" by (simp add: run_rel_def conf_rel_def)
    show "run_rel X q s u" if "run_rel X q s t" "run_rel X q t u" for s t u :: "'w sul"
      using that by (auto simp: run_rel_def conf_rel_def)
    show "run_rel X q s t" if "drv_frame s t" "outside t = outside s" for s t :: "'w sul"
      using drv_set_rel [OF that(1)] that(2) by (simp add: run_rel_def set_rel_def)
  qed (use E in \<open>auto intro!: keeps_run_out simp: env_keeps_def run_rel_def conf_rel_def\<close>)
qed

interpretation asks: run_frame "run_rel X q" X for X :: "'w env" and q :: "'w \<Rightarrow> nat"
proof (intro run_frame.intro reset_frame.intro run_frame_axioms.intro reset_frame_axioms.intro
    step_frame.intro step_frame_axioms.intro mapper_frame.intro mapper_frame_axioms.intro run_driver_frame)
  show "keeps (run_rel X q) (reset_device X fuel)" for fuel
    by (rule keeps_reset_deviceI [OF run_driver_frame]) (simp add: run_rel_def conf_rel_def)
  show "keeps (run_rel X q) (bindM (getM recv_s_min) (\<lambda>d. outM (time_sleep X d)))"
  proof (rule keepsI)
    fix s t :: "'w sul"
    assume "final (bindM (getM recv_s_min) (\<lambda>d. outM (time_sleep X d)) s) = Some t"
    then have "final (outM (time_sleep X (recv_s_min s)) s) = Some t" by (simp add: bindM_def getM_def)
    moreover have "keeps (run_rel X q) (outM (time_sleep X (recv_s_min s)) :: ('w sul, unit) comp)"
      by (rule keeps_run_out) (simp add: asks_less_def)
    ultimately show "run_rel X q s t" by (rule keepsD [rotated])
  qed
qed (simp_all add: run_rel_def conf_rel_def)

definition run_ok :: "'w env \<Rightarrow> ('w \<Rightarrow> rat) \<Rightarrow> ('w \<Rightarrow> nat) \<Rightarrow> nat \<Rightarrow> 'w sul \<Rightarrow> bool" where
  "run_ok X now q fuel s \<longleftrightarrow>
     world_halts X \<and> clock_ok X now \<and> clock_mono X now \<and> asks_less X q \<and>
     enough_turns (wait_limit s) (q (outside s)) fuel"

lemma run_ok_kept: "run_rel X q s t \<Longrightarrow> run_ok X now q fuel s \<Longrightarrow> run_ok X now q fuel t"
  by (auto simp: run_ok_def wait_limit_def run_rel_def conf_rel_def intro: enough_turns_fewer)

lemma run_ok_fuel: "run_ok X now q fuel s \<Longrightarrow> 7 \<le> fuel"
proof -
  assume "run_ok X now q fuel s"
  then have "100 * wait_limit s + 1 \<le> of_nat fuel" "2 \<le> wait_limit s"
    using enough_turns_once by (auto simp: run_ok_def wait_limit_def)
  then have "(7 :: rat) \<le> of_nat fuel" by linarith
  then show ?thesis by simp
qed

lemma ends_run:
  assumes "\<And>s. run_ok X now q fuel s \<Longrightarrow> m s \<noteq> NoRet" and "keeps (run_rel X q) m"
  shows "ends (run_ok X now q fuel) m"
proof (rule endsI)
  fix s x t
  assume s: "run_ok X now q fuel s" and "m s = Ret x t"
  from keeps_Ret [OF assms(2) this(2)] s show "run_ok X now q fuel t" by (rule run_ok_kept)
qed (rule assms(1))

lemma ends_world:
  assumes "world_halts X \<Longrightarrow> 0 < fuel \<Longrightarrow> halts m" and "keeps (run_rel X q) m"
  shows "ends (run_ok X now q fuel) m"
proof (rule ends_run [OF _ assms(2)])
  show "m s \<noteq> NoRet" if "run_ok X now q fuel s" for s
    using assms(1) run_ok_fuel [OF that] that by (simp add: run_ok_def halts_def)
qed

lemma halts_mk_packet: "halts (mk_packet name)"
  by (rule haltsI) (auto simp: mk_packet_def liftE_def unitM_def raiseM_def split: option.split sum.split)

text \<open>The operations without a waiting time.\<close>

lemma ends_send: "ends (run_ok X now q fuel) (send X pkt)"
  by (rule ends_world) (simp_all add: halts_send asks.keeps_send)

lemma ends_mk_packet: "ends (run_ok X now q fuel) (mk_packet name)"
  by (rule ends_world) (simp_all add: halts_mk_packet asks.keeps_mk_packet)

lemma ends_output_symbol: "ends (run_ok X now q fuel) (output_symbol X pkts)"
  by (rule ends_world) (simp_all add: halts_output_symbol asks.keeps_output_symbol)

lemma ends_reset_device: "ends (run_ok X now q fuel) (reset_device X fuel)"
  by (rule ends_world) (simp_all add: halts_reset_device asks.keeps_reset_device)

lemma ends_time: "ends (run_ok X now q fuel) (outM (time_time X))"
  by (rule ends_world) (simp_all add: world_halts_out asks.out_time)

lemma ends_new_connection: "ends (run_ok X now q fuel) (new_connection X)"
  unfolding new_connection_def random_address_def
  by (intro ends_world) (simp_all add: halts_rules world_halts_out
      asks.keeps_new_connection [unfolded new_connection_def random_address_def])

lemma ends_wait: "ends (run_ok X now q fuel) (bindM (getM recv_s_min) (\<lambda>d. outM (time_sleep X d)))"
  by (rule ends_world) (simp_all add: halts_rules world_halts_out asks.R_wait)

section \<open>Heuristics with a limit\<close>

definition short :: "rat option \<Rightarrow> bool" where
  "short smin \<longleftrightarrow> (case smin of None \<Rightarrow> True | Some v \<Rightarrow> v \<le> 2)"

lemma short_simps [simp]: "short None" "short (Some v) \<longleftrightarrow> v \<le> 2"
  by (simp_all add: short_def)

locale limited_stop = timed_stop +
  assumes limit: "short smin \<Longrightarrow> bound smin None req s \<le> wait_limit s"
begin

lemma ends_receive:
  assumes "short smin"
  shows "ends (run_ok X now q fuel) (receive X H fuel smin None k req)"
proof (rule ends_run)
  show "receive X H fuel smin None k req s \<noteq> NoRet" if "run_ok X now q fuel s" for s
    using that limit [OF assms, of req s]
    by (intro receive_ends [of now]) (auto simp: run_ok_def)
qed (rule asks.keeps_receive [OF hooks_kept [OF asks.mapper_frame_axioms]])

lemma ends_scan_loop: "ends (run_ok X now q fuel) (scan_loop X H fuel i n)"
proof (induction n arbitrary: i)
  case (Suc n)
  have "ends (run_ok X now q fuel) (bindM (getM (\<lambda>s. scan_wait (recv_s_min s) i)) (\<lambda>smin.
      bindM (receive X H fuel (Some smin) None 0 (Some pkt)) k))"
    if "\<And>x. ends (run_ok X now q fuel) (k x)" for pkt k
  proof (rule endsI)
    fix s
    assume s: "run_ok X now q fuel s"
    have "ends (run_ok X now q fuel)
        (bindM (receive X H fuel (Some (scan_wait (recv_s_min s) i)) None 0 (Some pkt)) k)"
      by (intro ends_rules ends_receive that) (simp add: scan_wait_def)
    with s show "bindM (getM (\<lambda>s. scan_wait (recv_s_min s) i)) (\<lambda>smin.
        bindM (receive X H fuel (Some smin) None 0 (Some pkt)) k) s \<noteq> NoRet"
      "\<And>x t. bindM (getM (\<lambda>s. scan_wait (recv_s_min s) i)) (\<lambda>smin.
        bindM (receive X H fuel (Some smin) None 0 (Some pkt)) k) s = Ret x t \<Longrightarrow> run_ok X now q fuel t"
      by (simp_all add: ends_def bindM_def getM_def)
  qed
  note turn = this
  show ?case unfolding scan_loop.simps
    by (intro ends_thenM ends_bindM [OF ends_mk_packet] ends_send turn)
       (simp add: ends_rules ends_reset_device Suc.IH)
qed (simp add: ends_raiseM)

lemma ends_reset: "ends (run_ok X now q fuel) (reset X H fuel)"
  unfolding reset_def
  by (intro ends_bindM [OF ends_getM] ends_thenM ends_whenM ends_wait ends_new_connection
      ends_scan_loop ends_bindM [OF ends_mk_packet] ends_send)

lemma ends_pre: "ends (run_ok X now q fuel) (pre X H fuel)"
  unfolding pre_def by (intro ends_reraise ends_reset)

lemma ends_ll_ctrl_enc_req: "ends (run_ok X now q fuel) (ll_ctrl_enc_req X H fuel pkt)"
proof (rule ends_run)
  show "ll_ctrl_enc_req X H fuel pkt s \<noteq> NoRet" if "run_ok X now q fuel s" for s
  proof (rule ll_ctrl_enc_req_ends [of now])
    show "bound None None req s \<le> wait_limit s" for req by (simp add: limit)
  qed (use that in \<open>simp_all add: run_ok_def\<close>)
qed (rule asks.keeps_ll_ctrl_enc_req [OF hooks_kept [OF asks.mapper_frame_axioms]])

lemma ends_ll_adv_connect_ind: "ends (run_ok X now q fuel) (ll_adv_connect_ind X H fuel pkt)"
  unfolding ll_adv_connect_ind_def
  by (intro ends_thenM ends_send ends_bindM [OF ends_receive] ends_bindM [OF ends_mk_packet]
      ends_output_symbol) simp_all

lemma ends_ll_ctrl_terminate_ind: "ends (run_ok X now q fuel) (ll_ctrl_terminate_ind X H fuel pkt)"
proof -
  have "ends (run_ok X now q fuel) (with_conn (\<lambda>c. send X (feature_req c)))"
    by (rule ends_world)
       (auto intro: halts_with_conn halts_send asks.keeps_with_conn asks.keeps_send)
  then show ?thesis
    unfolding ll_ctrl_terminate_ind_def receive_output_symbol_def
    by (intro ends_thenM ends_send ends_bindM [OF ends_receive] ends_output_symbol) simp_all
qed

end

lemma max_limit_wait: "short smin \<Longrightarrow> short smax \<Longrightarrow> max_limit s smin smax \<le> wait_limit s"
  by (cases smin; cases smax) (auto simp: max_limit_def min_limit_def wait_limit_def Let_def)

interpretation default_limit:
  limited_stop X "default_hooks X" "\<lambda>smin smax req s. max_limit s smin smax" "\<lambda>_. 0" for X :: "'w env"
  by unfold_locales (simp add: max_limit_wait)

interpretation NimBLE_limit: limited_stop X "NimBLE_hooks X" "stop_bound (1 / 2)" "\<lambda>_. 0"
  for X :: "'w env"
  by unfold_locales (simp add: stop_bound_def max_limit_wait)

interpretation DKNimBLE_limit: limited_stop X "DKNimBLE_hooks X" "stop_bound 2" "\<lambda>_. 0"
  for X :: "'w env"
  by unfold_locales (simp add: stop_bound_def max_limit_wait)

section \<open>Every class but the one that answers packets\<close>

lemma mapper_limited:
  assumes "f \<noteq> IntelAX200BlueZ"
  obtains bound where "limited_stop X (mapper_hooks X f) bound (\<lambda>_. 0)"
proof (cases "f \<in> {NimBLE, CI}")
  case True
  then show ?thesis
    using that NimBLE_limit.limited_stop_axioms [of X] by (auto simp: mapper_hooks_def)
next
  case False
  show ?thesis
  proof (cases "f = NRF52840DKNimBLE")
    case True
    then show ?thesis
      using that DKNimBLE_limit.limited_stop_axioms [of X] by (auto simp: mapper_hooks_def)
  next
    case other: False
    have "mapper_hooks X f = default_hooks X"
      using assms False other by (cases f) (simp_all add: mapper_hooks_def)
    then show ?thesis using that default_limit.limited_stop_axioms [of X] by simp
  qed
qed

lemma halts_att_method: "att_method f = Some m \<Longrightarrow> halts (m pkt)"
  by (auto simp: att_method_def att_read_req_pre_defs halts_unitM split: mapper.splits)

lemma halts_pre_method:
  assumes "world_halts X" and "mapper_pre X f name = Some m"
  shows "halts (m pkt)"
  using assms(2)
  by (auto simp: mapper_pre_def base_pre_def ll_adv_scan_req_pre_NimBLE_def
      ll_adv_scan_req_pre_def ll_adv_connect_ind_pre_def sm_pairing_req_sc_pre_def
      sm_pairing_req_pre_def split: if_splits
      intro: halts_att_method
      intro!: halts_rules halts_upd_conn halts_with_conn world_halts_out [OF assms(1)])

lemma halts_post_method: "base_post name = Some m \<Longrightarrow> halts (m pkts)"
  by (auto simp: base_post_def ll_adv_scan_req_post_def ll_ctrl_pause_enc_req_post_def
      split: if_splits intro!: halts_rules halts_upd_conn)

lemma halts_suspicious: "halts (is_last_sym_suspicious (mapper X fuel f))"
  by (cases f)
     (auto simp: mapper_def base_suspicious_def suspicious_Arduino_def suspicious_nRF52840_def
        suspicious_DKNimBLE_def intro!: halts_rules)

lemma mapper_sels:
  "hooks_of (mapper X fuel f) = mapper_hooks X f"
  "whole_method (mapper X fuel f) = mapper_whole X fuel f"
  "pre_method (mapper X fuel f) = mapper_pre X f" "post_method (mapper X fuel f) = base_post"
  by (simp_all add: mapper_def)

lemma ends_run_symbol:
  assumes L: "limited_stop X (mapper_hooks X f) bound q"
  shows "ends (run_ok X now q fuel) (run_symbol X (mapper X fuel f) fuel i)"
proof -
  have keep: "cls_keep (run_rel X q) (mapper X fuel f)"
    by (rule cls_keep_mapper [OF asks.step_frame_axioms])
  have whole: "ends (run_ok X now q fuel) (m pkt)" if "mapper_whole X fuel f name = Some m" for name m pkt
  proof -
    define H where "H = mapper_hooks X f"
    note L = L [folded H_def]
    show ?thesis
      using that unfolding mapper_whole_def base_whole_def connect_ind_copies H_def [symmetric]
      by (auto split: if_splits
          intro: limited_stop.ends_ll_adv_connect_ind [OF L] limited_stop.ends_ll_ctrl_enc_req [OF L]
            limited_stop.ends_ll_ctrl_terminate_ind [OF L])
  qed
  have pre: "ends (run_ok X now q fuel) (case mapper_pre X f name of Some m \<Rightarrow> m pkt | None \<Rightarrow> unitM pkt)"
    for name pkt
    using keep
    by (auto split: option.split simp: ends_unitM cls_keep_def mapper_def
        intro!: ends_world halts_pre_method)
  have post: "ends (run_ok X now q fuel) (case base_post name of Some m \<Rightarrow> m pkts | None \<Rightarrow> unitM pkts)"
    for name pkts
    using keep
    by (auto split: option.split simp: ends_unitM cls_keep_def mapper_def
        intro!: ends_world halts_post_method)
  have rest: "ends (run_ok X now q fuel) (bindM (case mapper_pre X f name of
        Some m \<Rightarrow> m pkt | None \<Rightarrow> unitM pkt) (\<lambda>pkt.
      thenM (send X pkt) (bindM (receive X (mapper_hooks X f) fuel None None 0 (Some pkt)) (\<lambda>res_pkts.
        bindM (case base_post name' of Some m \<Rightarrow> m res_pkts | None \<Rightarrow> unitM res_pkts)
          (output_symbol X)))))" for name name' pkt
    by (intro ends_bindM pre post ends_thenM ends_send limited_stop.ends_receive [OF L]
        ends_output_symbol) simp
  have "ends (run_ok X now q fuel) (case mapper_whole X fuel f name of Some m \<Rightarrow> m pkt | None \<Rightarrow>
      bindM (case mapper_pre X f name1 of Some m \<Rightarrow> m pkt | None \<Rightarrow> unitM pkt) (\<lambda>pkt.
      thenM (send X pkt) (bindM (receive X (mapper_hooks X f) fuel None None 0 (Some pkt)) (\<lambda>res_pkts.
        bindM (case base_post name2 of Some m \<Rightarrow> m res_pkts | None \<Rightarrow> unitM res_pkts)
          (output_symbol X)))))" for name name1 name2 pkt
    using rest by (cases "mapper_whole X fuel f name") (simp_all add: whole)
  then show ?thesis
    unfolding run_symbol_def mapper_sels by (intro ends_bindM ends_mk_packet)
qed

lemma ends_pre_run:
  assumes L: "limited_stop X (mapper_hooks X f) bound q"
  shows "ends (run_ok X now q fuel) (pre_run (mapper X fuel f))"
proof -
  have stamp: "ends (run_ok X now q fuel) (modM (\<lambda>s. s\<lparr>last_device_reset_time := t\<rparr>))" for t
    by (auto simp: ends_def modM_def intro: run_ok_kept [OF asks.R_stamp])
  have "ends (run_ok X now q fuel) (reset_device_nrf X fuel)"
    by (rule ends_world) (simp_all add: halts_reset_device_nrf asks.keeps_reset_device_nrf)
  then have "ends (run_ok X now q fuel) (pre_nRF52840 X (mapper_hooks X f) fuel)"
    unfolding pre_nRF52840_def
    by (intro ends_rules ends_time stamp limited_stop.ends_pre [OF L])
  then show ?thesis
    using limited_stop.ends_pre [OF L, of now fuel] unfolding mapper_def by (cases "f = NRF52840") simp_all
qed

text \<open>A class whose heuristic has a limit, against a peer that asks it finitely often.\<close>

lemma limited_ending:
  assumes L: "limited_stop X (mapper_hooks X f) bound q"
  shows "ending_class X (mapper X fuel f) (run_rel X q) fuel (run_ok X now q fuel)"
proof (intro ending_class.intro ending_class_axioms.intro)
  show "run_symbol X (mapper X fuel f) fuel i s \<noteq> NoRet" if "run_ok X now q fuel s" for i s
    by (rule endsD [OF ends_run_symbol [OF L] that])
  show "pre_run (mapper X fuel f) s \<noteq> NoRet" if "run_ok X now q fuel s" for s
    by (rule endsD [OF ends_pre_run [OF L] that])
  show "reset_device X fuel s \<noteq> NoRet" if "run_ok X now q fuel s" for s
    by (rule endsD [OF ends_reset_device that])
qed (auto intro: run_ok_kept run_ok_fuel halts_suspicious classes.mapper_class_axioms asks.run_frame_axioms)

end
