(* ===== verification/Answering.thy ===== *)
theory Answering
  imports Ending
begin

text \<open>
  The class that answers packets itself (BLESUL\_IntelAX200BlueZ): what a turn of \<open>receive\<close> reads
  out of a frame, which packets are questions to this class, and the runs against a peer that asks
  finitely often, which end like those of the other classes.
\<close>

section \<open>What a frame is read as\<close>

text \<open>
  The packet that the received bytes add to the result, in one expression: nothing for a packet of
  someone else, for one whose check value is wrong, and where the code raises.
\<close>

definition decrypted :: "'w env \<Rightarrow> conn \<Rightarrow> packet \<Rightarrow> packet option" where
  "decrypted X c pkt =
     (if \<not> encrypted c then Some pkt
      else case bindE (raw X pkt) (decrypt_pdu X c) of
             Inr None \<Rightarrow> Some pkt
           | Inr (Some (data, ok)) \<Rightarrow> if ok then Some (btle_dissect X data) else None
           | Inl _ \<Rightarrow> None)"

definition read_packet :: "'w env \<Rightarrow> 'w sul \<Rightarrow> bytes \<Rightarrow> packet option" where
  "read_packet X s data =
     (let pkt = btle_dissect X data in
      case connection s of
        None \<Rightarrow> None
      | Some c \<Rightarrow>
          if is_target s c pkt \<noteq> Inr True then None
          else case decrypted X (c\<lparr>encrypted := encrypted c \<and> \<not> haslayer BTLE_ADV pkt\<rparr>) pkt of
                 None \<Rightarrow> None
               | Some p \<Rightarrow> (case fix_packet p of Inr p' \<Rightarrow> Some p' | Inl _ \<Rightarrow> None))"

lemma decrypt_step_reads:
  assumes "connection s = Some c" and "decrypt_step X pkt s = Ret (p, broken) t"
  shows "decrypted X c pkt = (if broken then None else Some p)"
  using assms
  by (auto simp: decrypt_step_def with_conn_def decrypted_def bindE_def liftE_def unitM_def
      raiseM_def bindM_eq_Ret thenM_eq_Ret split: if_splits sum.splits option.splits)

lemma decrypt_step_connected:
  assumes "connection s = None" shows "decrypt_step X pkt s \<noteq> Ret r t"
  using assms by (simp add: decrypt_step_def with_conn_def raiseM_def)

text \<open>The answer, if any, is given to the packet that was read.\<close>

lemma receive_body_read:
  assumes body: "receive_body X H fuel data pkts ts s = Ret (pkts', ts') u"
  shows "case read_packet X s data of
      None \<Rightarrow> pkts' = pkts \<and> ts' = ts
    | Some p \<Rightarrow> pkts' = pkts @ [p] \<and>
        (\<exists>t r. process_packet X H fuel p t = Ret r u \<and> ts' = (case r of None \<Rightarrow> ts | Some v \<Rightarrow> v))"
proof -
  define pkt where "pkt = btle_dissect X data"
  let ?s = "if haslayer BTLE_ADV pkt
    then s\<lparr>connection := map_option (encrypted_update (\<lambda>_. False)) (connection s)\<rparr> else s"
  obtain c where c: "connection s = Some c"
    using body by (cases "connection s") (simp_all add: receive_body_def Let_def with_conn_def)
  let ?c = "c\<lparr>encrypted := encrypted c \<and> \<not> haslayer BTLE_ADV pkt\<rparr>"
  obtain b where b: "is_target s c pkt = Inr b"
    using body c by (cases "is_target s c pkt")
      (simp_all add: receive_body_def Let_def with_conn_def pkt_def bindM_def getM_def liftE_def raiseM_def)
  have pre: "whenM (haslayer BTLE_ADV pkt) (upd_conn (encrypted_update (\<lambda>_. False))) s = Ret () ?s"
    by (simp add: whenM_def upd_conn_def modM_def unitM_def)
  have conn: "connection ?s = Some ?c" using c by (cases c) simp
  show ?thesis
  proof (cases b)
    case False
    then show ?thesis using body b c
      by (simp add: receive_body_def Let_def with_conn_def pkt_def [symmetric] bindM_def getM_def
          liftE_def unitM_def read_packet_def)
  next
    case True
    then obtain p broken v where d: "decrypt_step X pkt ?s = Ret (p, broken) v"
      and rest: "(if broken then unitM (pkts, ts)
             else bindM (liftE (fix_packet p)) (\<lambda>pkt2.
                  bindM (process_packet X H fuel pkt2) (\<lambda>t.
                    unitM (pkts @ [pkt2], case t of None \<Rightarrow> ts | Some v \<Rightarrow> v)))) v = Ret (pkts', ts') u"
      using body b c pre
      by (auto simp: receive_body_def Let_def with_conn_def pkt_def [symmetric] getM_def
          liftE_def unitM_def bindM_eq_Ret thenM_eq_Ret)
    have r: "read_packet X s data = (if broken then None
        else case fix_packet p of Inr p' \<Rightarrow> Some p' | Inl _ \<Rightarrow> None)"
      using decrypt_step_reads [OF conn d] c b True by (simp add: read_packet_def pkt_def)
    show ?thesis using rest
      by (auto simp: r liftE_def unitM_def raiseM_def bindM_eq_Ret split: sum.splits if_splits)
  qed
qed

section \<open>Questions\<close>

definition is_question :: "packet \<Rightarrow> bool" where
  "is_question pkt \<longleftrightarrow>
     haslayer ATT_Exchange_MTU_Request pkt \<or>
     haslayer ATT_Read_By_Type_Request pkt \<and>
       layer_attr pkt ATT_Read_By_Type_Request ''uuid'' \<in> {Inr (VInt 0x2b3a), Inr (VInt 0x2b2a)} \<or>
     haslayer ATT_Read_By_Group_Type_Request pkt"

lemma BlueZ_answers:
  assumes "handle_packet_BlueZ pkt s = Ret (Some r) t"
  shows "is_question pkt"
proof (rule ccontr)
  assume "\<not> is_question pkt"
  then have no: "\<not> haslayer ATT_Exchange_MTU_Request pkt" "\<not> haslayer ATT_Read_By_Group_Type_Request pkt"
    and uuid: "haslayer ATT_Read_By_Type_Request pkt \<Longrightarrow>
      layer_attr pkt ATT_Read_By_Type_Request ''uuid'' = Inr v \<Longrightarrow> v \<noteq> VInt 0x2b3a \<and> v \<noteq> VInt 0x2b2a" for v
    by (auto simp: is_question_def)
  define hex where "hex = fromhex"
  show False
  proof (cases "haslayer ATT_Read_By_Type_Request pkt")
    case True
    then show False using assms no uuid [OF True]
      by (cases "layer_attr pkt ATT_Read_By_Type_Request ''uuid''"; cases "connection s")
         (simp_all add: handle_packet_BlueZ_def hex_def [symmetric] with_conn_def monad_simps)
  next
    case False
    then show False using assms no
      by (cases "connection s") (simp_all add: handle_packet_BlueZ_def hex_def [symmetric]
        with_conn_def monad_simps)
  qed
qed

text \<open>
  A peer that asks finitely often: whatever happens, no more than before, and one time less with
  each question that the dongle delivers.
\<close>

definition finitely_asked :: "'w env \<Rightarrow> ('w \<Rightarrow> nat) \<Rightarrow> bool" where
  "finitely_asked X q \<longleftrightarrow> asks_less X q \<and>
     (\<forall>s data t pkt. raw_receive X s = Ret (Some data) t \<longrightarrow> read_packet X t data = Some pkt \<longrightarrow>
        is_question pkt \<longrightarrow> q (outside t) < q (outside s))"

lemma BlueZ_hooks:
  "mapper_hooks X IntelAX200BlueZ = (default_hooks X)\<lparr>handle_packet := Some handle_packet_BlueZ\<rparr>"
  by (simp add: mapper_hooks_def)

lemma halts_handle_packet_BlueZ: "halts (handle_packet_BlueZ pkt)"
  unfolding handle_packet_BlueZ_def by (intro halts_with_conn halts_rules)

text \<open>Only a question starts the clock again.\<close>

lemma restart_answers:
  assumes body: "receive_body X (mapper_hooks X IntelAX200BlueZ) fuel data pkts ts s = Ret (pkts', ts') u"
    and "ts' \<noteq> ts"
  shows "\<exists>pkt. read_packet X s data = Some pkt \<and> is_question pkt"
proof (cases "read_packet X s data")
  case None
  with receive_body_read [OF body] assms(2) show ?thesis by simp
next
  case (Some p)
  with receive_body_read [OF body] assms(2) obtain t v
    where "process_packet X (mapper_hooks X IntelAX200BlueZ) fuel p t = Ret (Some v) u"
    by (fastforce split: option.splits)
  then obtain t1 res t2 where "handle_packet_BlueZ p t1 = Ret res t2"
      "(case res of None \<Rightarrow> unitM None | Some a \<Rightarrow>
         thenM (send X a) (bindM (outM (time_time X)) (\<lambda>t. unitM (Some t)))) t2 = Ret (Some v) u"
    unfolding process_packet_def BlueZ_hooks thenM_eq_Ret bindM_eq_Ret [of "handle_packet_BlueZ p"]
    by (simp add: bindM_eq_Ret [of "handle_packet_BlueZ p"]) blast
  then have "is_question p"
    by (cases res) (auto simp: unitM_def intro: BlueZ_answers)
  with Some show ?thesis by blast
qed

lemma BlueZ_limited:
  assumes "finitely_asked X q"
  shows "limited_stop X (mapper_hooks X IntelAX200BlueZ) (\<lambda>smin smax req s. max_limit s smin smax) q"
proof (intro limited_stop.intro limited_stop_axioms.intro timed_stop.intro)
  show "env_keeps X (\<lambda>w w'. q w' \<le> q w)"
    using assms by (simp add: finitely_asked_def asks_less_def)
  show "q (outside t) < q (outside s)"
    if "raw_receive X s = Ret (Some data) t" "ts' \<noteq> ts"
      "receive_body X (mapper_hooks X IntelAX200BlueZ) fuel data pkts ts t = Ret (pkts', ts') u"
    for s t u :: "'a sul" and data fuel pkts ts pkts' ts'
    using restart_answers [OF that(3,2)] that(1) assms by (auto simp: finitely_asked_def)
qed (auto simp: BlueZ_hooks default_hooks_def limits_cfg max_limit_wait intro: is_rsp_complete_stops
       halts_is_rsp_complete mapper_frame.keeps_is_rsp_complete halts_handle_packet_BlueZ
       mapper_frame.keeps_handle_packet_BlueZ)

text \<open>In particular, a peer whose frames take up only so many bytes.\<close>

lemma receive_costs_byte:
  fixes s :: "'w sul"
  assumes less: "asks_less X q"
    and cost: "\<And>tmo n w bs w'. ser_read X tmo n w = Ret bs w' \<Longrightarrow> bs \<noteq> [] \<Longrightarrow> q w' < q w"
    and rec: "raw_receive X s = Ret (Some data) t"
  shows "q (outside t) < q (outside s)"
proof -
  let ?s = "s\<lparr>ser_timeout := Some 0\<rparr>"
  obtain c w where c: "ser_read X (Some 0) 1 (outside s) = Ret c w" "c \<noteq> []"
    and rest: "(if c = NRF52_CMD_DATA \<or> c = NRF52_CMD_DATA_TX then receive_data X c
       else if c = NRF52_CMD_LOG
       then bindM (rd_le16 X) (\<lambda>sz. thenM (rd X (nat sz)) (unitM None))
       else unitM None) (s\<lparr>outside := w, ser_timeout := None\<rparr>) = Ret (Some data) t"
    using rec by (cases "ser_read X (Some 0) 1 (outside s)")
      (auto simp: raw_receive_def thenM_def modM_def rd_def bindM_def getM_def outM_def unitM_def
        split: if_splits)
  then have "receive_data X c (s\<lparr>outside := w, ser_timeout := None\<rparr>) = Ret (Some data) t"
    by (auto simp: bindM_eq_Ret thenM_eq_Ret unitM_def split: if_splits)
  from keeps_Ret [OF asks.keeps_receive_data this]
  have "q (outside t) \<le> q w" using less by (simp add: run_rel_def)
  also have "q w < q (outside s)" by (rule cost [OF c])
  finally show ?thesis .
qed

lemma finitely_asked_bytes:
  assumes "asks_less X q"
    and "\<And>tmo n w bs w'. ser_read X tmo n w = Ret bs w' \<Longrightarrow> bs \<noteq> [] \<Longrightarrow> q w' < q w"
  shows "finitely_asked X q"
  using assms(1) receive_costs_byte [OF assms] by (auto simp: finitely_asked_def)

end
