(* ===== verification/Endless.thy ===== *)
theory Endless
  imports Answering
begin

text \<open>
  The class that answers packets itself (BLESUL\_IntelAX200BlueZ) against a peer that keeps asking:
  each answer restarts the clock of \<open>receive\<close>, so it never comes back. The other classes return
  from the same peer, and this class does once the peer stops asking. And the account of the
  device resets.
\<close>

text \<open>A world in which every call comes back.\<close>

definition sim_live :: "sim env" where
  "sim_live = sim_env\<lparr>ser_open := Ret (),
     ser_read := \<lambda>t n w. Ret (take n (sim_rx w)) (w\<lparr>sim_rx := drop n (sim_rx w)\<rparr>)\<rparr>"

lemma sim_live_halts: "world_halts sim_live"
  by (simp add: world_halts_def sim_live_def sim_env_def halts_def returns_def)

lemma sim_live_clock: "clock_ok sim_live sim_now"
  by (simp add: clock_ok_def sim_live_def sim_env_def)

lemma sim_live_mono: "clock_mono sim_live sim_now"
  by (auto simp: clock_mono_def env_keeps_def sim_live_def sim_env_def keeps_def)

section \<open>A peer that keeps asking\<close>

text \<open>Every frame is an MTU request, and every frame sent is answered by the next one.\<close>

definition mtu_request :: packet where
  "mtu_request = [Layer BTLE [(''access_addr'', VInt 7)], Layer BTLE_DATA [], Layer L2CAP_Hdr [],
     Layer ATT_Hdr [], Layer ATT_Exchange_MTU_Request []]"

definition mtu_frame :: bytes where
  "mtu_frame = dongle_frame 0xA7 0 [1] (good_cks [1])"

definition sim_chatty :: "sim env" where
  "sim_chatty = sim_live\<lparr>btle_dissect := \<lambda>_. mtu_request\<rparr>"

definition chatty_conn :: conn where
  "chatty_conn = sim_conn\<lparr>encrypted := False\<rparr>"

definition chatty_start :: "sim sul" where
  "chatty_start = sim_sul (sim0\<lparr>sim_rx := mtu_frame, sim_reply := mtu_frame\<rparr>) chatty_conn"

lemma sim_chatty_serial: "serial_ok sim_chatty sim_rx"
  by (simp add: serial_ok_def sim_chatty_def sim_live_def)

lemma sim_chatty_halts: "world_halts sim_chatty"
  using sim_live_halts by (simp add: world_halts_def sim_chatty_def)

lemma sim_chatty_clock: "clock_ok sim_chatty sim_now"
  using sim_live_clock by (simp add: clock_ok_def sim_chatty_def)

lemma sim_chatty_mono: "clock_mono sim_chatty sim_now"
  using sim_live_mono by (simp add: clock_mono_def env_keeps_def sim_chatty_def)

interpretation same_reply: driver_frame "out_rel (\<lambda>w w'. sim_reply w' = sim_reply w)" sim_chatty
  by (rule driver_frame_out_rel)
     (auto simp: env_keeps_def sim_chatty_def sim_live_def sim_env_def keeps_def)

text \<open>The state the receive loop comes back to.\<close>

definition asked :: "sim sul \<Rightarrow> bool" where
  "asked s \<longleftrightarrow> sim_rx (outside s) = mtu_frame \<and> sim_reply (outside s) = mtu_frame \<and>
     connection s = Some chatty_conn \<and> symbols s = Some Map.empty \<and> \<not> logs_pcap s \<and>
     0 < recv_s_min s \<and> 0 < recv_s_max s"

lemma asked_start: "asked chatty_start"
  by (simp add: asked_def chatty_start_def)

lemma receive_frame:
  assumes "asked s"
  obtains w where "raw_receive sim_chatty s = Ret (Some [1]) (s\<lparr>event_counter := 0, ser_timeout := None, outside := w\<rparr>)"
    "sim_rx w = []" "sim_reply w = mtu_frame"
proof -
  have rx: "sim_rx (outside s) = dongle_frame 0xA7 0 [1] (good_cks [1]) @ []"
    using assms by (simp add: asked_def mtu_frame_def)
  obtain w where w: "sim_rx w = []" "raw_receive sim_chatty s = Ret (Some [1])
      (accept_data sim_chatty [0xA7] 0 [1] (s\<lparr>ser_timeout := None, outside := w\<rparr>))"
    using raw_receive_data [OF sim_chatty_serial _ rx] by auto
  have a: "accept_data sim_chatty [0xA7] 0 [1] (s\<lparr>ser_timeout := None, outside := w\<rparr>) =
      s\<lparr>event_counter := 0, ser_timeout := None, outside := w\<rparr>"
    using assms by (simp add: accept_data_def Let_def NRF52_CMD_DATA_TX_def asked_def)
  have "out_rel (\<lambda>w w'. sim_reply w' = sim_reply w) s
      (accept_data sim_chatty [0xA7] 0 [1] (s\<lparr>ser_timeout := None, outside := w\<rparr>))"
    using w(2) by (rule keeps_Ret [OF same_reply.keeps_raw_receive])
  then have "sim_reply w = mtu_frame" using assms by (simp add: a out_rel_def asked_def)
  with w a show ?thesis by (intro that) simp_all
qed

lemma quiet_request: "\<not> py_contains ''Raw'' (sim_summary mtu_request)"
  by code_simp

lemma chatty_env:
  "btle_dissect sim_chatty bs = mtu_request" "summary sim_chatty = sim_summary"
  "raw sim_chatty = sim_raw" "time_time sim_chatty = (\<lambda>w. Ret (sim_now w) w)"
  "time_sleep sim_chatty d w = Ret () (w\<lparr>sim_now := sim_now w + d\<rparr>)"
  "ser_write sim_chatty bs w = Ret () (w\<lparr>sim_tx := sim_tx w @ [bs], sim_rx := sim_rx w @ sim_reply w\<rparr>)"
  by (simp_all add: sim_chatty_def sim_live_def sim_env_def)

lemma request_layers:
  "haslayer n mtu_request \<longleftrightarrow> n \<in> {BTLE, BTLE_DATA, L2CAP_Hdr, ATT_Hdr, ATT_Exchange_MTU_Request}"
  by (auto simp: mtu_request_def)

lemma request_target:
  "connection s = Some chatty_conn \<Longrightarrow> is_target s chatty_conn mtu_request = Inr True"
  by (simp add: is_target_def request_layers getattr_def mtu_request_def chatty_conn_def)

lemma asked_body:
  assumes "connection s = Some chatty_conn" "\<not> logs_pcap s"
    and "sim_rx (outside s) = []" "sim_reply (outside s) = mtu_frame"
  shows "\<exists>t. receive_body sim_chatty (mapper_hooks sim_chatty IntelAX200BlueZ) n bs pkts ts s =
      Ret (pkts @ [mtu_request], sim_now (outside t)) t \<and> sim_rx (outside t) = mtu_frame \<and>
      sim_reply (outside t) = mtu_frame \<and> t = s\<lparr>outside := outside t\<rparr>"
proof -
  obtain b where b: "sim_raw (att_answer chatty_conn (Layer ATT_Exchange_MTU_Response [(''mtu'', VInt 247)])) = Inr b"
    by (simp add: sim_raw_def Let_def)
  have conn: "\<not> encrypted chatty_conn" by (simp add: chatty_conn_def)
  have repaired: "fix_packet mtu_request = Inr mtu_request" by (simp add: fix_packet_def request_layers)
  show ?thesis
    using assms b conn repaired
    by (simp add: receive_body_def chatty_env with_conn_def monad_simps request_target request_layers
        decrypt_step_def process_packet_def quiet_request mapper_hooks_def default_hooks_def
        handle_packet_BlueZ_def send_def send_nrf_def raw_send_def outM_def)
qed

lemma asked_turn:
  assumes "asked s"
  shows "\<exists>t. receive_turn sim_chatty (mapper_hooks sim_chatty IntelAX200BlueZ) n pkts ts s =
      Ret (pkts @ [mtu_request], sim_now (outside t)) t \<and> asked t"
proof -
  let ?s = "s\<lparr>outside := (outside s)\<lparr>sim_now := sim_now (outside s) + 1 / 100\<rparr>\<rparr>"
  have "asked ?s" using assms by (simp add: asked_def)
  then obtain w where w: "raw_receive sim_chatty ?s = Ret (Some [1])
        (?s\<lparr>event_counter := 0, ser_timeout := None, outside := w\<rparr>)"
      "sim_rx w = []" "sim_reply w = mtu_frame"
    by (rule receive_frame)
  let ?r = "?s\<lparr>event_counter := 0, ser_timeout := None, outside := w\<rparr>"
  obtain t where t: "receive_body sim_chatty (mapper_hooks sim_chatty IntelAX200BlueZ) n [1] pkts ts ?r =
      Ret (pkts @ [mtu_request], sim_now (outside t)) t" "sim_rx (outside t) = mtu_frame"
      "sim_reply (outside t) = mtu_frame" "t = ?r\<lparr>outside := outside t\<rparr>"
    using asked_body [of ?r n "[1]" pkts ts] assms w(2,3) by (auto simp: asked_def)
  have "asked t" using t(2,3) assms by (subst t(4)) (simp add: asked_def)
  moreover have "receive_turn sim_chatty (mapper_hooks sim_chatty IntelAX200BlueZ) n pkts ts s =
      Ret (pkts @ [mtu_request], sim_now (outside t)) t"
    using w(1) t(1) by (simp add: receive_turn_def outM_def chatty_env thenM_def)
  ultimately show ?thesis by blast
qed

lemma not_complete:
  assumes "asked s" and "[] \<notin> set pkts"
  shows "is_rsp_complete sim_chatty pkts 0 None None None s = Ret False s"
  using assms count_packets [of s Map.empty pkts sim_chatty]
  by (simp add: is_rsp_complete_def getM_def asked_def max_limit_def min_limit_def Let_def)

lemma loop_endless:
  "asked s \<Longrightarrow> [] \<notin> set pkts \<Longrightarrow>
   receive_loop sim_chatty (mapper_hooks sim_chatty IntelAX200BlueZ) fuel None None 0 None n pkts ts s
     = NoRet"
proof (induction n arbitrary: pkts ts s)
  case (Suc n)
  obtain t where t: "receive_turn sim_chatty (mapper_hooks sim_chatty IntelAX200BlueZ) fuel pkts ts s =
      Ret (pkts @ [mtu_request], sim_now (outside t)) t" "asked t"
    using asked_turn [OF Suc.prems(1)] by blast
  have ne: "[] \<notin> set (pkts @ [mtu_request])" using Suc.prems(2) by (simp add: mtu_request_def)
  have h: "rsp_complete (mapper_hooks sim_chatty IntelAX200BlueZ) = is_rsp_complete sim_chatty"
    by (simp add: mapper_hooks_def default_hooks_def)
  show ?case
    using Suc.IH [OF t(2) ne]
    by (simp add: t(1) outM_def chatty_env h bindM_def [of "is_rsp_complete sim_chatty _ _ _ _ _"] not_complete [OF t(2) ne])
qed simp

section \<open>Property\<close>

text \<open>C27: The class that answers BlueZ's own requests can be kept in \<open>receive\<close> for ever, and no other
  class: against a peer that sends an MTU request after every answer no amount of turns ends it,
  since each answer restarts the clock of the time limit. From the same peer and state, a connection
  without encryption under any positive time limits, every other class returns or raises, once
  the fuel is a hundred times the longest waiting time, and one.\<close>

theorem blueZ_receive_endless:
  assumes "asked s" and "100 * max 2 (max (recv_s_min s) (recv_s_max s)) + 1 \<le> of_nat m"
  shows "(\<forall>n. receive sim_chatty (mapper_hooks sim_chatty IntelAX200BlueZ) n None None 0 None s = NoRet) \<and>
    (\<forall>f. f \<noteq> IntelAX200BlueZ \<longrightarrow>
       receive sim_chatty (mapper_hooks sim_chatty f) m None None 0 None s \<noteq> NoRet)"
proof (intro conjI allI impI)
  fix n
  let ?s = "s\<lparr>outside := outside s\<rparr>"
  have "receive_loop sim_chatty (mapper_hooks sim_chatty IntelAX200BlueZ) n None None 0 None n []
      (sim_now (outside s)) ?s = NoRet"
    by (rule loop_endless) (use assms(1) in simp_all)
  then show "receive sim_chatty (mapper_hooks sim_chatty IntelAX200BlueZ) n None None 0 None s = NoRet"
    by (simp add: receive_def outM_def chatty_env)
next
  fix f :: mapper
  assume "f \<noteq> IntelAX200BlueZ"
  then obtain bound where L: "limited_stop sim_chatty (mapper_hooks sim_chatty f) bound (\<lambda>_. 0)"
    by (rule mapper_limited)
  have "run_ok sim_chatty sim_now (\<lambda>_. 0) m s"
    using assms(2) sim_chatty_halts sim_chatty_clock sim_chatty_mono
    by (simp add: run_ok_def enough_turns_def wait_limit_def asks_nothing)
  with limited_stop.ends_receive [OF L, of None sim_now m 0 None]
  show "receive sim_chatty (mapper_hooks sim_chatty f) m None None 0 None s \<noteq> NoRet"
    by (simp add: ends_def short_def)
qed

theorem blueZ_receive_endless_witness:
  "(\<forall>n. receive sim_chatty (mapper_hooks sim_chatty IntelAX200BlueZ) n None None 0 None chatty_start = NoRet) \<and>
   receive sim_chatty (mapper_hooks sim_chatty NRF52840) 201 None None 0 None chatty_start \<noteq> NoRet"
proof -
  have "100 * max 2 (max (recv_s_min chatty_start) (recv_s_max chatty_start)) + 1 \<le> of_nat 201"
    by (simp add: chatty_start_def)
  from blueZ_receive_endless [OF asked_start this] show ?thesis by blast
qed

text \<open>C26: The class that answers packets itself comes back from a peer that asks finitely often. As
  long as every question it delivers lowers a number \<open>q\<close> that nothing raises, every step and \<open>pre\<close>
  return or raise, once the fuel is the one of the other classes (a hundred times the longest
  waiting time, and one) once for each question and once more: each answer starts the time limit of \<open>receive\<close> again,
  and nothing else does.\<close>

theorem blueZ_runs_end:
  assumes "finitely_asked X q" and "world_halts X" and "clock_ok X now" and "clock_mono X now"
    and "(of_nat (q (outside s)) + 1) * (100 * max 2 (max (recv_s_min s) (recv_s_max s)) + 1) \<le> of_nat fuel"
  shows "step X (mapper X fuel IntelAX200BlueZ) fuel i s \<noteq> NoRet \<and>
    pre_run (mapper X fuel IntelAX200BlueZ) s \<noteq> NoRet"
proof -
  note E = limited_ending [OF BlueZ_limited [OF assms(1)], of fuel now]
  have "run_ok X now q fuel s"
    using assms by (simp add: run_ok_def enough_turns_def wait_limit_def finitely_asked_def)
  then show ?thesis using ending_class.step_ends [OF E] ending_class.pre_ends [OF E] by blast
qed

text \<open>The same peer, which has one question and then nothing more to send.\<close>

definition sim_asking :: "sim env" where
  "sim_asking = sim_chatty\<lparr>ser_write := \<lambda>bs w. Ret () (w\<lparr>sim_tx := sim_tx w @ [bs]\<rparr>)\<rparr>"

lemma sim_asking_finitely: "finitely_asked sim_asking (\<lambda>w. length (sim_rx w))"
proof (rule finitely_asked_bytes)
  show "asks_less sim_asking (\<lambda>w. length (sim_rx w))"
    by (auto simp: asks_less_def env_keeps_def keeps_def sim_asking_def sim_chatty_def sim_live_def
        sim_env_def)
qed (auto simp: sim_asking_def sim_chatty_def sim_live_def)

theorem blueZ_runs_end_witness:
  "is_question (btle_dissect sim_asking [1]) \<and> sim_rx (outside chatty_start) \<noteq> [] \<and>
   step sim_asking (mapper sim_asking 2010 IntelAX200BlueZ) 2010 ''LL_DATA'' chatty_start \<noteq> NoRet"
proof -
  have "world_halts sim_asking" "clock_ok sim_asking sim_now" "clock_mono sim_asking sim_now"
    using sim_chatty_halts sim_chatty_clock sim_chatty_mono
    by (auto simp: sim_asking_def world_halts_def clock_ok_def clock_mono_def env_keeps_def
        halts_def returns_def keeps_def)
  moreover have "length (sim_rx (outside chatty_start)) \<le> 9"
    by (simp add: chatty_start_def mtu_frame_def) code_simp
  moreover have "recv_s_min chatty_start = 1 / 10" "recv_s_max chatty_start = 1"
    "sim_rx (outside chatty_start) \<noteq> []"
    by (simp_all add: chatty_start_def mtu_frame_def) code_simp
  moreover have "is_question (btle_dissect sim_asking [1])"
    by (simp add: sim_asking_def sim_chatty_def is_question_def request_layers)
  ultimately show ?thesis
    using blueZ_runs_end [OF sim_asking_finitely, of sim_now chatty_start 2010 "''LL_DATA''"]
    by simp
qed

section \<open>Pauses\<close>

lemma fold_pauses:
  "fold (\<lambda>(a, b) t. t + (b - a)) ps (x :: rat) = x + sum_list (map (\<lambda>(a, b). b - a) ps)"
  by (induction ps arbitrary: x) auto

lemma total_pause_sum: "total_pause_time s = sum_list (map (\<lambda>(a, b). b - a) (reset_breaks s))"
  by (simp add: total_pause_time_def fold_pauses)

lemma reset_device_nrf_time:
  assumes "clock_mono X now" and "reset_device_nrf X fuel (s :: 'w sul) = Ret u t"
  shows "now (outside s) \<le> now (outside t)"
proof -
  have F: "driver_frame (time_rel now :: 'w sul \<Rightarrow> 'w sul \<Rightarrow> bool) X"
    by (rule mapper_frame.axioms(1) [OF time_frame [OF assms(1)]])
  from keeps_Ret [OF driver_frame.keeps_reset_device_nrf [OF F] assms(2)] show ?thesis
    by (simp add: out_rel_def)
qed

lemma device_break:
  assumes "clock_ok X now" and "clock_mono X now" and "reset_device X fuel s = Ret () t"
  shows "\<exists>a b. reset_breaks t = reset_breaks s @ [(a - test_start_time s, b - test_start_time s)] \<and>
    a + 1 \<le> b \<and> now (outside s) \<le> a \<and> b \<le> now (outside t) \<and> last_device_reset_time t = b"
proof -
  obtain a w where a: "time_time X (outside s) = Ret a w" "now (outside s) \<le> a" "a \<le> now w"
    using clock_time [OF assms(1)] by blast
  obtain u where u: "reset_device_nrf X fuel (s\<lparr>outside := w\<rparr>) = Ret () u"
    using assms(3) a(1)
    by (cases "reset_device_nrf X fuel (s\<lparr>outside := w\<rparr>)")
       (simp_all add: reset_device_def thenM_def outM_def)
  obtain v where v: "time_sleep X 1 (outside u) = Ret () v" "now (outside u) + 1 \<le> now v"
    using clock_sleep [OF assms(1), of 1] by auto
  obtain b x where b: "time_time X v = Ret b x" "now v \<le> b" "b \<le> now x"
    using clock_time [OF assms(1)] by blast
  have "drv_frame (s\<lparr>outside := w\<rparr>) u" by (rule keeps_Ret [OF drv.keeps_reset_device_nrf u])
  from drv_frame_more [OF this]
  have same: "reset_breaks u = reset_breaks s" "test_start_time u = test_start_time s" by simp_all
  have "now w \<le> now (outside u)" using reset_device_nrf_time [OF assms(2) u] by simp
  with a v b have "a + 1 \<le> b" by linarith
  moreover have "t = u\<lparr>outside := x, reset_breaks := reset_breaks s @
      [(a - test_start_time s, b - test_start_time s)], last_device_reset_time := b\<rparr>"
    using assms(3) a(1) u v(1) b(1) same by (simp add: reset_device_def thenM_def outM_def modM_def)
  ultimately show ?thesis
    using a(2) b(3) same(1) by (intro exI [of _ a] exI [of _ b]) simp
qed

text \<open>Every device reset is accounted for. In a world whose clock goes forward, a reset that
  returns adds exactly one break, of at least a second, that lies between the call and its
  return; the time of the last reset is its end, and the total pause grows by its length.\<close>

theorem reset_device_break:
  assumes "clock_ok X now" and "clock_mono X now" and "reset_device X fuel s = Ret () t"
  shows "\<exists>a b. reset_breaks t = reset_breaks s @ [(a - test_start_time s, b - test_start_time s)] \<and>
    a + 1 \<le> b \<and> now (outside s) \<le> a \<and> b \<le> now (outside t) \<and> last_device_reset_time t = b \<and>
    total_pause_time t = total_pause_time s + (b - a)"
  using device_break [OF assms] by (auto simp: total_pause_sum)

theorem reset_device_break_witness:
  "\<exists>t a b. reset_device sim_live 1 chatty_start = Ret () t \<and> a + 1 \<le> b \<and>
     total_pause_time t = total_pause_time chatty_start + (b - a)"
proof -
  have "\<exists>t. reset_device sim_live 1 chatty_start = Ret () t"
    by (simp add: reset_device_def reset_device_nrf_def chatty_start_def sim_live_def sim_env_def
        thenM_def outM_def modM_def getM_def)
  with reset_device_break [OF sim_live_clock sim_live_mono] show ?thesis by blast
qed


end
