(* ===== verification/Reach.thy ===== *)
theory Reach
  imports Endless
begin

text \<open>
  Every state a mapper object can be in: made by a constructor, then taken through any sequence of
  the calls the learner makes (\<open>pre\<close>, \<open>step\<close>, \<open>post\<close>, \<open>close\<close>), where a call may return or raise. Invariants
  of these states, by rule induction over the relations that whole runs respect.
\<close>

section \<open>Reachable states\<close>

inductive call :: "'w env \<Rightarrow> nat \<Rightarrow> mapper \<Rightarrow> 'w sul \<Rightarrow> 'w sul \<Rightarrow> bool"
  for X :: "'w env" and fuel :: nat and f :: mapper
where
  pre: "final (pre_run (mapper X fuel f) s) = Some t \<Longrightarrow> call X fuel f s t"
| step: "final (step X (mapper X fuel f) fuel i s) = Some t \<Longrightarrow> call X fuel f s t"
| post: "final (Session.post s) = Some t \<Longrightarrow> call X fuel f s t"
| closed: "final (close X s) = Some t \<Longrightarrow> call X fuel f s t"

inductive_cases callE: "call X fuel f s t"

definition reachable :: "'w env \<Rightarrow> nat \<Rightarrow> mapper \<Rightarrow> 'w sul \<Rightarrow> bool" where
  "reachable X fuel f s \<longleftrightarrow>
     (\<exists>port addr w s0. init X f port addr (new_sul w) = Ret () s0 \<and> (call X fuel f)\<^sup>*\<^sup>* s0 s)"

text \<open>A relation that whole runs respect takes an invariant from the constructor to all states.\<close>

lemma keeps_close: "driver_frame R X \<Longrightarrow> keeps R (close X)"
  unfolding close_def by (intro driver_frame.driver_rules)

lemma run_frame_driver: "run_frame R X \<Longrightarrow> driver_frame R X"
  by (auto dest: run_frame.axioms(1) reset_frame.axioms(1) step_frame.axioms(1) mapper_frame.axioms(1))

lemma run_frame_keeps:
  assumes "run_frame R X"
  shows "keeps R (step X (mapper X fuel f) fuel i)" and "keeps R (pre_run (mapper X fuel f))"
    and "keeps R Session.post" and "keeps R (close X)"
proof -
  note S = run_frame.axioms(1) [OF assms]
  show pre: "keeps R (pre_run (mapper X fuel f))" by (rule keeps_pre_run [OF S])
  show "keeps R (step X (mapper X fuel f) fuel i)"
    by (rule run_frame.keeps_step [OF assms cls_keep_mapper [OF reset_frame.axioms(1) [OF S]] pre])
  show "keeps R (close X)" by (rule keeps_close [OF run_frame_driver [OF assms]])
  show "keeps R Session.post" unfolding post_def
    by (rule stepwise.keeps_unitM [OF driver_frame.axioms(1) [OF run_frame_driver [OF assms]]])
qed

lemma run_frame_call:
  assumes "run_frame R X" and "call X fuel f s t"
  shows "R s t"
  using assms(2) by cases (erule keepsD [OF run_frame_keeps(1) [OF assms(1)]]
      keepsD [OF run_frame_keeps(2) [OF assms(1)]] keepsD [OF run_frame_keeps(3) [OF assms(1)]]
      keepsD [OF run_frame_keeps(4) [OF assms(1)]])+

lemma reachable_invariant:
  assumes "reachable X fuel f s" and "run_frame R X"
    and init: "\<And>port addr w s. init X f port addr (new_sul w) = Ret () s \<Longrightarrow> P s"
    and kept: "\<And>s t. R s t \<Longrightarrow> P s \<Longrightarrow> P t"
  shows "P s"
proof -
  obtain port addr w s0 where s0: "init X f port addr (new_sul w) = Ret () s0" "(call X fuel f)\<^sup>*\<^sup>* s0 s"
    using assms(1) unfolding reachable_def by blast
  from s0(2) init [OF s0(1)] show ?thesis
    by induction (auto intro: kept dest: run_frame_call [OF assms(2)])
qed

section \<open>The constructors\<close>

text \<open>The output filter a class declares, and its two time limits.\<close>

definition class_filter :: "mapper \<Rightarrow> string list" where
  "class_filter f =
     (case f of
        ArduinoNanoESP32 \<Rightarrow> OUTPUT_FILTER_Arduino
      | IntelAX200BlueZ \<Rightarrow> OUTPUT_FILTER_IntelAX200BlueZ
      | NRF52840 \<Rightarrow> OUTPUT_FILTER_nRF52840
      | NRF52840DKNimBLE \<Rightarrow> OUTPUT_FILTER_DKNimBLE
      | _ \<Rightarrow> [])"

lemmas init_defs =
  init_def init_NimBLE_def init_CI_def init_Arduino_def init_IntelAX200BlueZ_def init_RPiPico2W_def
  init_RPiZeroWBlueZ_def init_nRF52840_def init_DKNimBLE_def set_is_rand_def

definition constructed :: "mapper \<Rightarrow> 'w sul \<Rightarrow> bool" where
  "constructed f s \<longleftrightarrow>
     connection s = None \<and> symbols s = None \<and> input_sequence s = [] \<and> output_sequence s = [] \<and>
     \<not> is_retry_running s \<and> reset_breaks s = [] \<and> 0 < recv_s_min s \<and> recv_s_min s \<le> recv_s_max s \<and>
     recv_s_max s \<le> 2 \<and> output_symbol_filters s = class_filter f @ [''LL_ADV_IND'', ''LL_DATA'']"

lemma BLESUL_init_Ret:
  assumes "BLESUL_init X port addr cmd smin smax filters s = Ret () t"
  shows "connection t = connection s \<and> symbols t = symbols s \<and> input_sequence t = input_sequence s \<and>
    output_sequence t = output_sequence s \<and> \<not> is_retry_running t \<and> reset_breaks t = [] \<and>
    recv_s_min t = smin \<and> recv_s_max t = smax \<and>
    output_symbol_filters t = filters @ [''LL_ADV_IND'', ''LL_DATA''] \<and>
    (\<exists>w. time_time X w = Ret (test_start_time t) (outside t))"
proof -
  obtain u v where u: "nrf_init X port 115200 False False cmd s = Ret () u"
    and t: "\<exists>n. time_time X (outside u) = Ret n v \<and>
      t = u\<lparr>peripheral_address := addr,
              peripheral_address_is_rand := VInt 1, central_address_is_rand := 0,
              recv_s_min := smin, recv_s_max := smax,
              output_symbol_filters := filters @ [''LL_ADV_IND'', ''LL_DATA''],
              is_retry_running := False, last_device_reset_time := 0, outside := v,
              test_start_time := n, reset_breaks := []\<rparr>"
    using assms
    by (auto simp: BLESUL_init_def ret_simps outM_eq_Ret)
  have "connection u = connection s \<and> symbols u = symbols s \<and> input_sequence u = input_sequence s \<and>
      output_sequence u = output_sequence s"
  proof -
    have "dstate.more u = dstate.more s"
      using u by (auto simp: nrf_init_def set_log_tx_def ret_simps outM_eq_Ret)
    then show ?thesis by (cases s; cases u) simp
  qed
  with t show ?thesis by auto
qed

lemma init_Ret:
  assumes "init X f port addr (new_sul w) = Ret () s"
  shows "constructed f s \<and> (\<exists>w. time_time X w = Ret (test_start_time s) (outside s))"
proof -
  have new: "connection (new_sul w) = None" "symbols (new_sul w) = None"
      "input_sequence (new_sul w) = []" "output_sequence (new_sul w) = []"
    by (simp_all add: new_sul_def dstate.defs sul.defs nrf_class_def)
  show ?thesis
    using assms
    by (cases f) (auto simp: init_defs ret_simps constructed_def class_filter_def new
        dest!: BLESUL_init_Ret)
qed

section \<open>Invariants\<close>

text \<open>What the attributes of a mapper hold in every reachable state.\<close>

definition well_typed :: "mapper \<Rightarrow> 'w sul \<Rightarrow> bool" where
  "well_typed f s \<longleftrightarrow>
     (\<forall>c. connection s = Some c \<longrightarrow> length (conn_iv c) = 8 \<and> length (conn_skd c) = 16) \<and>
     (\<forall>m. symbols s = Some m \<longrightarrow> ran m \<subseteq> set packet_names) \<and>
     length (output_sequence s) = length (input_sequence s) \<and>
     0 < recv_s_min s \<and> recv_s_min s \<le> recv_s_max s \<and> recv_s_max s \<le> 2 \<and>
     output_symbol_filters s = class_filter f @ [''LL_ADV_IND'', ''LL_DATA'']"

definition names_ok :: "'w sul \<Rightarrow> bool" where
  "names_ok s \<longleftrightarrow> (\<forall>m. symbols s = Some m \<longrightarrow> ran m \<subseteq> set packet_names)"

definition table_rel :: "'w sul \<Rightarrow> 'w sul \<Rightarrow> bool" where
  "table_rel s t \<longleftrightarrow>
     (names_ok s \<longrightarrow> names_ok t) \<and>
     (length (output_sequence s) = length (input_sequence s) \<longrightarrow>
      length (output_sequence t) = length (input_sequence t))"

lemma names_ok_updates [simp]:
  "names_ok (s\<lparr>connection := c\<rparr>) = names_ok s"
  "names_ok (s\<lparr>reset_breaks := b, last_device_reset_time := r\<rparr>) = names_ok s"
  "names_ok (s\<lparr>peripheral_address_is_rand := v\<rparr>) = names_ok s"
  "names_ok (s\<lparr>connection := c, input_sequence := i, output_sequence := out\<rparr>) = names_ok s"
  "names_ok (s\<lparr>input_sequence := i, output_sequence := out\<rparr>) = names_ok s"
  "names_ok (s\<lparr>is_retry_running := x\<rparr>) = names_ok s" "names_ok (s\<lparr>outside := w\<rparr>) = names_ok s"
  by (simp_all add: names_ok_def)

interpretation table: run_frame table_rel X for X :: "'w env"
proof (intro run_frame.intro reset_frame.intro run_frame_axioms.intro reset_frame_axioms.intro
    step_frameI)
  show "table_rel s t" if "drv_frame s t" for s t :: "'w sul"
    using drv_frame_more(2-4) [OF that] by (simp add: table_rel_def names_ok_def)
  show "table_rel s u" if "table_rel s t" "table_rel t u" for s t u :: "'w sul"
    using that by (simp add: table_rel_def)
  show "table_rel s (s\<lparr>symbols := Some m\<rparr>)" if "ran m \<subseteq> set packet_names" for s :: "'w sul" and m
    using that by (simp add: table_rel_def names_ok_def)
qed (auto intro!: keeps_wait simp: table_rel_def)

lemma reachable_well_typed: "reachable X fuel f s \<Longrightarrow> well_typed f s"
proof -
  assume r: "reachable X fuel f s"
  have start: "constructed f s" if "init X f port addr (new_sul w) = Ret () s" for port addr w s
    using init_Ret [OF that] by blast
  have "sul_wf s"
    using r wf.run_frame_axioms
  proof (rule reachable_invariant)
    show "sul_wf s" if "init X f port addr (new_sul w) = Ret () s" for port addr w s
      using start [OF that] by (simp add: constructed_def sul_wf_def)
  qed (simp add: wf_rel_def)
  moreover have "names_ok s \<and> length (output_sequence s) = length (input_sequence s)"
    using r table.run_frame_axioms
  proof (rule reachable_invariant)
    show "names_ok s \<and> length (output_sequence s) = length (input_sequence s)"
      if "init X f port addr (new_sul w) = Ret () s" for port addr w s
      using start [OF that] by (simp add: constructed_def names_ok_def)
  qed (simp add: table_rel_def)
  moreover have "0 < recv_s_min s \<and> recv_s_min s \<le> recv_s_max s \<and> recv_s_max s \<le> 2 \<and>
      output_symbol_filters s = class_filter f @ [''LL_ADV_IND'', ''LL_DATA'']"
    using r conf.run_frame_axioms
  proof (rule reachable_invariant)
    show "0 < recv_s_min s \<and> recv_s_min s \<le> recv_s_max s \<and> recv_s_max s \<le> 2 \<and>
        output_symbol_filters s = class_filter f @ [''LL_ADV_IND'', ''LL_DATA'']"
      if "init X f port addr (new_sul w) = Ret () s" for port addr w s
      using start [OF that] by (simp add: constructed_def)
  qed (simp add: conf_rel_def)
  ultimately show ?thesis by (simp add: well_typed_def sul_wf_def conn_wf_def names_ok_def)
qed

section \<open>Pauses\<close>

text \<open>Breaks between two times, in order, apart from each other, and of at least a second each.\<close>

fun pauses_in :: "rat \<Rightarrow> rat \<Rightarrow> (rat \<times> rat) list \<Rightarrow> bool" where
  "pauses_in lo hi [] \<longleftrightarrow> lo \<le> hi"
| "pauses_in lo hi ((a, b) # ps) \<longleftrightarrow> lo \<le> a \<and> a + 1 \<le> b \<and> pauses_in b hi ps"

lemma pauses_in_append: "pauses_in lo mid ps \<Longrightarrow> pauses_in mid hi qs \<Longrightarrow> pauses_in lo hi (ps @ qs)"
proof (induction ps arbitrary: lo)
  case Nil
  then show ?case by (cases qs) (auto intro: order_trans)
qed auto

lemma pauses_in_sum:
  "pauses_in lo hi ps \<Longrightarrow>
   of_nat (length ps) \<le> sum_list (map (\<lambda>(a, b). b - a) ps) \<and>
   sum_list (map (\<lambda>(a, b). b - a) ps) \<le> hi - lo"
  by (induction ps arbitrary: lo) force+

definition pause_rel :: "('w \<Rightarrow> rat) \<Rightarrow> 'w sul \<Rightarrow> 'w sul \<Rightarrow> bool" where
  "pause_rel now s t \<longleftrightarrow>
     (0 \<le> recv_s_min s \<longrightarrow>
        recv_s_min t = recv_s_min s \<and> test_start_time t = test_start_time s \<and>
        (\<exists>new. reset_breaks t = reset_breaks s @ new \<and>
           pauses_in (now (outside s) - test_start_time s) (now (outside t) - test_start_time s) new))"

lemma pause_relI:
  assumes "recv_s_min t = recv_s_min s" "test_start_time t = test_start_time s"
    "reset_breaks t = reset_breaks s" "now (outside s) \<le> now (outside t)"
  shows "pause_rel now s t"
  using assms by (simp add: pause_rel_def)

lemma pause_rel_trans: "pause_rel now s t \<Longrightarrow> pause_rel now t u \<Longrightarrow> pause_rel now s u"
  unfolding pause_rel_def by (auto intro: pauses_in_append)

lemma keeps_pause_out:
  assumes "keeps (\<lambda>w w'. now w \<le> now w') m"
  shows "keeps (pause_rel now :: 'w sul \<Rightarrow> 'w sul \<Rightarrow> bool) (outM m)"
proof (rule keepsI)
  fix s t :: "'w sul"
  assume "final (outM m s) = Some t"
  then obtain w where "final (m (outside s)) = Some w" "t = s\<lparr>outside := w\<rparr>"
    by (auto simp: outM_def split: res.splits)
  with keepsD [OF assms] show "pause_rel now s t" by (auto intro!: pause_relI)
qed

lemma pause_drv: "drv_frame s t \<Longrightarrow> now (outside s) \<le> now (outside t) \<Longrightarrow> pause_rel now s t"
  using drv_frame_more [of s t] by (intro pause_relI) simp_all

text \<open>A device reset that raises has recorded nothing; one that returns has recorded its pause.\<close>

lemma keeps_pause_device:
  assumes clock: "clock_ok X now" and mono: "clock_mono X now"
  shows "keeps (pause_rel now :: 'w sul \<Rightarrow> 'w sul \<Rightarrow> bool) (reset_device X fuel)"
proof (rule keepsI)
  fix s t :: "'w sul"
  assume fin: "final (reset_device X fuel s) = Some t"
  have T: "now (outside s) \<le> now (outside t)"
    using keepsD [OF mapper_frame.R_device [OF time_frame [OF mono]] fin] by (simp add: out_rel_def)
  have C: "conf_rel s t" by (rule keepsD [OF conf.R_device fin])
  show "pause_rel now s t"
  proof (cases "reset_device X fuel s")
    case (Ret r u)
    then have t: "reset_device X fuel s = Ret () t" using fin by (cases r) simp
    obtain a b where "reset_breaks t = reset_breaks s @ [(a - test_start_time s, b - test_start_time s)]"
        "a + 1 \<le> b" "now (outside s) \<le> a" "b \<le> now (outside t)"
      using device_break [OF clock mono t] by blast
    with C show ?thesis by (simp add: pause_rel_def conf_rel_def)
  next
    case (Raise e u)
    obtain n w where w: "time_time X (outside s) = Ret n w" "now (outside s) \<le> now w"
      using clock_time [OF clock, of "outside s"] by (metis order_trans)
    have "\<exists>e. reset_device_nrf X fuel (s\<lparr>outside := w\<rparr>) = Raise e u"
    proof (cases "reset_device_nrf X fuel (s\<lparr>outside := w\<rparr>)")
      case (Ret r v)
      obtain v1 where v1: "time_sleep X 1 (outside v) = Ret () v1"
        using clock_sleep [OF clock, of 1 "outside v"] by auto
      obtain m v2 where "time_time X v1 = Ret m v2" using clock_time [OF clock, of v1] by blast
      with Ret v1 w Raise show ?thesis
        by (simp add: reset_device_def outM_def thenM_def modM_def)
    qed (use Raise w in \<open>simp_all add: reset_device_def outM_def thenM_def\<close>)
    then obtain e where "final (reset_device_nrf X fuel (s\<lparr>outside := w\<rparr>)) = Some u" by force
    from drv_frame_more [OF keepsD [OF drv.keeps_reset_device_nrf this]] C T Raise fin
    show ?thesis by (intro pause_relI) (simp_all add: conf_rel_def)
  qed (use fin in simp)
qed

lemma pause_run_frame:
  assumes clock: "clock_ok X now" and mono: "clock_mono X now"
  shows "run_frame (pause_rel now) X"
proof -
  have E: "env_keeps X (\<lambda>w w'. now w \<le> now w')" using mono by (simp add: clock_mono_def)
  have D: "driver_frame (pause_rel now :: 'a sul \<Rightarrow> 'a sul \<Rightarrow> bool) X"
    using E by unfold_locales
      (auto simp: env_keeps_def intro: keeps_pause_out pause_drv pause_relI pause_rel_trans)
  have wait: "keeps (pause_rel now :: 'a sul \<Rightarrow> 'a sul \<Rightarrow> bool)
      (bindM (getM recv_s_min) (\<lambda>d. outM (time_sleep X d)))"
  proof (rule keepsI)
    fix s t :: "'a sul"
    assume "final (bindM (getM recv_s_min) (\<lambda>d. outM (time_sleep X d)) s) = Some t"
    then have t: "final (outM (time_sleep X (recv_s_min s)) s) = Some t"
      by (simp add: bindM_def getM_def)
    show "pause_rel now s t"
    proof (cases "0 \<le> recv_s_min s")
      case True
      then have "keeps (\<lambda>w w'. now w \<le> now w') (time_sleep X (recv_s_min s))"
        using E by (simp add: env_keeps_def)
      from keepsD [OF keeps_pause_out [OF this] t] show ?thesis .
    qed (simp add: pause_rel_def)
  qed
  show ?thesis
    by (intro run_frame.intro reset_frame.intro run_frame_axioms.intro reset_frame_axioms.intro
          step_frame.intro step_frame_axioms.intro mapper_frame.intro mapper_frame_axioms.intro D wait
          keeps_pause_device [OF clock mono])
       (auto intro: pause_relI)
qed

lemma reachable_pause_rel:
  assumes "reachable X fuel f s" and clock: "clock_ok X now" and mono: "clock_mono X now"
  shows "pauses_in 0 (now (outside s) - test_start_time s) (reset_breaks s) \<and> 0 \<le> recv_s_min s"
  using assms(1) pause_run_frame [OF clock mono]
proof (rule reachable_invariant)
  fix port addr w and s :: "'a sul"
  assume i: "init X f port addr (new_sul w) = Ret () s"
  from init_Ret [OF i] obtain w1
    where "constructed f s" "time_time X w1 = Ret (test_start_time s) (outside s)" by blast
  then show "pauses_in 0 (now (outside s) - test_start_time s) (reset_breaks s) \<and> 0 \<le> recv_s_min s"
    using clock_time [OF clock, of w1] by (auto simp: constructed_def)
next
  fix s t :: "'a sul"
  assume "pause_rel now s t"
    and "pauses_in 0 (now (outside s) - test_start_time s) (reset_breaks s) \<and> 0 \<le> recv_s_min s"
  then show "pauses_in 0 (now (outside t) - test_start_time t) (reset_breaks t) \<and> 0 \<le> recv_s_min t"
    by (auto simp: pause_rel_def intro: pauses_in_append)
qed

section \<open>A simulated run, for the witnesses\<close>

text \<open>A mapper on a world whose dongle answers every frame with a scan response, or with nothing.\<close>

definition sim_scan_rsp :: bytes where
  "sim_scan_rsp = dongle_frame 0xA7 0 (le_bytes 4 sim_adv_aa @ [4, 0, 0, 0, 0])
     (good_cks (le_bytes 4 sim_adv_aa @ [4, 0, 0, 0, 0]))"

definition sim_start :: "bytes \<Rightarrow> sim sul" where
  "sim_start reply =
     (sim_sul (sim0\<lparr>sim_reply := reply\<rparr>) (reset_conn sim_addr 7))\<lparr>recv_s_max := 1 / 10\<rparr>"

lemma sim_step:
  "\<exists>a t. step sim_env (mapper sim_env 20 RPiPico2W) 20 ''LL_CTRL_FEATURE_REQ'' (sim_start []) = Ret a t"
proof -
  have "case step sim_env (mapper sim_env 20 RPiPico2W) 20 ''LL_CTRL_FEATURE_REQ'' (sim_start []) of
      Ret a t \<Rightarrow> True | _ \<Rightarrow> False"
    by code_simp
  then show ?thesis by (auto split: res.splits)
qed

lemma sim_pre: "\<exists>t. pre_run (mapper sim_env 20 RPiPico2W) (sim_start sim_scan_rsp) = Ret () t"
proof -
  have "case pre_run (mapper sim_env 20 RPiPico2W) (sim_start sim_scan_rsp) of
      Ret a t \<Rightarrow> True | _ \<Rightarrow> False"
    by code_simp
  then show ?thesis by (auto split: res.splits)
qed

text \<open>A run from the constructor on, in a world with a slow clock tick in which all packets have one
  summary.\<close>

definition sim_plain :: "sim env" where
  "sim_plain = sim_env\<lparr>summary := \<lambda>_. ''Packet'',
     time_sleep := \<lambda>d w. Ret () (w\<lparr>sim_now := sim_now w + d + 1\<rparr>)\<rparr>"

lemma sim_reached:
  "\<exists>s t. reachable sim_plain 9 RPiPico2W s \<and>
     step sim_plain (mapper sim_plain 9 RPiPico2W) 9 ''LL_DATA'' s = Ret ''ATT_READ_RSP'' t"
proof -
  let ?M = "mapper sim_plain 9 RPiPico2W"
  let ?w = "sim0\<lparr>sim_reply := sim_scan_rsp\<rparr>"
  have "case init sim_plain RPiPico2W [] sim_addr (new_sul ?w) of
      Ret u s0 \<Rightarrow> (case pre_run ?M s0 of
        Ret v s \<Rightarrow> (case step sim_plain ?M 9 ''LL_DATA'' s of Ret a t \<Rightarrow> a = ''ATT_READ_RSP'' | _ \<Rightarrow> False)
      | _ \<Rightarrow> False) | _ \<Rightarrow> False"
    by code_simp
  then obtain u s0 v s t where "init sim_plain RPiPico2W [] sim_addr (new_sul ?w) = Ret u s0"
      "pre_run ?M s0 = Ret v s" and step: "step sim_plain ?M 9 ''LL_DATA'' s = Ret ''ATT_READ_RSP'' t"
    by (auto split: res.splits)
  moreover from this have "call sim_plain 9 RPiPico2W s0 s" by (intro call.pre) simp
  ultimately have "reachable sim_plain 9 RPiPico2W s" unfolding reachable_def by fastforce
  with step show ?thesis by blast
qed

section \<open>The retry flag\<close>

text \<open>While the flag is set, no call clears it, and no step starts a retry.\<close>

definition flag_rel :: "'w sul \<Rightarrow> 'w sul \<Rightarrow> bool" where
  "flag_rel s t \<longleftrightarrow> (is_retry_running s \<longrightarrow> is_retry_running t)"

interpretation flag: stepwise flag_rel
  by unfold_locales (simp_all add: flag_rel_def)

lemma keeps_flag: "keeps set_rel m \<Longrightarrow> keeps flag_rel m"
  by (auto simp: keeps_def set_rel_def flag_rel_def)

context mapper_class begin

lemma flagged_step:
  assumes "is_retry_running s"
  shows "step_internal X C fuel (Suc d) i s = step_with retry X C fuel i s"
  using step_with_irrelevant [OF assms] by simp

lemma flagged_step_final:
  assumes flag: "is_retry_running s" and fin: "final (step_with retry X C fuel i s) = Some t"
  shows "is_retry_running t"
proof -
  have K: "keeps cfg_rel (run_symbol X C fuel i)"
    by (rule cfg.keeps_run_symbol [OF class_frame [OF cfg.step_frame_axioms]])
  show ?thesis
  proof (cases "run_symbol X C fuel i s")
    case (Ret out u)
    then have "is_retry_running u" using run_symbol_cfg [OF Ret] flag by (simp add: cfg_rel_def)
    with Ret fin show ?thesis
      by (auto simp: step_with_def thenM_def record_symbols_def modM_def getM_def bindM_def unitM_def)
  next
    case (Raise e u)
    then have "u = t" using fin by (simp add: step_with_def)
    with keeps_Raise [OF K Raise] flag show ?thesis by (simp add: cfg_rel_def)
  qed (use fin in \<open>simp add: step_with_def\<close>)
qed

text \<open>A reset leaves the flag as it is. From the first attempt on it is set, so it is set wherever a
  retry raises: in \<open>pre\<close>, in a device reset, in a repeated step.\<close>

lemma pre_keeps_flag: "final (pre_run C s) = Some t \<Longrightarrow> is_retry_running t = is_retry_running s"
  using keepsD [OF pre_frame [OF settings.reset_frame_axioms]] by (simp add: set_rel_def)

lemma flag_attempt: "keeps flag_rel (retry_attempt X C fuel (step_internal X C fuel d) seq_in seq_out k)"
proof -
  have step: "keeps flag_rel (step_internal X C fuel d i)" for i
  proof (rule keepsI)
    fix s t
    assume "final (step_internal X C fuel d i s) = Some t"
    then show "flag_rel s t"
      using flagged_step_final [of s] by (cases d) (auto simp: flag_rel_def)
  qed
  have "keeps set_rel (is_last_sym_suspicious C)"
    using class_frame [OF settings.step_frame_axioms] by (simp add: cls_keep_def)
  then show ?thesis unfolding retry_attempt_def post_def
    by (intro flag.comp_rules flag.keeps_modM step
          keeps_flag [OF pre_frame [OF settings.reset_frame_axioms]]
          keeps_flag [OF settings.keeps_reset_device] keeps_flag)
       (simp_all add: flag_rel_def)
qed

lemma flag_loop:
  assumes fin: "final (retry_loop X C fuel (step_internal X C fuel d) seq_in seq_out 0 n s) = Some t"
  shows "is_retry_running t"
proof -
  let ?loop = "retry_loop X C fuel (step_internal X C fuel d) seq_in seq_out"
  have K: "keeps flag_rel (?loop k n)" for k n
  proof (induction n arbitrary: k)
    case (Suc n)
    then show ?case unfolding retry_loop.simps by (intro flag.comp_rules flag_attempt)
  qed (simp add: keeps_def)
  have "?loop 0 n s = ?loop 0 n (s\<lparr>is_retry_running := True\<rparr>)"
    by (cases n) (simp_all add: retry_attempt_def post_def whenM_def modM_def thenM_def bindM_def unitM_def)
  with keepsD [OF K, of 0 n "s\<lparr>is_retry_running := True\<rparr>" t] fin show ?thesis
    by (simp add: flag_rel_def)
qed

lemma retry_raises:
  assumes flag: "\<not> is_retry_running s" and run: "run_symbol X C fuel i s = Ret out u"
    and susp: "is_last_sym_suspicious C
        (u\<lparr>input_sequence := input_sequence u @ [i], output_sequence := output_sequence u @ [out]\<rparr>) =
      Ret True v"
    and raised: "retry_sequence X C fuel (step_internal X C fuel d) v = Raise e t"
  shows "step_internal X C fuel (Suc d) i s = Raise e t \<and> is_retry_running t"
proof -
  let ?loop = "retry_loop X C fuel (step_internal X C fuel d) (input_sequence v) (output_sequence v) 0 fuel v"
  have v: "input_sequence v \<noteq> []" using suspicious_cfg [OF susp] by (simp add: cfg_rel_def)
  have "?loop = Raise e t"
  proof (cases ?loop)
    case (Ret r x)
    then have "?loop = Ret () x" by simp
    from retry_loop_Ret [OF step_internal_records this] v have "output_sequence x \<noteq> []" by auto
    with raised Ret show ?thesis
      by (simp add: retry_sequence_def getM_def thenM_def modM_def bindM_def liftE_def py_last_def unitM_def
          split: sum.splits)
  qed (use raised in \<open>simp_all add: retry_sequence_def getM_def thenM_def\<close>)
  then have "is_retry_running t" by (intro flag_loop [of fuel d "input_sequence v" "output_sequence v" fuel v]) simp
  moreover have "\<not> is_retry_running u" using run_symbol_cfg [OF run] flag by (simp add: cfg_rel_def)
  ultimately show ?thesis
    using run susp raised by (simp add: step_with_def record_symbols_def thenM_def modM_def getM_def)
qed

end

lemma call_keeps_flag:
  assumes "call X fuel f s t" and flag: "is_retry_running s"
  shows "is_retry_running t"
  using assms(1)
proof cases
  case (step i)
  have "step X (mapper X fuel f) fuel i s =
      tryM (bindM (step_with (raiseM IndexError) X (mapper X fuel f) fuel i) (\<lambda>out.
        bindM (getM output_symbol_filters) (\<lambda>filters. unitM (filter_symbol out filters)))) raiseM s"
    unfolding step_def tryM_def bindM_def One_nat_def
    by (subst classes.flagged_step [OF flag, where retry = "raiseM IndexError"]) (rule refl)
  with step have "final (step_with (raiseM IndexError) X (mapper X fuel f) fuel i s) = Some t"
    by (cases "step_with (raiseM IndexError) X (mapper X fuel f) fuel i s")
       (simp_all add: tryM_def raiseM_def getM_def bindM_def unitM_def)
  then show ?thesis by (rule classes.flagged_step_final [OF flag])
next
  case closed
  have "keeps set_rel (close X)"
    by (rule keeps_close [OF mapper_frame.axioms(1) [OF settings.mapper_frame_axioms]])
  from keepsD [OF this closed] flag show ?thesis by (simp add: set_rel_def)
qed (use flag in \<open>auto simp: classes.pre_keeps_flag post_def unitM_def\<close>)

section \<open>Properties\<close>

text \<open>C15: The state of a mapper is well-typed at all times. In every state that any sequence of calls
  can lead to, whether they returned or raised: the IV and the key diversifier have the sizes the
  cipher needs, the symbols table maps to input symbols only, there is one output symbol per input
  symbol, the time limits are positive and in order, and the filters are those of the class
  together with the two names every mapper drops.\<close>

theorem reachable_typed: "reachable X fuel f s \<Longrightarrow> well_typed f s"
  by (rule reachable_well_typed)

theorem reachable_typed_witness:
  "\<exists>s :: sim sul. reachable sim_plain 9 RPiPico2W s \<and> well_typed RPiPico2W s"
  using sim_reached reachable_typed by blast

text \<open>C16: The learner never sees a filtered name: in every reachable state, whatever a step answers
  is not empty, and none of the names joined in it is one of the class's filter or one of the
  advertisements and empty packets that arrive at random.\<close>

theorem answers_filtered:
  assumes "reachable X fuel f s" and "step X (mapper X fuel f) fuel i s = Ret answer t"
  shows "answer \<noteq> '''' \<and>
    (\<forall>name \<in> set (py_split CHR ''+'' answer).
       name \<notin> set (class_filter f) \<and> name \<noteq> ''LL_ADV_IND'' \<and> name \<noteq> ''LL_DATA'')"
proof -
  obtain u out where u: "step_internal X (mapper X fuel f) fuel 1 i s = Ret out u"
    and answer: "answer = filter_symbol out (output_symbol_filters u)"
    using assms(2) by (auto simp: step_def tryM_def raiseM_def ret_simps split: res.splits)
  have "keeps conf_rel (step_internal X (mapper X fuel f) fuel 1 i)"
    by (intro conf.keeps_step_internal cls_keep_mapper keeps_pre_run conf.reset_frame_axioms
        conf.step_frame_axioms)
  from keeps_Ret [OF this u] reachable_well_typed [OF assms(1)]
  have filters: "output_symbol_filters u = class_filter f @ [''LL_ADV_IND'', ''LL_DATA'']"
    by (simp add: conf_rel_def well_typed_def)
  have "NORESPONSE \<notin> set (class_filter f)"
    by (cases f) (simp_all add: class_filter_def NORESPONSE_def OUTPUT_FILTER_Arduino_def
        OUTPUT_FILTER_IntelAX200BlueZ_def OUTPUT_FILTER_nRF52840_def OUTPUT_FILTER_DKNimBLE_def)
  moreover have "NORESPONSE \<noteq> ''LL_ADV_IND''" "NORESPONSE \<noteq> ''LL_DATA''"
    by (simp_all add: NORESPONSE_def)
  ultimately show ?thesis
    using filter_symbol_split [of out "output_symbol_filters u"] filter_symbol_not_Nil
    by (auto simp: answer filters split_NORESPONSE)
qed

theorem answers_filtered_witness:
  "\<exists>s t :: sim sul. step sim_plain (mapper sim_plain 9 RPiPico2W) 9 ''LL_DATA'' s = Ret ''ATT_READ_RSP'' t \<and>
     (\<forall>name \<in> set (py_split CHR ''+'' ''ATT_READ_RSP''). name \<noteq> ''LL_DATA'')"
  using sim_reached answers_filtered by blast

text \<open>C20: The breaks \<open>close\<close> reports are a correct account. In a world whose clock goes forward, in
  every reachable state the recorded pauses lie between the construction and now, in order and
  without overlap, and last a second at least each; so their total is at most the time elapsed.\<close>

theorem pauses_accounted:
  assumes "reachable X fuel f s" and "clock_ok X now" and "clock_mono X now"
  shows "pauses_in 0 (now (outside s) - test_start_time s) (reset_breaks s) \<and>
    of_nat (length (reset_breaks s)) \<le> total_pause_time s \<and>
    total_pause_time s \<le> now (outside s) - test_start_time s"
  using reachable_pause_rel [OF assms] pauses_in_sum [of 0 _ "reset_breaks s"]
  by (auto simp: total_pause_sum)

lemma sim_plain_clock: "clock_ok sim_plain sim_now" "clock_mono sim_plain sim_now"
  by (auto simp: clock_ok_def clock_mono_def env_keeps_def sim_plain_def sim_env_def keeps_def)

theorem pauses_accounted_witness:
  "\<exists>s :: sim sul. reachable sim_plain 9 RPiPico2W s \<and>
     total_pause_time s \<le> sim_now (outside s) - test_start_time s"
  using sim_reached pauses_accounted [OF _ sim_plain_clock] by blast

text \<open>C21: An exception during a retry disables all later ones. Wherever a retry raises, in whichever
  attempt (in \<open>pre\<close>, in a device reset or in a repeated step), the step raises that exception and the
  flag \<open>is_retry_running\<close> stays set; no call after that clears it, and every later step behaves the
  same whatever a retry would do: a suspicious output is never questioned again for the life of
  the object.\<close>

theorem retry_exception_sticks:
  assumes "\<not> is_retry_running s" and "run_symbol X (mapper X fuel f) fuel i s = Ret out u"
    and "is_last_sym_suspicious (mapper X fuel f)
        (u\<lparr>input_sequence := input_sequence u @ [i], output_sequence := output_sequence u @ [out]\<rparr>) =
      Ret True v"
    and "retry_sequence X (mapper X fuel f) fuel (step_internal X (mapper X fuel f) fuel 0) v = Raise e t"
  shows "step X (mapper X fuel f) fuel i s = Raise e t \<and>
    (\<forall>t'. (call X fuel f)\<^sup>*\<^sup>* t t' \<longrightarrow> is_retry_running t' \<and>
       (\<forall>j retry. step_internal X (mapper X fuel f) fuel 1 j t' = step_with retry X (mapper X fuel f) fuel j t'))"
proof -
  note raised = classes.retry_raises [OF assms]
  then have "step X (mapper X fuel f) fuel i s = Raise e t"
    by (simp add: step_def tryM_def raiseM_def)
  moreover have "is_retry_running t'" if "(call X fuel f)\<^sup>*\<^sup>* t t'" for t'
    using that raised by induction (auto intro: call_keeps_flag)
  moreover have "step_internal X (mapper X fuel f) fuel 1 j t' = step_with retry X (mapper X fuel f) fuel j t'"
    if "is_retry_running t'" for j retry t'
    unfolding One_nat_def by (rule classes.flagged_step [OF that])
  ultimately show ?thesis by blast
qed

text \<open>A suspicious output (a raw packet) in the class for the nRF52840 with NimBLE; the serial line breaks
  in the second attempt.\<close>

definition sim_breaking :: "sim env" where
  "sim_breaking = sim_env\<lparr>summary := \<lambda>_. ''Raw'',
     time_sleep := \<lambda>d w. Ret () (w\<lparr>sim_now := sim_now w + d + 1\<rparr>),
     ser_write := \<lambda>bs w. if length (sim_tx w) < 5
       then Ret () (w\<lparr>sim_tx := bs # sim_tx w, sim_rx := sim_reply w\<rparr>) else Raise SerialException w\<rparr>"

lemma sim_breaking_run:
  "\<exists>out u v t. run_symbol sim_breaking (mapper sim_breaking 9 NRF52840DKNimBLE) 9 ''LL_DATA''
      (sim_start sim_scan_rsp) = Ret out u \<and>
    is_last_sym_suspicious (mapper sim_breaking 9 NRF52840DKNimBLE)
      (u\<lparr>input_sequence := input_sequence u @ [''LL_DATA''],
          output_sequence := output_sequence u @ [out]\<rparr>) = Ret True v \<and>
    retry_sequence sim_breaking (mapper sim_breaking 9 NRF52840DKNimBLE) 9
      (step_internal sim_breaking (mapper sim_breaking 9 NRF52840DKNimBLE) 9 0) v =
      Raise SerialException t"
proof -
  let ?M = "mapper sim_breaking 9 NRF52840DKNimBLE"
  have "case run_symbol sim_breaking ?M 9 ''LL_DATA'' (sim_start sim_scan_rsp) of
      Ret out u \<Rightarrow> (case is_last_sym_suspicious ?M
          (u\<lparr>input_sequence := input_sequence u @ [''LL_DATA''],
              output_sequence := output_sequence u @ [out]\<rparr>) of
        Ret b v \<Rightarrow> b \<and> (case retry_sequence sim_breaking ?M 9 (step_internal sim_breaking ?M 9 0) v of
          Raise e t \<Rightarrow> e = SerialException | _ \<Rightarrow> False)
      | _ \<Rightarrow> False) | _ \<Rightarrow> False"
    by code_simp
  then show ?thesis by (auto split: res.splits)
qed

theorem retry_exception_sticks_witness:
  "\<exists>t. step sim_breaking (mapper sim_breaking 9 NRF52840DKNimBLE) 9 ''LL_DATA'' (sim_start sim_scan_rsp) =
      Raise SerialException t \<and> is_retry_running t"
proof -
  obtain out u v t where "run_symbol sim_breaking (mapper sim_breaking 9 NRF52840DKNimBLE) 9 ''LL_DATA''
      (sim_start sim_scan_rsp) = Ret out u"
    "is_last_sym_suspicious (mapper sim_breaking 9 NRF52840DKNimBLE)
      (u\<lparr>input_sequence := input_sequence u @ [''LL_DATA''],
          output_sequence := output_sequence u @ [out]\<rparr>) = Ret True v"
    "retry_sequence sim_breaking (mapper sim_breaking 9 NRF52840DKNimBLE) 9
      (step_internal sim_breaking (mapper sim_breaking 9 NRF52840DKNimBLE) 9 0) v =
      Raise SerialException t"
    using sim_breaking_run by blast
  from retry_exception_sticks [OF _ this] show ?thesis by (auto simp: sim_start_def)
qed

end
