(* ===== verification/Query.thy ===== *)
theory Query
  imports Reach
begin

text \<open>
  A whole question of the learner: \<open>pre\<close>, a step for each symbol of a word, \<open>post\<close>. What its answers
  say about the run that was recorded, and what retries may change of it.
\<close>

section \<open>A word of input symbols\<close>

fun ask_word :: "(string \<Rightarrow> ('s, string) comp) \<Rightarrow> string list \<Rightarrow> ('s, string list) comp" where
  "ask_word stepf [] = unitM []"
| "ask_word stepf (i # is) = bindM (stepf i) (\<lambda>a. bindM (ask_word stepf is) (\<lambda>as. unitM (a # as)))"

definition query :: "'w env \<Rightarrow> nat \<Rightarrow> mapper \<Rightarrow> string list \<Rightarrow> ('w, string list) sulM" where
  "query X fuel f is =
     thenM (pre_run (mapper X fuel f))
       (bindM (ask_word (step X (mapper X fuel f) fuel) is) (\<lambda>as. thenM post (unitM as)))"

section \<open>Device resets are counted\<close>

definition grows_rel :: "'w sul \<Rightarrow> 'w sul \<Rightarrow> bool" where
  "grows_rel s t \<longleftrightarrow> length (reset_breaks s) \<le> length (reset_breaks t)"

lemma drv_grows_rel: "drv_frame s t \<Longrightarrow> grows_rel s t"
  using drv_frame_more [of s t] by (simp add: grows_rel_def)

interpretation grows: driver_frame "grows_rel :: 'w sul \<Rightarrow> 'w sul \<Rightarrow> bool" X for X :: "'w env"
  by (rule driver_frameI) (auto simp: drv_grows_rel, auto simp: grows_rel_def)

lemma keeps_grows_device: "keeps grows_rel (reset_device X fuel)"
  unfolding reset_device_def
  by (intro grows.driver_rules grows.keeps_modM) (simp_all add: grows_rel_def)

interpretation grows: run_frame "grows_rel :: 'w sul \<Rightarrow> 'w sul \<Rightarrow> bool" X for X :: "'w env"
  by (intro run_frame.intro reset_frame.intro run_frame_axioms.intro reset_frame_axioms.intro
        step_frame.intro step_frame_axioms.intro mapper_frame.intro mapper_frame_axioms.intro
        grows.driver_frame_axioms keeps_grows_device keeps_wait)
     (simp_all add: grows_rel_def)

lemma device_counts:
  assumes "reset_device X fuel s = Ret () t"
  shows "length (reset_breaks t) = Suc (length (reset_breaks s))"
proof -
  obtain w v where v: "reset_device_nrf X fuel (s\<lparr>outside := w\<rparr>) = Ret () v"
      "length (reset_breaks t) = Suc (length (reset_breaks v))"
    using assms by (auto simp: reset_device_def ret_simps outM_eq_Ret)
  from drv_frame_more(14) [OF keeps_Ret [OF drv.keeps_reset_device_nrf v(1)]] v(2) show ?thesis
    by simp
qed

section \<open>What a retry may change\<close>

abbreviation filtered :: "string list \<Rightarrow> string list \<Rightarrow> string list" where
  "filtered filters \<equiv> map (\<lambda>out. filter_symbol out filters)"

text \<open>The symbols recorded before the last one, filtered, are those that were answered: \<open>agrees\<close>.\<close>

definition agrees :: "string list \<Rightarrow> 'w sul \<Rightarrow> bool" where
  "agrees seq_out t \<longleftrightarrow>
     earlier_symbols (output_symbol_filters t) seq_out =
     earlier_symbols (output_symbol_filters t) (output_sequence t)"

context mapper_class begin

lemma grows_pre: "keeps grows_rel (pre_run C)"
  by (rule pre_frame [OF grows.reset_frame_axioms])

lemma grows_class: "cls_keep grows_rel C"
  by (rule class_frame [OF grows.step_frame_axioms])

lemma grows_step_internal: "keeps grows_rel (step_internal X C fuel d i)"
  by (rule grows.keeps_step_internal [OF grows_class grows_pre])

lemma attempt_start_counts:
  assumes "attempt_start X C fuel attempt s = Ret () t"
  shows "length (reset_breaks s) + of_bool (4 \<le> attempt) \<le> length (reset_breaks t)"
proof -
  obtain u where u: "whenM (attempt \<ge> 4) (reset_device X fuel) s = Ret () u"
      and p: "pre_run C (u\<lparr>is_retry_running := True\<rparr>) = Ret () t"
    using assms by (auto simp: attempt_start_def thenM_eq_Ret modM_def)
  have "length (reset_breaks s) + of_bool (4 \<le> attempt) \<le> length (reset_breaks u)"
    using u device_counts [of X fuel s u] by (cases "4 \<le> attempt") (simp_all add: whenM_def)
  with keeps_Ret [OF grows_pre p] show ?thesis by (simp add: grows_rel_def)
qed

lemma retry_attempt_counts:
  assumes stepf: "\<And>i. keeps grows_rel (stepf i)"
    and r: "retry_attempt X C fuel stepf seq_in seq_out attempt s = Ret b t"
  shows "length (reset_breaks s) + of_bool (4 \<le> attempt) \<le> length (reset_breaks t) \<and>
    (b \<longrightarrow> attempt < 7) \<and> (\<not> b \<longrightarrow> agrees seq_out t \<or> 7 \<le> attempt)"
proof -
  obtain u v where u: "attempt_start X C fuel attempt s = Ret () u"
      and v: "forM seq_in (\<lambda>i. bindM (stepf i) (\<lambda>_. unitM ())) u = Ret () v"
      and t: "attempt_verdict C seq_out attempt v = Ret b t"
    using r unfolding retry_attempt_parts thenM_eq_Ret by auto
  have "keeps grows_rel (forM seq_in (\<lambda>i. bindM (stepf i) (\<lambda>_. unitM ())))"
    by (intro grows.comp_rules stepf)
  from keeps_Ret [OF this v] have "length (reset_breaks u) \<le> length (reset_breaks v)"
    by (simp add: grows_rel_def)
  moreover have "keeps grows_rel (attempt_verdict C seq_out attempt)"
    unfolding attempt_verdict_def
    by (intro grows.comp_rules) (use grows_class in \<open>simp add: cls_keep_def\<close>)
  from keeps_Ret [OF this t] have "length (reset_breaks v) \<le> length (reset_breaks t)"
    by (simp add: grows_rel_def)
  moreover have "\<not> b \<longrightarrow> agrees seq_out t \<or> 7 \<le> attempt"
    using t suspicious_cfg
    by (auto simp: attempt_verdict_def bindM_eq_Ret getM_def agrees_def cfg_rel_def split: if_splits)
  ultimately show ?thesis
    using attempt_start_counts [OF u] attempt_verdict_Ret [OF t] by simp
qed

end

text \<open>
  The first \<open>n\<close> attempts of a retry: \<open>True\<close> if each of them asks for another one. A retry gives up if
  six attempts ask for another one and the seventh does not reproduce the earlier symbols either;
  a step gives up if its retry does.
\<close>

primrec attempts ::
  "'w env \<Rightarrow> 'w cls \<Rightarrow> nat \<Rightarrow> (string \<Rightarrow> ('w, string) sulM) \<Rightarrow> string list \<Rightarrow> string list \<Rightarrow>
   nat \<Rightarrow> ('w, bool) sulM"
where
  "attempts X C fuel stepf seq_in seq_out 0 = unitM True"
| "attempts X C fuel stepf seq_in seq_out (Suc n) =
     bindM (attempts X C fuel stepf seq_in seq_out n) (\<lambda>go_on.
       if go_on then retry_attempt X C fuel stepf seq_in seq_out (Suc n) else unitM False)"

definition retry_gives_up ::
  "'w env \<Rightarrow> 'w cls \<Rightarrow> nat \<Rightarrow> (string \<Rightarrow> ('w, string) sulM) \<Rightarrow> 'w sul \<Rightarrow> bool"
where
  "retry_gives_up X C fuel stepf w =
     (case attempts X C fuel stepf (input_sequence w) (output_sequence w) 6 w of
        Ret go_on v \<Rightarrow> go_on \<and>
          (case retry_attempt X C fuel stepf (input_sequence w) (output_sequence w) 7 v of
             Ret b x \<Rightarrow> \<not> b \<and> \<not> agrees (output_sequence w) x
           | _ \<Rightarrow> False)
      | _ \<Rightarrow> False)"

definition step_gives_up :: "'w env \<Rightarrow> 'w cls \<Rightarrow> nat \<Rightarrow> string \<Rightarrow> 'w sul \<Rightarrow> bool" where
  "step_gives_up X C fuel i s =
     (case bindM (run_symbol X C fuel i) (\<lambda>out. thenM (record_symbols i out)
             (is_last_sym_suspicious C)) s of
        Ret suspicious w \<Rightarrow> suspicious \<and> \<not> is_retry_running w \<and>
          retry_gives_up X C fuel (step_internal X C fuel 0) w
      | _ \<Rightarrow> False)"

context mapper_class begin

lemma attempts_count:
  assumes stepf: "\<And>i. keeps grows_rel (stepf i)"
  shows "attempts X C fuel stepf seq_in seq_out n s = Ret True t \<Longrightarrow>
    length (reset_breaks s) + (n - 3) \<le> length (reset_breaks t)"
proof (induction n arbitrary: t)
  case (Suc n)
  then obtain u where "attempts X C fuel stepf seq_in seq_out n s = Ret True u"
      "retry_attempt X C fuel stepf seq_in seq_out (Suc n) u = Ret True t"
    by (auto simp: bindM_eq_Ret split: if_splits)
  with Suc.IH retry_attempt_counts [OF stepf] show ?case
    by (cases "3 \<le> n") (fastforce simp: of_bool_def)+
qed simp

lemma retry_loop_gives_up:
  assumes stepf: "\<And>i. keeps grows_rel (stepf i)"
  shows "retry_loop X C fuel stepf seq_in seq_out attempt n s = Ret () t \<Longrightarrow>
    attempts X C fuel stepf seq_in seq_out attempt w = Ret True s \<Longrightarrow> attempt < 7 \<Longrightarrow>
    agrees seq_out t \<or>
    (\<exists>v. attempts X C fuel stepf seq_in seq_out 6 w = Ret True v \<and>
         retry_attempt X C fuel stepf seq_in seq_out 7 v = Ret False t)"
proof (induction n arbitrary: attempt s)
  case (Suc n)
  then obtain b u where u: "retry_attempt X C fuel stepf seq_in seq_out (attempt + 1) s = Ret b u"
      and rest: "b \<and> retry_loop X C fuel stepf seq_in seq_out (attempt + 1) n u = Ret () t \<or> \<not> b \<and> t = u"
    by (auto simp: bindM_eq_Ret split: if_splits)
  note a = retry_attempt_counts [OF stepf u]
  show ?case
  proof (cases b)
    case True
    then have "attempts X C fuel stepf seq_in seq_out (attempt + 1) w = Ret True u"
      using Suc.prems(2) u by simp
    with Suc.IH rest a True show ?thesis by blast
  next
    case False
    show ?thesis
    proof (cases "agrees seq_out t")
      case False
      with rest a \<open>\<not> b\<close> Suc.prems(3) have "attempt = 6" "t = u" by auto
      with u Suc.prems(2) \<open>\<not> b\<close> show ?thesis by auto
    qed simp
  qed
qed simp

text \<open>A retry that returns has reproduced the earlier symbols, or given up after four device resets.\<close>

lemma retry_sequence_agrees:
  assumes r: "retry_sequence X C fuel (step_internal X C fuel 0) w = Ret out t"
  shows "agrees (output_sequence w) t \<or>
    retry_gives_up X C fuel (step_internal X C fuel 0) w \<and>
    length (reset_breaks w) + 4 \<le> length (reset_breaks t)"
proof -
  let ?s = "step_internal X C fuel 0"
  obtain x where x: "retry_loop X C fuel ?s (input_sequence w) (output_sequence w) 0 fuel w = Ret () x"
      and t: "t = x\<lparr>is_retry_running := False\<rparr>"
    using r by (auto simp: retry_sequence_def ret_simps)
  have same: "agrees (output_sequence w) t = agrees (output_sequence w) x" by (simp add: agrees_def t)
  show ?thesis
  proof (cases "agrees (output_sequence w) x")
    case False
    have "attempts X C fuel ?s (input_sequence w) (output_sequence w) 0 w = Ret True w"
      by (simp add: unitM_def)
    from retry_loop_gives_up [OF grows_step_internal x this] False obtain v
      where v: "attempts X C fuel ?s (input_sequence w) (output_sequence w) 6 w = Ret True v"
        "retry_attempt X C fuel ?s (input_sequence w) (output_sequence w) 7 v = Ret False x"
      by (auto simp del: attempts.simps)
    with False have "retry_gives_up X C fuel ?s w" by (simp add: retry_gives_up_def del: attempts.simps)
    moreover have "length (reset_breaks w) + 4 \<le> length (reset_breaks t)"
      using attempts_count [OF grows_step_internal v(1)]
        retry_attempt_counts [OF grows_step_internal v(2)] t by simp
    ultimately show ?thesis by blast
  qed (simp add: same)
qed

text \<open>One step: the recorded answers stay and the step's own is added, or the step gives up.\<close>

lemma step_internal_answers:
  assumes r: "step_internal X C fuel (Suc 0) i s = Ret out t"
    and F: "F = output_symbol_filters s"
  shows "filtered F (output_sequence t) = filtered F (output_sequence s) @ [filter_symbol out F] \<or>
    step_gives_up X C fuel i s \<and> length (reset_breaks s) + 4 \<le> length (reset_breaks t)"
proof -
  obtain o1 u where u: "run_symbol X C fuel i s = Ret o1 u"
    and rest: "thenM (record_symbols i o1) (bindM (getM is_retry_running) (\<lambda>running.
        if running then unitM o1
        else bindM (is_last_sym_suspicious C) (\<lambda>suspicious.
          if suspicious then retry_sequence X C fuel (step_internal X C fuel 0) else unitM o1))) u =
        Ret out t"
    using r unfolding step_internal.simps step_with_def bindM_eq_Ret [of "run_symbol X C fuel i"]
    by blast
  let ?v = "u\<lparr>input_sequence := input_sequence u @ [i], output_sequence := output_sequence u @ [o1]\<rparr>"
  have v: "output_sequence ?v = output_sequence s @ [o1]" "output_symbol_filters ?v = F"
    using run_symbol_cfg [OF u] F by (simp_all add: cfg_rel_def)
  from rest have "out = o1 \<and> t = ?v \<or> (\<exists>b w. is_last_sym_suspicious C ?v = Ret b w \<and>
      (\<not> b \<and> out = o1 \<and> t = w \<or> b \<and> \<not> is_retry_running u \<and>
         retry_sequence X C fuel (step_internal X C fuel 0) w = Ret out t))"
    by (auto simp: ret_simps record_symbols_def simp del: step_internal.simps split: if_splits)
  then consider "out = o1" "t = ?v"
    | b w where "is_last_sym_suspicious C ?v = Ret b w" "out = o1" "t = w"
    | w where "is_last_sym_suspicious C ?v = Ret True w" "\<not> is_retry_running u"
        "retry_sequence X C fuel (step_internal X C fuel 0) w = Ret out t"
    by auto
  then show ?thesis
  proof cases
    case 1
    with v show ?thesis by simp
  next
    case 2
    with v suspicious_cfg [OF 2(1)] show ?thesis by (simp add: cfg_rel_def)
  next
    case 3
    have w: "output_sequence w = output_sequence s @ [o1]" "output_symbol_filters w = F"
        "\<not> is_retry_running w"
      using v 3(2) suspicious_cfg [OF 3(1)] by (simp_all add: cfg_rel_def)
    have "keeps grows_rel (is_last_sym_suspicious C)" using grows_class by (simp add: cls_keep_def)
    from keeps_Ret [OF grows.keeps_run_symbol [OF grows_class] u] keeps_Ret [OF this 3(1)]
    have sw: "length (reset_breaks s) \<le> length (reset_breaks w)" by (simp add: grows_rel_def)
    note R = retry_sequence_Ret [OF step_internal_records 3(3)]
    from retry_sequence_agrees [OF 3(3)] show ?thesis
    proof
      assume "agrees (output_sequence w) t"
      then have "filtered F (butlast (output_sequence t)) = filtered F (output_sequence s)"
        using R w by (simp add: agrees_def earlier_symbols_def conf_rel_def)
      moreover have "output_sequence t = butlast (output_sequence t) @ [out]" using R by simp
      ultimately show ?thesis by (metis (no_types, lifting) list.simps(8,9) map_append)
    next
      assume g: "retry_gives_up X C fuel (step_internal X C fuel 0) w \<and>
        length (reset_breaks w) + 4 \<le> length (reset_breaks t)"
      with u 3(1) w(3) have "step_gives_up X C fuel i s"
        by (simp add: step_gives_up_def bindM_def thenM_def record_symbols_def modM_def)
      with g sw show ?thesis by simp
    qed
  qed
qed

lemma step_answers:
  assumes seqs: "sequences s" and r: "step X C fuel i s = Ret a t" and F: "F = output_symbol_filters s"
  shows "input_sequence t = input_sequence s @ [i]" "sequences t" "conf_rel s t"
    "a = filter_symbol (last (output_sequence t)) F"
    "filtered F (output_sequence t) = filtered F (output_sequence s) @ [a] \<or>
       step_gives_up X C fuel i s \<and> length (reset_breaks s) + 4 \<le> length (reset_breaks t)"
proof -
  obtain out where out: "step_internal X C fuel (Suc 0) i s = Ret out t"
    and a: "a = filter_symbol out (output_symbol_filters t)"
    using r by (auto simp: step_def tryM_def raiseM_def ret_simps split: res.splits)
  have *: "input_sequence t = input_sequence s @ [i] \<and> sequences t \<and> conf_rel s t \<and>
      out = last (output_sequence t)"
  proof (cases "is_retry_running s")
    case True
    from recordsD [OF step_internal_records True out] seqs show ?thesis
      by (simp add: sequences_def set_rel_def)
  next
    case False
    from step_internal_Ret [OF False seqs out] show ?thesis by simp
  qed
  then have "a = filter_symbol out F" using a F by (simp add: conf_rel_def)
  with * step_internal_answers [OF out F]
  show "input_sequence t = input_sequence s @ [i]" "sequences t" "conf_rel s t"
    "a = filter_symbol (last (output_sequence t)) F"
    "filtered F (output_sequence t) = filtered F (output_sequence s) @ [a] \<or>
       step_gives_up X C fuel i s \<and> length (reset_breaks s) + 4 \<le> length (reset_breaks t)"
    by auto
qed

end

text \<open>
  \<open>gives_up_at X C fuel m is as k s\<close>: of the word asked after \<open>m\<close>, the step for symbol \<open>k\<close> gives up, in the
  state that the steps before it lead to, and the device is reset four times in it.
\<close>

definition gives_up_at ::
  "'w env \<Rightarrow> 'w cls \<Rightarrow> nat \<Rightarrow> ('w, unit) sulM \<Rightarrow> string list \<Rightarrow> string list \<Rightarrow> nat \<Rightarrow> 'w sul \<Rightarrow> bool"
where
  "gives_up_at X C fuel m is as k s \<longleftrightarrow>
     k < length is \<and>
     (\<exists>u v. thenM m (ask_word (step X C fuel) (take k is)) s = Ret (take k as) u \<and>
        step X C fuel (is ! k) u = Ret (as ! k) v \<and> step_gives_up X C fuel (is ! k) u \<and>
        length (reset_breaks u) + 4 \<le> length (reset_breaks v))"

context mapper_class begin

lemma ask_word_answers:
  "sequences s \<Longrightarrow> ask_word (step X C fuel) is s = Ret as t \<Longrightarrow> F = output_symbol_filters s \<Longrightarrow>
   input_sequence t = input_sequence s @ is \<and> sequences t \<and> conf_rel s t \<and> length as = length is \<and>
   (filtered F (output_sequence t) = filtered F (output_sequence s) @ as \<or>
    (\<exists>k. drop k as = filtered F (drop (length (output_sequence s) + k) (output_sequence t)) \<and>
       gives_up_at X C fuel (unitM ()) is as k s))"
proof (induction "is" arbitrary: s as)
  case (Cons i "is")
  then obtain a u as' where u: "step X C fuel i s = Ret a u" and as: "as = a # as'"
      and t: "ask_word (step X C fuel) is u = Ret as' t"
    by (auto simp: ret_simps)
  note s = step_answers [OF Cons.prems(1) u Cons.prems(3)]
  have F: "F = output_symbol_filters u" using s(3) Cons.prems(3) by (simp add: conf_rel_def)
  note IH = Cons.IH [OF s(2) t F]
  have len: "length (output_sequence u) = Suc (length (output_sequence s))"
    using s(1,2) Cons.prems(1) by (simp add: sequences_def)
  from IH show ?case
  proof (elim conjE disjE exE)
    assume eq: "filtered F (output_sequence t) = filtered F (output_sequence u) @ as'"
      and rest: "input_sequence t = input_sequence u @ is" "sequences t" "conf_rel u t" "length as' = length is"
    from s(5) have "filtered F (output_sequence t) = filtered F (output_sequence s) @ as \<or>
        drop 0 as = filtered F (drop (length (output_sequence s) + 0) (output_sequence t)) \<and>
        gives_up_at X C fuel (unitM ()) (i # is) as 0 s"
    proof
      assume "step_gives_up X C fuel i s \<and> length (reset_breaks s) + 4 \<le> length (reset_breaks u)"
      then have "gives_up_at X C fuel (unitM ()) (i # is) as 0 s"
        using u by (auto simp: gives_up_at_def as thenM_def unitM_def)
      moreover have "drop (length (output_sequence s)) (filtered F (output_sequence u)) = [a]"
        using len s(4) by (cases "output_sequence u" rule: rev_cases) simp_all
      ultimately show ?thesis using eq len as by (simp add: drop_map [symmetric])
    qed (simp add: eq as)
    with rest s(1,3) as show ?thesis by (auto intro: conf.step_trans)
  next
    fix k
    assume eq: "drop k as' = filtered F (drop (length (output_sequence u) + k) (output_sequence t))"
      and up: "gives_up_at X C fuel (unitM ()) is as' k u"
      and rest: "input_sequence t = input_sequence u @ is" "sequences t" "conf_rel u t" "length as' = length is"
    have "gives_up_at X C fuel (unitM ()) (i # is) as (Suc k) s"
      using up u by (auto simp: gives_up_at_def as thenM_def bindM_def unitM_def)
    moreover have "drop (Suc k) as = filtered F (drop (length (output_sequence s) + Suc k) (output_sequence t))"
      using eq len as by simp
    ultimately show ?thesis using rest s(1,3) as by (auto intro: conf.step_trans)
  qed
qed (simp add: conf_rel_def)

end

lemma query_runs:
  assumes "query X fuel f is s = Ret as t"
  shows "input_sequence t = is \<and> sequences t \<and> conf_rel s t \<and> length as = length is \<and>
    (\<exists>k. drop k as = filtered (output_symbol_filters s) (drop k (output_sequence t)) \<and>
       (k = 0 \<or> gives_up_at X (mapper X fuel f) fuel (pre_run (mapper X fuel f)) is as k s))"
proof -
  let ?M = "mapper X fuel f"
  obtain u where u: "pre_run ?M s = Ret () u" and t: "ask_word (step X ?M fuel) is u = Ret as t"
    using assms by (auto simp: query_def ret_simps post_def)
  have fresh: "input_sequence u = []" "output_sequence u = []"
    using classes.pre_fresh [OF u] by simp_all
  have C: "conf_rel s u"
    by (rule keeps_Ret [OF classes.pre_frame [OF conf.reset_frame_axioms] u])
  have "gives_up_at X ?M fuel (pre_run ?M) is as k s" if "gives_up_at X ?M fuel (unitM ()) is as k u" for k
    using that u by (simp add: gives_up_at_def thenM_def unitM_def)
  moreover have "output_symbol_filters s = output_symbol_filters u" using C by (simp add: conf_rel_def)
  note classes.ask_word_answers [OF _ t this]
  ultimately show ?thesis
    using fresh C by (auto simp: sequences_def intro: conf.step_trans intro: exI [of _ 0])
qed

end
