(* ===== verification/FrontEnd.thy ===== *)
theory FrontEnd
  imports Query
begin

text \<open>
  The learner's side of the mapper, SulBLE.java: one Python interpreter on a thread of its own, to
  which every call goes as a piece of source text. The texts are built here as the code builds them,
  and read as Python reads them. The learner itself and jep are not in the repository; what Python
  makes of any other text is the parameter \<open>other\<close>, and starting the interpreter is taken to succeed.
\<close>

section \<open>What the interpreter runs\<close>

text \<open>
  The variables of the interpreter: whether \<open>py\<close> is on its path, the class imported as \<open>SUL\<close>, the
  object \<open>b\<close> (the outside world while there is none), and \<open>\<^verbatim>\<open>__jep_out\<close>\<close>.
\<close>

datatype 'w variable_b = NoSul 'w | Sul mapper "'w sul"

record 'w interp =
  py_on_path :: bool
  sul_class :: "mapper option"
  b_object :: "'w variable_b"
  jep_out :: string

datatype statement =
    SysPath | ImportSul string | NewSul string string | CallPre | CallPost | CallClose | StepOut string

text \<open>The classes by the names of their modules, which have the same names.\<close>

definition import_class :: "string \<Rightarrow> mapper option" where
  "import_class m =
     map_of [(''BLESUL'', BLESUL), (''BLESUL_NimBLE'', NimBLE), (''BLESUL_CI'', CI),
       (''BLESUL_ArduinoNanoESP32'', ArduinoNanoESP32),
       (''BLESUL_IntelAX200BlueZ'', IntelAX200BlueZ), (''BLESUL_RPiPico2W'', RPiPico2W),
       (''BLESUL_RPiZeroWBlueZ'', RPiZeroWBlueZ), (''BLESUL_nRF52840'', NRF52840),
       (''BLESUL_nRF52840DKNimBLE'', NRF52840DKNimBLE)] m"

definition on_b :: "(mapper \<Rightarrow> ('w, 'a) sulM) \<Rightarrow> ('w interp, 'a) comp" where
  "on_b m I =
     (case b_object I of
        NoSul w \<Rightarrow> Raise (NameError ''b'') I
      | Sul f s \<Rightarrow>
          (case m f s of
             Ret x t \<Rightarrow> Ret x (I\<lparr>b_object := Sul f t\<rparr>)
           | Raise e t \<Rightarrow> Raise e (I\<lparr>b_object := Sul f t\<rparr>)
           | NoRet \<Rightarrow> NoRet))"

text \<open>A constructor that raises leaves \<open>b\<close> as it was, and the outside world as it left it.\<close>

fun world_of :: "'w variable_b \<Rightarrow> 'w" where
  "world_of (NoSul w) = w"
| "world_of (Sul f s) = outside s"

fun with_world :: "'w variable_b \<Rightarrow> 'w \<Rightarrow> 'w variable_b" where
  "with_world (NoSul w0) w = NoSul w"
| "with_world (Sul f s) w = Sul f (s\<lparr>outside := w\<rparr>)"

definition new_b :: "'w env \<Rightarrow> string \<Rightarrow> string \<Rightarrow> ('w interp, unit) comp" where
  "new_b X port addr I =
     (case sul_class I of
        None \<Rightarrow> Raise (NameError ''SUL'') I
      | Some f \<Rightarrow>
          (case init X f port addr (new_sul (world_of (b_object I))) of
             Ret u s \<Rightarrow> Ret () (I\<lparr>b_object := Sul f s\<rparr>)
           | Raise e s \<Rightarrow> Raise e (I\<lparr>b_object := with_world (b_object I) (outside s)\<rparr>)
           | NoRet \<Rightarrow> NoRet))"

fun run_statement :: "'w env \<Rightarrow> nat \<Rightarrow> statement \<Rightarrow> ('w interp, unit) comp" where
  "run_statement X fuel SysPath = modM (py_on_path_update (\<lambda>_. True))"
| "run_statement X fuel (ImportSul m) =
     bindM (getM py_on_path) (\<lambda>found.
       case (if found then import_class m else None) of
         None \<Rightarrow> raiseM (ModuleNotFoundError m)
       | Some f \<Rightarrow> modM (sul_class_update (\<lambda>_. Some f)))"
| "run_statement X fuel (NewSul port addr) = new_b X port addr"
| "run_statement X fuel CallPre = on_b (\<lambda>f. pre_run (mapper X fuel f))"
| "run_statement X fuel CallPost = on_b (\<lambda>f. post)"
| "run_statement X fuel CallClose = on_b (\<lambda>f. close X)"
| "run_statement X fuel (StepOut i) =
     bindM (on_b (\<lambda>f. step X (mapper X fuel f) fuel i)) (\<lambda>out. modM (jep_out_update (\<lambda>_. out)))"

section \<open>Source text\<close>

abbreviation quote :: char where
  "quote \<equiv> CHR 0x27"

text \<open>A character that stands for itself between single quotes; and the literals made of them.\<close>

definition plain_char :: "char \<Rightarrow> bool" where
  "plain_char c \<longleftrightarrow> c \<noteq> quote \<and> c \<noteq> CHR 0x5C \<and> c \<noteq> CHR 0x0A \<and> c \<noteq> CHR 0x0D \<and> c \<noteq> CHR 0x00"

abbreviation plain :: "string \<Rightarrow> bool" where
  "plain s \<equiv> list_all plain_char s"

definition quoted :: "string \<Rightarrow> string" where
  "quoted s = [quote] @ s @ [quote]"

definition strip :: "string \<Rightarrow> string \<Rightarrow> string option" where
  "strip p s = (if take (length p) s = p then Some (drop (length p) s) else None)"

definition read_literal :: "string \<Rightarrow> (string \<times> string) option" where
  "read_literal s =
     (case s of
        [] \<Rightarrow> None
      | c # cs \<Rightarrow>
          if c = quote
          then (case dropWhile plain_char cs of
                  [] \<Rightarrow> None
                | d # rest \<Rightarrow> if d = quote then Some (takeWhile plain_char cs, rest) else None)
          else None)"

definition name_char :: "char \<Rightarrow> bool" where
  "name_char c \<longleftrightarrow> c = CHR ''_'' \<or> CHR ''0'' \<le> c \<and> c \<le> CHR ''9'' \<or>
     CHR ''A'' \<le> c \<and> c \<le> CHR ''Z'' \<or> CHR ''a'' \<le> c \<and> c \<le> CHR ''z''"

definition sys_path_text :: string where
  "sys_path_text = ''import sys; sys.path.insert(0, '' @ quoted ''py'' @ '')''"

definition import_text :: "string \<Rightarrow> string" where
  "import_text m = ''from '' @ m @ '' import '' @ m @ '' as SUL''"

definition new_text :: "string \<Rightarrow> string \<Rightarrow> string" where
  "new_text port addr = ''b = SUL('' @ quoted port @ '', '' @ quoted addr @ '')''"

definition step_text :: "string \<Rightarrow> string" where
  "step_text i = ''b.step('' @ quoted i @ '')''"

definition eval_text :: "string \<Rightarrow> string" where
  "eval_text s = ''__jep_out = str('' @ s @ '')''"

definition read_import :: "string \<Rightarrow> statement option" where
  "read_import r =
     (let m = takeWhile name_char r
      in if r = m @ '' import '' @ m @ '' as SUL'' then Some (ImportSul m) else None)"

definition read_new :: "string \<Rightarrow> statement option" where
  "read_new r =
     Option.bind (read_literal r) (\<lambda>(port, r1).
     Option.bind (strip '', '' r1) (\<lambda>r2.
     Option.bind (read_literal r2) (\<lambda>(addr, r3).
       if r3 = '')'' then Some (NewSul port addr) else None)))"

definition read_step :: "string \<Rightarrow> statement option" where
  "read_step r =
     Option.bind (read_literal r) (\<lambda>(i, r1). if r1 = ''))'' then Some (StepOut i) else None)"

definition read_text :: "string \<Rightarrow> statement option" where
  "read_text s =
     (if s = sys_path_text then Some SysPath
      else if s = ''b.pre()'' then Some CallPre
      else if s = ''b.post()'' then Some CallPost
      else if s = ''b.close()'' then Some CallClose
      else case strip ''from '' s of
        Some r \<Rightarrow> read_import r
      | None \<Rightarrow>
          (case strip ''b = SUL('' s of
             Some r \<Rightarrow> read_new r
           | None \<Rightarrow>
               (case strip ''__jep_out = str(b.step('' s of Some r \<Rightarrow> read_step r | None \<Rightarrow> None)))"

section \<open>The Java object\<close>

datatype java_exception = IllegalState | RejectedExecution | Runtime exn

datatype ('a, 's) java = JRet 'a 's | JThrow java_exception 's | JNever

definition bindJ :: "('s \<Rightarrow> ('a, 's) java) \<Rightarrow> ('a \<Rightarrow> 's \<Rightarrow> ('b, 's) java) \<Rightarrow> 's \<Rightarrow> ('b, 's) java" where
  "bindJ m k s = (case m s of JRet x t \<Rightarrow> k x t | JThrow e t \<Rightarrow> JThrow e t | JNever \<Rightarrow> JNever)"

text \<open>
  \<open>instanceCreated\<close> is static; \<open>thread_up\<close>: the executor takes tasks; \<open>closing\<close>: the cleanup task has
  been submitted.
\<close>

record 'w front =
  instanceCreated :: bool
  thread_up :: bool
  closing :: bool
  interp :: "'w interp"

record sul_config =
  serialPort :: string
  mapper_option :: "string option"
  targetMacAddr :: string

text \<open>
  \<open>pythonThreadRun\<close> of a task that runs a text: an exception of Python comes back as the cause of a
  \<open>RuntimeException\<close>. Nothing interrupts the waiting thread.
\<close>

definition pythonExec ::
  "'w env \<Rightarrow> nat \<Rightarrow> (string \<Rightarrow> ('w interp, unit) comp) \<Rightarrow> string \<Rightarrow> 'w front \<Rightarrow> (unit, 'w front) java"
where
  "pythonExec X fuel other s F =
     (if \<not> thread_up F then JThrow RejectedExecution F
      else case (case read_text s of Some st \<Rightarrow> run_statement X fuel st | None \<Rightarrow> other s) (interp F) of
             Ret u I \<Rightarrow> JRet () (F\<lparr>interp := I\<rparr>)
           | Raise e I \<Rightarrow> JThrow (Runtime e) (F\<lparr>interp := I\<rparr>)
           | NoRet \<Rightarrow> JNever)"

definition pythonEval ::
  "'w env \<Rightarrow> nat \<Rightarrow> (string \<Rightarrow> ('w interp, unit) comp) \<Rightarrow> string \<Rightarrow> 'w front \<Rightarrow> (string, 'w front) java"
where
  "pythonEval X fuel other s =
     bindJ (pythonExec X fuel other (eval_text s)) (\<lambda>_ F. JRet (jep_out (interp F)) F)"

definition mapper_module :: "sul_config \<Rightarrow> string" where
  "mapper_module cfg =
     (case mapper_option cfg of Some m \<Rightarrow> ''BLESUL_'' @ m | None \<Rightarrow> ''BLESUL'')"

definition new_SulBLE ::
  "'w env \<Rightarrow> nat \<Rightarrow> (string \<Rightarrow> ('w interp, unit) comp) \<Rightarrow> sul_config \<Rightarrow> 'w front \<Rightarrow> (unit, 'w front) java"
where
  "new_SulBLE X fuel other cfg F =
     (if instanceCreated F then JThrow IllegalState F
      else
        bindJ (pythonExec X fuel other sys_path_text) (\<lambda>_.
        bindJ (pythonExec X fuel other (import_text (mapper_module cfg))) (\<lambda>_.
        bindJ (pythonExec X fuel other (new_text (serialPort cfg) (targetMacAddr cfg))) (\<lambda>_ F1.
          JRet () (F1\<lparr>closing := True\<rparr>))))
        (F\<lparr>instanceCreated := True, thread_up := True, closing := False,
           interp := \<lparr>py_on_path = False, sul_class = None,
                      b_object = NoSul (world_of (b_object (interp F))), jep_out = []\<rparr>\<rparr>))"

definition sul_pre ::
  "'w env \<Rightarrow> nat \<Rightarrow> (string \<Rightarrow> ('w interp, unit) comp) \<Rightarrow> 'w front \<Rightarrow> (unit, 'w front) java"
where
  "sul_pre X fuel other = pythonExec X fuel other ''b.pre()''"

definition sul_step ::
  "'w env \<Rightarrow> nat \<Rightarrow> (string \<Rightarrow> ('w interp, unit) comp) \<Rightarrow> string \<Rightarrow> 'w front \<Rightarrow>
   (string, 'w front) java"
where
  "sul_step X fuel other name = pythonEval X fuel other (step_text name)"

definition sul_post ::
  "'w env \<Rightarrow> nat \<Rightarrow> (string \<Rightarrow> ('w interp, unit) comp) \<Rightarrow> 'w front \<Rightarrow> (unit, 'w front) java"
where
  "sul_post X fuel other = pythonExec X fuel other ''b.post()''"

definition cleanup ::
  "'w env \<Rightarrow> nat \<Rightarrow> (string \<Rightarrow> ('w interp, unit) comp) \<Rightarrow> 'w front \<Rightarrow> (unit, 'w front) java"
where
  "cleanup X fuel other =
     bindJ (pythonExec X fuel other ''b.close()'') (\<lambda>_ F. JRet () (F\<lparr>thread_up := False\<rparr>))"

text \<open>The learner's input symbols, in the two alphabets of experiments/alphabets.\<close>

definition alphabet_pairing :: "string list" where
  "alphabet_pairing =
     [''LL_ADV_CONNECT_IND'', ''LL_CTRL_ENC_REQ'', ''LL_CTRL_START_ENC_RSP'', ''LL_CTRL_FEATURE_REQ'',
      ''LL_CTRL_PAUSE_ENC_REQ'', ''LL_CTRL_PAUSE_ENC_RSP'', ''LL_CTRL_LENGTH_REQ'', ''SM_PAIRING_REQ'',
      ''SM_CONFIRM'', ''SM_RANDOM'', ''ATT_READ_REQ'']"

definition alphabet_pairingsc :: "string list" where
  "alphabet_pairingsc =
     [''LL_ADV_CONNECT_IND'', ''LL_CTRL_ENC_REQ'', ''LL_CTRL_START_ENC_RSP'',
      ''LL_CTRL_PAUSE_ENC_REQ'', ''LL_CTRL_PAUSE_ENC_RSP'', ''SM_PAIRING_REQ_SC'', ''SM_CONFIRM'',
      ''SM_RANDOM'', ''SM_PUBLIC_KEY'', ''SM_DHKEY_CHECK'', ''ATT_READ_REQ'']"

section \<open>Texts are read as they were meant\<close>

text \<open>The alphabets name packets of the mapper, and their symbols need no escaping.\<close>

lemma alphabets_known:
  "set alphabet_pairing \<union> set alphabet_pairingsc \<subseteq> set packet_names"
  "list_all plain (alphabet_pairing @ alphabet_pairingsc)"
  by code_simp+

lemma strip_append [simp]: "strip p (p @ s) = Some s"
  by (simp add: strip_def)

lemma read_literal_quoted [simp]: "plain s \<Longrightarrow> read_literal (quoted s @ rest) = Some (s, rest)"
proof -
  assume s: "plain s"
  have "\<not> plain_char quote" by (simp add: plain_char_def)
  then have "dropWhile plain_char (s @ quote # rest) = quote # rest"
      "takeWhile plain_char (s @ quote # rest) = s"
    using s by (simp_all add: list_all_iff)
  then show ?thesis by (simp add: read_literal_def quoted_def)
qed

lemma read_pre [simp]: "read_text ''b.pre()'' = Some CallPre"
  and read_post [simp]: "read_text ''b.post()'' = Some CallPost"
  and read_close [simp]: "read_text ''b.close()'' = Some CallClose"
  and read_sys_path [simp]: "read_text sys_path_text = Some SysPath"
  by (simp_all add: read_text_def sys_path_text_def)

lemma read_step_text:
  assumes "plain i" shows "read_text (eval_text (step_text i)) = Some (StepOut i)"
proof -
  have "eval_text (step_text i) = ''__jep_out = str(b.step('' @ quoted i @ ''))''"
    by (simp add: eval_text_def step_text_def)
  with assms show ?thesis by (simp add: read_text_def sys_path_text_def strip_def read_step_def)
qed

lemma read_new_text:
  assumes "plain port" "plain addr" shows "read_text (new_text port addr) = Some (NewSul port addr)"
  using assms by (simp add: new_text_def read_text_def sys_path_text_def strip_def read_new_def)

lemma read_import_text:
  assumes "list_all name_char m" shows "read_text (import_text m) = Some (ImportSul m)"
proof -
  have "takeWhile name_char (m @ '' import '' @ m @ '' as SUL'') = m"
    using assms by (simp add: list_all_iff name_char_def)
  then show ?thesis
    by (simp add: import_text_def read_text_def sys_path_text_def strip_def read_import_def Let_def)
qed


section \<open>A question through the front end\<close>

fun sul_steps ::
  "'w env \<Rightarrow> nat \<Rightarrow> (string \<Rightarrow> ('w interp, unit) comp) \<Rightarrow> string list \<Rightarrow> 'w front \<Rightarrow>
   (string list, 'w front) java"
where
  "sul_steps X fuel other [] = JRet []"
| "sul_steps X fuel other (i # is) =
     bindJ (sul_step X fuel other i) (\<lambda>a. bindJ (sul_steps X fuel other is) (\<lambda>as. JRet (a # as)))"

definition sul_query ::
  "'w env \<Rightarrow> nat \<Rightarrow> (string \<Rightarrow> ('w interp, unit) comp) \<Rightarrow> string list \<Rightarrow> 'w front \<Rightarrow>
   (string list, 'w front) java"
where
  "sul_query X fuel other is =
     bindJ (sul_pre X fuel other) (\<lambda>_.
     bindJ (sul_steps X fuel other is) (\<lambda>as.
     bindJ (sul_post X fuel other) (\<lambda>_. JRet as)))"

lemma bindJ_eq_JRet: "bindJ m k s = JRet y u \<longleftrightarrow> (\<exists>x t. m s = JRet x t \<and> k x t = JRet y u)"
  by (simp add: bindJ_def split: java.split)

fun stopped :: "('a, 's) java \<Rightarrow> 's option" where
  "stopped (JRet x s) = Some s"
| "stopped (JThrow e s) = Some s"
| "stopped JNever = None"

lemma stopped_bindJ:
  "stopped (bindJ m k s) = Some u \<Longrightarrow>
   stopped (m s) = Some u \<or> (\<exists>x t. m s = JRet x t \<and> stopped (k x t) = Some u)"
  by (auto simp: bindJ_def split: java.splits)

text \<open>A text that calls a method of \<open>b\<close>.\<close>

definition holds :: "'w front \<Rightarrow> mapper \<Rightarrow> 'w sul \<Rightarrow> bool" where
  "holds F f s \<longleftrightarrow> b_object (interp F) = Sul f s"

lemma exec_stopped:
  assumes "read_text txt = Some st" and "run_statement X fuel st = on_b m"
    and "holds F f s" and "stopped (pythonExec X fuel other txt F) = Some G"
  shows "G = F \<or> (\<exists>t. final (m f s) = Some t \<and> holds G f t \<and> instanceCreated G = instanceCreated F)"
  using assms
  by (cases "m f s") (auto simp: pythonExec_def holds_def on_b_def split: if_splits)

lemma exec_returns:
  assumes "read_text txt = Some st" and "run_statement X fuel st = on_b m"
    and "holds F f s" and "pythonExec X fuel other txt F = JRet () G"
  shows "\<exists>x t. m f s = Ret x t \<and> holds G f t"
  using assms
  by (cases "m f s") (auto simp: pythonExec_def holds_def on_b_def split: if_splits)

lemma step_stopped:
  assumes "plain i" and h: "holds F f s" and "stopped (sul_step X fuel other i F) = Some G"
  shows "G = F \<or> (\<exists>t. final (step X (mapper X fuel f) fuel i s) = Some t \<and> holds G f t \<and>
    instanceCreated G = instanceCreated F)"
  using assms read_step_text [OF assms(1)]
  by (cases "step X (mapper X fuel f) fuel i s")
     (auto simp: sul_step_def pythonEval_def bindJ_def pythonExec_def holds_def on_b_def modM_def
       split: if_splits)

lemma step_returns:
  assumes "plain i" and "holds F f s" and "sul_step X fuel other i F = JRet a G"
  shows "\<exists>t. step X (mapper X fuel f) fuel i s = Ret a t \<and> holds G f t"
  using assms read_step_text [OF assms(1)]
  by (cases "step X (mapper X fuel f) fuel i s")
     (auto simp: sul_step_def pythonEval_def bindJ_def pythonExec_def holds_def on_b_def modM_def
       split: if_splits)

lemma steps_return:
  "list_all plain is \<Longrightarrow> holds F f s \<Longrightarrow> sul_steps X fuel other is F = JRet as G \<Longrightarrow>
   \<exists>t. ask_word (step X (mapper X fuel f) fuel) is s = Ret as t \<and> holds G f t"
proof (induction "is" arbitrary: F s as)
  case (Cons i "is")
  obtain a H as' where H: "sul_step X fuel other i F = JRet a H" "as = a # as'"
      and G: "sul_steps X fuel other is H = JRet as' G"
    using Cons.prems(3) by (auto simp: bindJ_eq_JRet)
  from Cons.prems(1) have plain: "plain i" "list_all plain is" by simp_all
  obtain t where t: "step X (mapper X fuel f) fuel i s = Ret a t" "holds H f t"
    using step_returns [OF plain(1) Cons.prems(2) H(1)] by blast
  obtain u where "ask_word (step X (mapper X fuel f) fuel) is t = Ret as' u" "holds G f u"
    using Cons.IH [OF plain(2) t(2) G] by blast
  with t(1) H(2) show ?case by (intro exI [of _ u]) (simp add: unitM_def)
qed auto

lemma query_returns:
  assumes "list_all plain is" and "holds F f s" and "sul_query X fuel other is F = JRet as G"
  shows "\<exists>t. query X fuel f is s = Ret as t \<and> holds G f t"
proof -
  obtain F1 F2 where F: "sul_pre X fuel other F = JRet () F1"
      "sul_steps X fuel other is F1 = JRet as F2" "sul_post X fuel other F2 = JRet () G"
    using assms(3) by (auto simp: sul_query_def bindJ_eq_JRet)
  obtain t where t: "pre_run (mapper X fuel f) s = Ret () t" "holds F1 f t"
    using exec_returns [OF read_pre _ assms(2) F(1) [unfolded sul_pre_def]] by auto
  obtain u where u: "ask_word (step X (mapper X fuel f) fuel) is t = Ret as u" "holds F2 f u"
    using steps_return [OF assms(1) t(2) F(2)] by blast
  obtain v where "(post :: ('a, unit) sulM) u = Ret () v" "holds G f v"
    using exec_returns [OF read_post _ u(2) F(3) [unfolded sul_post_def], where m = "\<lambda>f. post"] by auto
  with t(1) u(1) show ?thesis
    by (intro exI [of _ v]) (simp add: query_def thenM_def post_def unitM_def)
qed

section \<open>Reachable states of the front end\<close>

inductive front_call ::
  "'w env \<Rightarrow> nat \<Rightarrow> (string \<Rightarrow> ('w interp, unit) comp) \<Rightarrow> 'w front \<Rightarrow> 'w front \<Rightarrow> bool"
  for X :: "'w env" and fuel :: nat and other :: "string \<Rightarrow> ('w interp, unit) comp"
where
  pre: "stopped (sul_pre X fuel other F) = Some G \<Longrightarrow> front_call X fuel other F G"
| step: "plain i \<Longrightarrow> stopped (sul_step X fuel other i F) = Some G \<Longrightarrow> front_call X fuel other F G"
| post: "stopped (sul_post X fuel other F) = Some G \<Longrightarrow> front_call X fuel other F G"
| closed: "stopped (cleanup X fuel other F) = Some G \<Longrightarrow> front_call X fuel other F G"

inductive_cases front_callE: "front_call X fuel other F G"

lemma call_lifted:
  "G = F \<or> (\<exists>t. final r = Some t \<and> holds G f t \<and> instanceCreated G = instanceCreated F) \<Longrightarrow>
   holds F f s \<Longrightarrow> (\<And>t. final r = Some t \<Longrightarrow> call X fuel f s t) \<Longrightarrow>
   \<exists>t. (call X fuel f)\<^sup>*\<^sup>* s t \<and> holds G f t \<and> instanceCreated G = instanceCreated F"
  by blast

lemma front_call_call:
  assumes "front_call X fuel other F G" and h: "holds F f s"
  shows "\<exists>t. (call X fuel f)\<^sup>*\<^sup>* s t \<and> holds G f t \<and> instanceCreated G = instanceCreated F"
  using assms(1)
proof cases
  case pre
  then have "stopped (pythonExec X fuel other ''b.pre()'' F) = Some G" by (simp add: sul_pre_def)
  from exec_stopped [OF read_pre _ h this, where m = "\<lambda>f. pre_run (mapper X fuel f)"]
  show ?thesis by (rule call_lifted [OF _ h call.pre]) simp
next
  case (step i)
  show ?thesis by (rule call_lifted [OF step_stopped [OF step(1) h step(2)] h call.step])
next
  case post
  then have "stopped (pythonExec X fuel other ''b.post()'' F) = Some G" by (simp add: sul_post_def)
  from exec_stopped [OF read_post _ h this, where m = "\<lambda>f. Session.post"]
  show ?thesis by (rule call_lifted [OF _ h call.post]) simp
next
  case closed
  obtain H where H: "stopped (pythonExec X fuel other ''b.close()'' F) = Some H"
      and G: "G = H \<or> G = H\<lparr>thread_up := False\<rparr>"
    using stopped_bindJ [OF closed [unfolded cleanup_def]] by auto
  from exec_stopped [OF read_close _ h H, where m = "\<lambda>f. close X"]
  have "\<exists>t. (call X fuel f)\<^sup>*\<^sup>* s t \<and> holds H f t \<and> instanceCreated H = instanceCreated F"
    by (rule call_lifted [OF _ h call.closed]) simp
  with G show ?thesis by (auto simp: holds_def)
qed

lemma front_calls_call:
  "(front_call X fuel other)\<^sup>*\<^sup>* F G \<Longrightarrow> holds F f s \<Longrightarrow>
   \<exists>t. (call X fuel f)\<^sup>*\<^sup>* s t \<and> holds G f t \<and> instanceCreated G = instanceCreated F"
proof (induction rule: rtranclp_induct)
  case (step G H)
  then show ?case using front_call_call [OF step(2)] by (metis rtranclp_trans)
qed auto

text \<open>The constructor makes an object of the class that the configuration names.\<close>

lemma new_SulBLE_returns:
  assumes new: "new_SulBLE X fuel other cfg F = JRet () G"
    and "plain (serialPort cfg)" "plain (targetMacAddr cfg)" "list_all name_char (mapper_module cfg)"
  shows "\<exists>f w s. import_class (mapper_module cfg) = Some f \<and>
    init X f (serialPort cfg) (targetMacAddr cfg) (new_sul w) = Ret () s \<and> holds G f s \<and> instanceCreated G"
proof -
  obtain F1 F2 F3 where F1: "pythonExec X fuel other sys_path_text F1 = JRet () F2"
      and F2: "pythonExec X fuel other (import_text (mapper_module cfg)) F2 = JRet () F3"
      and F3: "\<exists>F4. pythonExec X fuel other (new_text (serialPort cfg) (targetMacAddr cfg)) F3 =
        JRet () F4 \<and> G = F4\<lparr>closing := True\<rparr>"
      and new: "sul_class (interp F1) = None" "instanceCreated F1"
    using assms(1) by (fastforce simp: new_SulBLE_def bindJ_eq_JRet split: if_splits)
  have "F2 = F1\<lparr>interp := interp F1\<lparr>py_on_path := True\<rparr>\<rparr>"
    using F1 by (simp add: pythonExec_def modM_def split: if_splits)
  then obtain f where f: "import_class (mapper_module cfg) = Some f"
      "F3 = F2\<lparr>interp := interp F2\<lparr>sul_class := Some f\<rparr>\<rparr>" "instanceCreated F3"
    using F2 read_import_text [OF assms(4)] new
    by (auto simp: pythonExec_def bindM_def getM_def modM_def raiseM_def
        split: if_splits option.splits)
  obtain F4 where "pythonExec X fuel other (new_text (serialPort cfg) (targetMacAddr cfg)) F3 = JRet () F4"
      "G = F4\<lparr>closing := True\<rparr>" using F3 by blast
  with f(2,3) read_new_text [OF assms(2,3)]
  have "\<exists>w s. init X f (serialPort cfg) (targetMacAddr cfg) (new_sul w) = Ret () s \<and> holds G f s \<and>
      instanceCreated G"
    by (auto simp: pythonExec_def new_b_def holds_def split: if_splits res.splits)
  with f(1) show ?thesis by blast
qed

section \<open>A simulated learner, for the witnesses\<close>

definition sim_front :: "bytes \<Rightarrow> sim front" where
  "sim_front reply =
     \<lparr>instanceCreated = False, thread_up = False, closing = False,
      interp = \<lparr>py_on_path = False, sul_class = None, b_object = NoSul (sim0\<lparr>sim_reply := reply\<rparr>),
                 jep_out = []\<rparr>\<rparr>"

definition sim_config :: sul_config where
  "sim_config =
     \<lparr>serialPort = ''ttyACM0'', mapper_option = Some ''RPiPico2W'', targetMacAddr = sim_addr\<rparr>"

text \<open>Here Python rejects every text that is not one of the front end's.\<close>

definition sim_other :: "string \<Rightarrow> (sim interp, unit) comp" where
  "sim_other src = raiseM ValueError"

lemma sim_asked:
  "\<exists>F s G t. new_SulBLE sim_plain 9 sim_other sim_config (sim_front sim_scan_rsp) = JRet () F \<and>
     sul_query sim_plain 9 sim_other [''LL_DATA''] F = JRet [''ATT_READ_RSP''] G \<and>
     b_object (interp F) = Sul RPiPico2W s \<and> b_object (interp G) = Sul RPiPico2W t"
proof -
  have "case new_SulBLE sim_plain 9 sim_other sim_config (sim_front sim_scan_rsp) of
      JRet u F \<Rightarrow>
        (case sul_query sim_plain 9 sim_other [''LL_DATA''] F of
           JRet as G \<Rightarrow>
             (case b_object (interp F) of Sul f s \<Rightarrow>
               (case b_object (interp G) of Sul g t \<Rightarrow> as = [''ATT_READ_RSP''] \<and> f = RPiPico2W \<and>
                  g = RPiPico2W
                | NoSul w \<Rightarrow> False) | NoSul w \<Rightarrow> False)
         | _ \<Rightarrow> False) | _ \<Rightarrow> False"
    by code_simp
  then show ?thesis by (auto split: java.splits variable_b.splits)
qed

text \<open>C6: Every run of the learner is a run of the mapper. Once SulBLE's constructor has returned, whatever
  is called on it, in any order and whether the calls return or throw, the interpreter holds an
  object of the class that the configuration names, in a state that the mapper's own calls reach.
\<close>

theorem front_end_reaches:
  assumes "new_SulBLE X fuel other cfg F = JRet () F0" and "(front_call X fuel other)\<^sup>*\<^sup>* F0 G"
    and "plain (serialPort cfg)" "plain (targetMacAddr cfg)" "list_all name_char (mapper_module cfg)"
  shows "\<exists>f s. import_class (mapper_module cfg) = Some f \<and> b_object (interp G) = Sul f s \<and>
    reachable X fuel f s \<and> instanceCreated G"
proof -
  obtain f w s where s: "import_class (mapper_module cfg) = Some f" "holds F0 f s" "instanceCreated F0"
      "init X f (serialPort cfg) (targetMacAddr cfg) (new_sul w) = Ret () s"
    using new_SulBLE_returns [OF assms(1,3-5)] by blast
  obtain t where "(call X fuel f)\<^sup>*\<^sup>* s t" "holds G f t" "instanceCreated G"
    using front_calls_call [OF assms(2) s(2)] s(3) by auto
  with s show ?thesis unfolding holds_def reachable_def by blast
qed

theorem front_end_reaches_witness:
  "\<exists>F G s. new_SulBLE sim_plain 9 sim_other sim_config (sim_front sim_scan_rsp) = JRet () F \<and>
     sul_pre sim_plain 9 sim_other F = JRet () G \<and>
     b_object (interp G) = Sul RPiPico2W s \<and> reachable sim_plain 9 RPiPico2W s"
proof -
  obtain F G' where F: "new_SulBLE sim_plain 9 sim_other sim_config (sim_front sim_scan_rsp) = JRet () F"
      "sul_query sim_plain 9 sim_other [''LL_DATA''] F = JRet [''ATT_READ_RSP''] G'"
    using sim_asked by blast
  then obtain G where G: "sul_pre sim_plain 9 sim_other F = JRet () G"
    by (auto simp: sul_query_def bindJ_eq_JRet)
  then have "(front_call sim_plain 9 sim_other)\<^sup>*\<^sup>* F G"
    by (intro r_into_rtranclp front_call.pre) simp
  moreover have "plain (serialPort sim_config)" "plain (targetMacAddr sim_config)"
      "list_all name_char (mapper_module sim_config)"
      "import_class (mapper_module sim_config) = Some RPiPico2W" by code_simp+
  ultimately show ?thesis using front_end_reaches [OF F(1)] F(1) G by fastforce
qed

text \<open>C1: The answers of a question. When the learner asks a word through SulBLE and gets an answer, the
  mapper has recorded exactly that word, there is one answer and one recorded output symbol for
  each of its symbols, and the answers are the recorded output symbols, filtered: what a retry found
  later does not contradict what was answered before. The one exception is a step whose retry gave
  up: its seven attempts all returned, the seventh had not reproduced the earlier symbols, and the
  device was reset at least four times meanwhile; then the answers from this step on are the recorded ones.
\<close>

theorem query_answers:
  assumes "b_object (interp F) = Sul f s" and "list_all plain is"
    and "sul_query X fuel other is F = JRet as G"
  shows "\<exists>t. b_object (interp G) = Sul f t \<and> input_sequence t = is \<and> length as = length is \<and>
    length (output_sequence t) = length is \<and>
    (\<exists>k. drop k as = map (\<lambda>out. filter_symbol out (output_symbol_filters s)) (drop k (output_sequence t)) \<and>
       (k = 0 \<or> gives_up_at X (mapper X fuel f) fuel (pre_run (mapper X fuel f)) is as k s))"
proof -
  obtain t where "query X fuel f is s = Ret as t" "holds G f t"
    using query_returns [OF assms(2) _ assms(3)] assms(1) unfolding holds_def by blast
  with query_runs [of X fuel f "is" s as t] show ?thesis by (auto simp: holds_def sequences_def)
qed

theorem query_answers_witness:
  "\<exists>F G s t. sul_query sim_plain 9 sim_other [''LL_DATA''] F = JRet [''ATT_READ_RSP''] G \<and>
     b_object (interp F) = Sul RPiPico2W s \<and> b_object (interp G) = Sul RPiPico2W t \<and>
     input_sequence t = [''LL_DATA''] \<and>
     [''ATT_READ_RSP''] = map (\<lambda>out. filter_symbol out (output_symbol_filters s)) (output_sequence t)"
proof -
  obtain F s G t where q: "sul_query sim_plain 9 sim_other [''LL_DATA''] F = JRet [''ATT_READ_RSP''] G"
      "b_object (interp F) = Sul RPiPico2W s" "b_object (interp G) = Sul RPiPico2W t"
    using sim_asked by blast
  have "list_all plain [''LL_DATA'']" by code_simp
  from query_answers [OF q(2) this q(1)] q(3) obtain k
    where k: "input_sequence t = [''LL_DATA'']"
      "drop k [''ATT_READ_RSP''] =
        map (\<lambda>out. filter_symbol out (output_symbol_filters s)) (drop k (output_sequence t))"
      "k = 0 \<or> gives_up_at sim_plain (mapper sim_plain 9 RPiPico2W) 9
        (pre_run (mapper sim_plain 9 RPiPico2W)) [''LL_DATA''] [''ATT_READ_RSP''] k s"
    by auto
  then have "k = 0" by (auto simp: gives_up_at_def)
  with q k show ?thesis by auto
qed

text \<open>One object for one process. After the constructor has run once, even if it threw (a mapper that does
  not exist, a port that does not open), it throws for ever.
\<close>

theorem second_SulBLE_throws:
  assumes "stopped (new_SulBLE X fuel other cfg F) = Some G"
  shows "new_SulBLE X fuel other' cfg' G = JThrow IllegalState G"
proof -
  have created: "instanceCreated K = instanceCreated H"
    if "stopped (pythonExec X fuel other src H) = Some K" for src H K
    using that by (auto simp: pythonExec_def split: if_splits res.splits)
  have returned: "instanceCreated K = instanceCreated H" if "pythonExec X fuel other src H = JRet u K"
    for src H K u
    using created [of src H K] that by simp
  have "instanceCreated G"
    using assms unfolding new_SulBLE_def
    by (auto split: if_splits dest!: stopped_bindJ dest!: created returned)
  then show ?thesis by (simp add: new_SulBLE_def)
qed

theorem second_SulBLE_throws_witness:
  "\<exists>F. new_SulBLE sim_plain 9 sim_other sim_config (sim_front sim_scan_rsp) = JRet () F \<and>
     new_SulBLE sim_plain 9 sim_other sim_config F = JThrow IllegalState F"
proof -
  obtain F where F: "new_SulBLE sim_plain 9 sim_other sim_config (sim_front sim_scan_rsp) = JRet () F"
    using sim_asked by blast
  then have "stopped (new_SulBLE sim_plain 9 sim_other sim_config (sim_front sim_scan_rsp)) = Some F" by simp
  from second_SulBLE_throws [OF this] F show ?thesis by blast
qed

end
