(* ===== verification/Fifo.thy ===== *)
theory Fifo
  imports PyLib
begin

text \<open>
  The ring buffer of the NimBLE target's serial bridge (psf\_bridge/include/fifo.h): a queue of
  bytes in an array, with the fields at their C width. Positions are computed in \<open>int\<close>, which
  cannot overflow for 16-bit operands. No operation checks its bounds; the callers do.
\<close>

record fifo =
  capacity :: "16 word"
  fsize :: "16 word"
  tail :: "16 word"
  fbuf :: bytes

definition FIFO_CREATE :: "16 word \<Rightarrow> fifo" where
  "FIFO_CREATE cap = \<lparr>capacity = cap, fsize = 0, tail = 0, fbuf = replicate (unat cap) 0\<rparr>"

definition fifo_tail_offset :: "fifo \<Rightarrow> nat \<Rightarrow> nat" where
  "fifo_tail_offset f k = (unat (tail f) + k) mod unat (capacity f)"

definition fifo_head_pos :: "fifo \<Rightarrow> nat" where
  "fifo_head_pos f = fifo_tail_offset f (unat (fsize f))"

definition fifo_is_full :: "fifo \<Rightarrow> bool" where
  "fifo_is_full f \<longleftrightarrow> capacity f = fsize f"

definition fifo_is_empty :: "fifo \<Rightarrow> bool" where
  "fifo_is_empty f \<longleftrightarrow> fsize f = 0"

definition fifo_has_space :: "fifo \<Rightarrow> nat \<Rightarrow> bool" where
  "fifo_has_space f n \<longleftrightarrow> int (unat (capacity f)) - int (unat (fsize f)) \<ge> int n"

definition fifo_peek :: "fifo \<Rightarrow> nat \<Rightarrow> byte" where
  "fifo_peek f k = fbuf f ! fifo_tail_offset f k"

definition fifo_add_byte :: "fifo \<Rightarrow> byte \<Rightarrow> fifo" where
  "fifo_add_byte f c = f\<lparr>fbuf := (fbuf f)[fifo_head_pos f := c], fsize := fsize f + 1\<rparr>"

definition fifo_get_byte :: "fifo \<Rightarrow> byte \<times> fifo" where
  "fifo_get_byte f =
     (fbuf f ! unat (tail f), f\<lparr>tail := of_nat (fifo_tail_offset f 1), fsize := fsize f - 1\<rparr>)"

definition fifo_add_buf :: "fifo \<Rightarrow> bytes \<Rightarrow> fifo" where
  "fifo_add_buf f data = foldl fifo_add_byte f data"

fun take_n :: "('q \<Rightarrow> 'a \<times> 'q) \<Rightarrow> nat \<Rightarrow> 'q \<Rightarrow> 'a list \<times> 'q" where
  "take_n get 0 q = ([], q)"
| "take_n get (Suc n) q = (case get q of (x, q1) \<Rightarrow> case take_n get n q1 of (xs, q2) \<Rightarrow> (x # xs, q2))"

definition fifo_get_buf :: "fifo \<Rightarrow> nat \<Rightarrow> bytes \<times> fifo" where
  "fifo_get_buf f n = take_n fifo_get_byte n f"

section \<open>Queues\<close>

text \<open>Sequences of operations, their results, and when they stay within the bounds.\<close>

datatype 'a qop = Put 'a | Take

fun run_ops :: "('q \<Rightarrow> 'a \<Rightarrow> 'q) \<Rightarrow> ('q \<Rightarrow> 'a \<times> 'q) \<Rightarrow> 'a qop list \<Rightarrow> 'q \<Rightarrow> 'a list \<times> 'q" where
  "run_ops add get [] q = ([], q)"
| "run_ops add get (Put x # ops) q = run_ops add get ops (add q x)"
| "run_ops add get (Take # ops) q =
     (case get q of (x, q1) \<Rightarrow> case run_ops add get ops q1 of (xs, q2) \<Rightarrow> (x # xs, q2))"

fun in_bounds :: "nat \<Rightarrow> 'a qop list \<Rightarrow> nat \<Rightarrow> bool" where
  "in_bounds cap [] n = True"
| "in_bounds cap (Put x # ops) n = (n < cap \<and> in_bounds cap ops (n + 1))"
| "in_bounds cap (Take # ops) n = (0 < n \<and> in_bounds cap ops (n - 1))"

text \<open>
  What the bridge relies on: within its bounds the buffer is a queue, whose contents are a list.
\<close>

locale bounded_queue =
  fixes add :: "'q \<Rightarrow> 'a \<Rightarrow> 'q" and get :: "'q \<Rightarrow> 'a \<times> 'q" and contents :: "'q \<Rightarrow> 'a list"
    and ok :: "'q \<Rightarrow> bool" and bound :: "'q \<Rightarrow> nat"
  assumes add_ok: "ok q \<Longrightarrow> length (contents q) < bound q \<Longrightarrow>
      ok (add q x) \<and> contents (add q x) = contents q @ [x] \<and> bound (add q x) = bound q"
    and get_ok: "ok q \<Longrightarrow> contents q = x # xs \<Longrightarrow>
      fst (get q) = x \<and> ok (snd (get q)) \<and> contents (snd (get q)) = xs \<and>
      bound (snd (get q)) = bound q"
begin

lemma add_all:
  "ok q \<Longrightarrow> length (contents q) + length xs \<le> bound q \<Longrightarrow>
   ok (foldl add q xs) \<and> contents (foldl add q xs) = contents q @ xs \<and>
   bound (foldl add q xs) = bound q"
  by (induction xs arbitrary: q) (simp_all add: add_ok)

lemma get_all_n:
  "ok q \<Longrightarrow> contents q = xs @ ys \<Longrightarrow>
   \<exists>q'. take_n get (length xs) q = (xs, q') \<and> ok q' \<and> contents q' = ys \<and> bound q' = bound q"
proof (induction xs arbitrary: q)
  case (Cons x xs)
  obtain q1 where q1: "get q = (x, q1)" "ok q1" "contents q1 = xs @ ys" "bound q1 = bound q"
    using get_ok [of q x "xs @ ys"] Cons.prems by (cases "get q") auto
  from Cons.IH [OF q1(2,3)] q1 show ?case by auto
qed simp

lemma simulates_list:
  "ok q \<Longrightarrow> in_bounds (bound q) ops (length (contents q)) \<Longrightarrow>
   \<exists>q'. run_ops add get ops q = (fst (run_ops (\<lambda>xs x. xs @ [x]) (\<lambda>xs. (hd xs, tl xs)) ops (contents q)), q') \<and>
     ok q' \<and> contents q' = snd (run_ops (\<lambda>xs x. xs @ [x]) (\<lambda>xs. (hd xs, tl xs)) ops (contents q))"
proof (induction ops arbitrary: q)
  case (Cons op ops)
  show ?case
  proof (cases op)
    case (Put x)
    then show ?thesis using Cons.IH [of "add q x"] Cons.prems add_ok [of q x] by simp
  next
    case Take
    then obtain x xs where c: "contents q = x # xs"
      using Cons.prems by (cases "contents q") auto
    obtain q1 where "get q = (x, q1)" "ok q1" "contents q1 = xs" "bound q1 = bound q"
      using get_ok [OF Cons.prems(1) c] by (cases "get q") auto
    then show ?thesis using Take c Cons.IH [of q1] Cons.prems by (auto split: prod.split)
  qed
qed simp

end

section \<open>The ring buffer is a queue\<close>

definition fifo_contents :: "fifo \<Rightarrow> bytes" where
  "fifo_contents f = map (fifo_peek f) [0..<unat (fsize f)]"

definition fifo_ok :: "fifo \<Rightarrow> bool" where
  "fifo_ok f \<longleftrightarrow> 0 < unat (capacity f) \<and> length (fbuf f) = unat (capacity f) \<and>
     unat (tail f) < unat (capacity f) \<and> unat (fsize f) \<le> unat (capacity f)"

lemma length_fifo_contents [simp]: "length (fifo_contents f) = unat (fsize f)"
  by (simp add: fifo_contents_def)

lemma unat_16_less: "unat (w :: 16 word) < 65536"
  using unsigned_less [of w, where ?'a = nat] by simp

lemma offset_less: "fifo_ok f \<Longrightarrow> fifo_tail_offset f k < unat (capacity f)"
  by (simp add: fifo_tail_offset_def fifo_ok_def)

lemma mod_offset_inj:
  assumes "i < c" "j < c" "((t :: nat) + i) mod c = (t + j) mod c"
  shows "i = j"
proof -
  have "i \<le> j \<Longrightarrow> j < c \<Longrightarrow> (t + i) mod c = (t + j) mod c \<Longrightarrow> i = j" for i j :: nat
    using mod_eq_dvd_iff_nat [of "t + i" "t + j" c] by (auto dest!: dvd_imp_le simp: not_le)
  with assms show ?thesis by (metis nat_le_linear)
qed

lemma fifo_add_byte_contents:
  assumes ok: "fifo_ok f" and room: "unat (fsize f) < unat (capacity f)"
  shows "fifo_ok (fifo_add_byte f c) \<and> fifo_contents (fifo_add_byte f c) = fifo_contents f @ [c]"
proof -
  let ?n = "unat (fsize f)" and ?f = "fifo_add_byte f c"
  have n: "unat (fsize ?f) = Suc ?n"
    using room unat_16_less [of "capacity f"] by (simp add: fifo_add_byte_def unat_word_ariths)
  have off: "fifo_tail_offset ?f k = fifo_tail_offset f k" for k
    by (simp add: fifo_tail_offset_def fifo_add_byte_def)
  have peek: "fifo_peek ?f k = (if k = ?n then c else fifo_peek f k)" if "k < Suc ?n" for k
    using that room ok mod_offset_inj [of k "unat (capacity f)" ?n "unat (tail f)"]
      offset_less [OF ok] unfolding fifo_peek_def off
    by (auto simp: fifo_add_byte_def fifo_head_pos_def fifo_tail_offset_def fifo_ok_def
        nth_list_update)
  have "fifo_ok ?f" using ok room n by (simp add: fifo_ok_def fifo_add_byte_def)
  moreover have "fifo_contents ?f = fifo_contents f @ [c]"
    unfolding fifo_contents_def n by (simp add: peek)
  ultimately show ?thesis ..
qed

lemma fifo_get_byte_contents:
  assumes ok: "fifo_ok f" and ne: "fsize f \<noteq> 0"
  shows "fst (fifo_get_byte f) = hd (fifo_contents f) \<and> fifo_ok (snd (fifo_get_byte f)) \<and>
    fifo_contents (snd (fifo_get_byte f)) = tl (fifo_contents f)"
proof -
  let ?f = "snd (fifo_get_byte f)"
  obtain m where m: "unat (fsize f) = Suc m"
    using ne by (metis nat.exhaust unat_eq_zero)
  then have "1 \<le> fsize f" by (simp add: word_le_nat_alt)
  then have n: "unat (fsize ?f) = m"
    using m by (simp add: fifo_get_byte_def unat_sub)
  have t: "unat (tail ?f) = fifo_tail_offset f 1"
    using offset_less [OF ok, of 1] unat_16_less [of "capacity f"]
    by (simp add: fifo_get_byte_def unat_of_nat)
  have "fifo_tail_offset ?f k = fifo_tail_offset f (Suc k)" for k
    using t by (simp add: fifo_tail_offset_def fifo_get_byte_def mod_add_left_eq)
  then have "fifo_peek ?f k = fifo_peek f (Suc k)" for k
    by (simp add: fifo_peek_def fifo_get_byte_def)
  then have "fifo_contents ?f = tl (fifo_contents f)"
    unfolding fifo_contents_def n m
    by (simp add: map_tl [symmetric] upt_conv_Cons map_Suc_upt [symmetric] comp_def del: upt_Suc)
  moreover have "fst (fifo_get_byte f) = hd (fifo_contents f)"
    using m ok by (simp add: fifo_contents_def upt_conv_Cons fifo_get_byte_def fifo_peek_def
        fifo_tail_offset_def fifo_ok_def del: upt_Suc)
  moreover have "fifo_ok ?f"
    using ok n m t offset_less [OF ok, of 1] by (simp add: fifo_ok_def fifo_get_byte_def)
  ultimately show ?thesis by blast
qed

interpretation ring: bounded_queue fifo_add_byte fifo_get_byte fifo_contents fifo_ok
  "\<lambda>f. unat (capacity f)"
proof
  show "fifo_ok (fifo_add_byte f c) \<and> fifo_contents (fifo_add_byte f c) = fifo_contents f @ [c] \<and>
      unat (capacity (fifo_add_byte f c)) = unat (capacity f)"
    if "fifo_ok f" "length (fifo_contents f) < unat (capacity f)" for f c
    using fifo_add_byte_contents [of f c] that by (simp add: fifo_add_byte_def)
  show "fst (fifo_get_byte f) = x \<and> fifo_ok (snd (fifo_get_byte f)) \<and>
      fifo_contents (snd (fifo_get_byte f)) = xs \<and>
      unat (capacity (snd (fifo_get_byte f))) = unat (capacity f)"
    if "fifo_ok f" "fifo_contents f = x # xs" for f x xs
  proof -
    have "fsize f \<noteq> 0" using that(2) by (auto simp: fifo_contents_def)
    from fifo_get_byte_contents [OF that(1) this] that(2) show ?thesis
      by (simp add: fifo_get_byte_def)
  qed
qed

lemma fifo_ok_create: "0 < unat cap \<Longrightarrow> fifo_ok (FIFO_CREATE cap) \<and> fifo_contents (FIFO_CREATE cap) = []"
  by (simp add: fifo_ok_def FIFO_CREATE_def fifo_contents_def)

lemma fifo_peek_nth: "k < unat (fsize f) \<Longrightarrow> fifo_peek f k = fifo_contents f ! k"
  by (simp add: fifo_contents_def)

lemma fifo_tests:
  "fifo_is_full f \<longleftrightarrow> unat (fsize f) = unat (capacity f)"
  "fifo_is_empty f \<longleftrightarrow> fifo_contents f = []"
  "fifo_has_space f n \<longleftrightarrow> unat (fsize f) + n \<le> unat (capacity f)"
proof -
  show "fifo_is_full f \<longleftrightarrow> unat (fsize f) = unat (capacity f)"
    by (metis fifo_is_full_def word_unat_eq_iff)
  show "fifo_is_empty f \<longleftrightarrow> fifo_contents f = []"
    by (simp add: fifo_is_empty_def fifo_contents_def unat_eq_0)
  show "fifo_has_space f n \<longleftrightarrow> unat (fsize f) + n \<le> unat (capacity f)"
    unfolding fifo_has_space_def by linarith
qed

section \<open>Properties\<close>

text \<open>C7: The ring buffer implements a queue: any sequence of additions and removals that never adds
  to a full and never takes from an empty buffer gives the same bytes, and leaves the same
  contents, as it does on a list.\<close>

theorem fifo_refines_list:
  assumes "fifo_ok f" and "in_bounds (unat (capacity f)) ops (unat (fsize f))"
  shows "\<exists>g. run_ops fifo_add_byte fifo_get_byte ops f =
      (fst (run_ops (\<lambda>xs x. xs @ [x]) (\<lambda>xs. (hd xs, tl xs)) ops (fifo_contents f)), g) \<and> fifo_ok g \<and>
    fifo_contents g = snd (run_ops (\<lambda>xs x. xs @ [x]) (\<lambda>xs. (hd xs, tl xs)) ops (fifo_contents f))"
  using ring.simulates_list [of f ops] assms by simp

theorem fifo_refines_list_witness:
  "\<exists>g. run_ops fifo_add_byte fifo_get_byte [Put 1, Put 2, Take, Put 3, Put 4, Take, Put 5]
      (FIFO_CREATE 3) = ([1, 2], g) \<and> fifo_contents g = [3, 4, 5]"
proof -
  have f: "fifo_ok (FIFO_CREATE 3)" "fifo_contents (FIFO_CREATE 3) = []"
    using fifo_ok_create [of 3] by simp_all
  have "in_bounds (unat (capacity (FIFO_CREATE 3)))
      [Put 1, Put 2, Take, Put 3, Put 4, Take, Put (5 :: byte)] (unat (fsize (FIFO_CREATE 3)))"
    by (simp add: FIFO_CREATE_def)
  from fifo_refines_list [OF f(1) this] f(2) show ?thesis by auto
qed

end
