(* ===== verification/Bridge.thy ===== *)
theory Bridge
  imports Receive Fifo
begin

text \<open>
  The other end of the serial line: the virtual radio of the NimBLE target
  (psf\_bridge/src/ble\_phy.c), in C. It unpacks the mapper's frames and decrypts them for the
  NimBLE link layer, and encrypts and frames what the link layer sends. Here are the serial
  interrupts, \<open>fifo_get_pkt_len\<close>, the part of \<open>recv_packet\<close> that takes a packet off the buffer,
  \<open>ble_phy_tx\<close> up to the callback at its end, and the settings; the rest of \<open>recv_packet\<close> is in the
  theory Handover, \<open>ble_phy_rxpdu_copy\<close> in Mbuf. What NimBLE does with a packet is not in the
  repository. AES-CCM is tinycrypt's, a parameter. The machine is little-endian.
\<close>

section \<open>State\<close>

record tinycrypt =
  tc_generation_encryption :: "bytes \<Rightarrow> bytes \<Rightarrow> bytes \<Rightarrow> bytes \<Rightarrow> bytes"
  tc_decryption_verification :: "bytes \<Rightarrow> bytes \<Rightarrow> bytes \<Rightarrow> bytes \<Rightarrow> bytes \<times> bool"

text \<open>0 at start, which is NimBLE's standby state.\<close>

datatype ll_phase = BLE_LL_STATE_STANDBY | BLE_LL_STATE_ADV | BLE_LL_STATE_CONNECTION

datatype phy_phase = BLE_PHY_STATE_IDLE | BLE_PHY_STATE_RX | BLE_PHY_STATE_TX

record bridge =
  phy_state :: phy_phase
  ll_state :: ll_phase
  phy_chan :: byte
  phy_access_address :: "32 word"
  rx_sn :: bool
  rx_nesn :: bool
  sent_non_empty_pkt :: bool
  enc_enabled :: bool
  enc_key :: bytes
  enc_iv :: bytes
  enc_counter :: "64 word"
  serial_tx_buf :: fifo
  serial_rx_buf :: fifo
  uart_is_connected :: bool
  pkt_count :: "32 word"
  recv_queued :: bool
  phy_txpwr_dbm :: byte

datatype bridge_error = AssertFailed | UndefinedBehaviour

section \<open>Receiving\<close>

definition bridge_rx_nonce :: "bridge \<Rightarrow> bytes" where
  "bridge_rx_nonce b =
     (let n = take 5 (le_bytes 8 (uint (enc_counter b))) in n[4 := n ! 4 OR 0x80] @ enc_iv b)"

definition fifo_get_pkt_len :: "fifo \<Rightarrow> bridge_error + nat" where
  "fifo_get_pkt_len f =
     (if unat (fsize f) > 3
      then if fifo_peek f 0 \<noteq> 0xA7 then Inl AssertFailed
           else let btle_pkt_len = unat (fifo_peek f 1) + unat (fifo_peek f 2) * 256
                in Inr (if unat (fsize f) \<ge> 1 + 2 + btle_pkt_len + 1 then btle_pkt_len else 0)
      else Inr 0)"

definition ble_phy_uart_rx_char :: "byte \<Rightarrow> bridge \<Rightarrow> bridge_error + bridge" where
  "ble_phy_uart_rx_char c b0 =
     (let b = b0\<lparr>pkt_count := pkt_count b0 + 1\<rparr> in
      if pkt_count b = 1 then (if c = 0xCC then Inr b else Inl AssertFailed)
      else if pkt_count b = 2 then Inr (b\<lparr>uart_is_connected := True\<rparr>)
      else if fifo_is_full (serial_rx_buf b) then Inl AssertFailed
      else let b1 = b\<lparr>serial_rx_buf := fifo_add_byte (serial_rx_buf b) c\<rparr> in
           case fifo_get_pkt_len (serial_rx_buf b1) of
             Inl e \<Rightarrow> Inl e
           | Inr n \<Rightarrow> Inr (if n \<noteq> 0 then b1\<lparr>recv_queued := True\<rparr> else b1))"

fun uart_rx :: "bytes \<Rightarrow> bridge \<Rightarrow> bridge_error + bridge" where
  "uart_rx [] b = Inr b"
| "uart_rx (c # cs) b = (case ble_phy_uart_rx_char c b of Inl e \<Rightarrow> Inl e | Inr b1 \<Rightarrow> uart_rx cs b1)"

text \<open>
  The packet in \<open>rx_buf\<close> after decryption, and \<open>crypto_ok\<close>. The plaintext replaces the start of
  the ciphertext in the buffer, and the tag is cut off by the length.
\<close>

definition decrypt_rx :: "tinycrypt \<Rightarrow> bridge \<Rightarrow> bytes \<Rightarrow> bytes \<times> bool" where
  "decrypt_rx T b rx_buf =
     (if enc_enabled b \<and> length rx_buf > 10 \<and> rx_buf ! 5 > 0
      then case tc_decryption_verification T (enc_key b) (bridge_rx_nonce b) [rx_buf ! 4 AND 0xE3]
                  (drop 6 rx_buf) of
             (plain, crypto_ok) \<Rightarrow> (take 5 rx_buf @ [rx_buf ! 5 - 4] @ plain, crypto_ok)
      else (rx_buf, True))"

definition accepts :: "bridge \<Rightarrow> bytes \<Rightarrow> bool" where
  "accepts b rx_buf =
     (let is_adv_chan_pkt = take 4 rx_buf = le_bytes 4 0x8e89bed6 in
      phy_chan b \<ge> 37 \<and> is_adv_chan_pkt \<or> phy_chan b < 37 \<and> \<not> is_adv_chan_pkt)"

text \<open>
  One turn of \<open>recv_packet\<close>'s loop, up to what is handed to the link layer: the packet and whether
  its tag was right, nothing when it does not fit the channel, and no turn when no packet is
  complete. A packet beyond the 260 bytes of \<open>rx_buf\<close>, or too short for its header, has no
  defined behaviour.
\<close>

definition recv_turn :: "tinycrypt \<Rightarrow> bridge \<Rightarrow> bridge_error + ((bytes \<times> bool) option \<times> bridge) option" where
  "recv_turn T b =
     (case fifo_get_pkt_len (serial_rx_buf b) of
        Inl e \<Rightarrow> Inl e
      | Inr 0 \<Rightarrow> Inr None
      | Inr rx_buf_len \<Rightarrow>
          (if rx_buf_len > 260 \<or> rx_buf_len < 6 then Inl UndefinedBehaviour
           else
             case fifo_get_buf (serial_rx_buf b) 3 of (_, f1) \<Rightarrow>
             case fifo_get_buf f1 rx_buf_len of (rx_buf, f2) \<Rightarrow>
             case fifo_get_byte f2 of (_, f3) \<Rightarrow>
               let b1 = b\<lparr>serial_rx_buf := f3\<rparr> in
               case decrypt_rx T b1 rx_buf of (pkt, crypto_ok) \<Rightarrow>
                 Inr (Some (if accepts b1 pkt then Some (pkt, crypto_ok) else None, b1))))"

section \<open>Sending\<close>

definition bridge_tx_nonce :: "bridge \<Rightarrow> bytes" where
  "bridge_tx_nonce b =
     (let n = take 5 (le_bytes 8 (uint (enc_counter b))) in n[4 := n ! 4 AND 0x7F] @ enc_iv b)"

text \<open>
  \<open>ble_phy_tx\<close>, given the payload and the header byte the link layer's callback provides. The
  payload length is kept in 16 bits, its byte in the header in 8.
\<close>

definition ble_phy_tx :: "tinycrypt \<Rightarrow> byte \<Rightarrow> bytes \<Rightarrow> bridge \<Rightarrow> bridge_error + bridge" where
  "ble_phy_tx T hdr_byte pdu bb =
     (let b0 = bb\<lparr>phy_state := BLE_PHY_STATE_TX\<rparr>;
          b1 = (if phy_chan b0 < 37
                then b0\<lparr>rx_sn := bit hdr_byte 2, rx_nesn := (\<not> bit hdr_byte 3)\<rparr> else b0);
          b = (if pdu \<noteq> [] then b1\<lparr>sent_non_empty_pkt := True\<rparr> else b1);
          payload = (if enc_enabled b \<and> pdu \<noteq> []
                     then tc_generation_encryption T (enc_key b) (bridge_tx_nonce b)
                            [hdr_byte AND 0xE3] pdu
                     else pdu);
          tx_buf = le_bytes 4 (uint (phy_access_address b)) @ [hdr_byte, of_nat (length payload)] @
                     payload @ [0, 0, 0];
          checksum = foldl (+) 0 tx_buf
      in if \<not> fifo_has_space (serial_tx_buf b) (5 + length tx_buf + 1) then Inl AssertFailed
         else Inr (b\<lparr>serial_tx_buf :=
           fifo_add_buf (serial_tx_buf b)
             ([0xA7, of_nat (length tx_buf), of_nat (length tx_buf div 256), 0, 0] @ tx_buf @
              [checksum])\<rparr>))"

section \<open>Settings\<close>

definition ble_phy_encrypt_enable :: "bytes \<Rightarrow> bridge \<Rightarrow> bridge" where
  "ble_phy_encrypt_enable key b = b\<lparr>enc_key := take 16 key, enc_enabled := True\<rparr>"

definition ble_phy_encrypt_iv_set :: "bytes \<Rightarrow> bridge \<Rightarrow> bridge" where
  "ble_phy_encrypt_iv_set iv b = b\<lparr>enc_iv := take 8 iv\<rparr>"

definition ble_phy_encrypt_counter_set :: "64 word \<Rightarrow> bridge \<Rightarrow> bridge" where
  "ble_phy_encrypt_counter_set n b = b\<lparr>enc_counter := n\<rparr>"

definition ble_phy_encrypt_disable :: "bridge \<Rightarrow> bridge" where
  "ble_phy_encrypt_disable b = b\<lparr>enc_enabled := False\<rparr>"

definition ble_phy_setchan :: "byte \<Rightarrow> 32 word \<Rightarrow> bridge \<Rightarrow> bridge" where
  "ble_phy_setchan chan access_addr b =
     b\<lparr>phy_access_address := access_addr, phy_chan := chan,
       ll_state := (if chan = 37 \<or> chan = 38 \<or> chan = 39 then BLE_LL_STATE_ADV
                    else BLE_LL_STATE_CONNECTION)\<rparr>"

definition ble_phy_rx :: "bridge \<Rightarrow> bridge" where
  "ble_phy_rx b = b\<lparr>phy_state := BLE_PHY_STATE_RX\<rparr>"

definition ble_phy_disable :: "bridge \<Rightarrow> bridge" where
  "ble_phy_disable b = b\<lparr>phy_state := BLE_PHY_STATE_IDLE\<rparr>"

definition ble_phy_tx_power_set :: "int \<Rightarrow> bridge \<Rightarrow> bridge" where
  "ble_phy_tx_power_set dbm b = b\<lparr>phy_txpwr_dbm := word_of_int dbm\<rparr>"

definition ble_phy_tx_power_get :: "bridge \<Rightarrow> int" where
  "ble_phy_tx_power_get b = sint (phy_txpwr_dbm b)"

text \<open>The transmit interrupt: the next byte of the buffer, or -1; and so many interrupts.\<close>

definition ble_phy_uart_tx_char :: "bridge \<Rightarrow> int \<times> bridge" where
  "ble_phy_uart_tx_char b =
     (if fifo_is_empty (serial_tx_buf b) then (- 1, b)
      else case fifo_get_byte (serial_tx_buf b) of
             (c, f) \<Rightarrow> (uint c, b\<lparr>serial_tx_buf := f\<rparr>))"

fun uart_tx :: "nat \<Rightarrow> bridge \<Rightarrow> int list \<times> bridge" where
  "uart_tx 0 b = ([], b)"
| "uart_tx (Suc n) b = (case ble_phy_uart_tx_char b of
     (c, b1) \<Rightarrow> case uart_tx n b1 of (cs, b2) \<Rightarrow> (c # cs, b2))"

text \<open>\<open>ble_phy_init\<close>, which NimBLE calls twice, sets these two (and opens the port and starts the
  receiving task the first time); \<open>BLE_PHY_NUM_CHANS\<close> is 40.\<close>

definition ble_phy_init :: "bridge \<Rightarrow> bridge" where
  "ble_phy_init b = b\<lparr>phy_state := BLE_PHY_STATE_IDLE, phy_chan := 40\<rparr>"

text \<open>The variables' initial values, and \<open>ble_phy_init\<close>.\<close>

definition bridge0 :: bridge where
  "bridge0 =
     \<lparr>phy_state = BLE_PHY_STATE_IDLE, ll_state = BLE_LL_STATE_STANDBY, phy_chan = 40, phy_access_address = 0, rx_sn = False, rx_nesn = False,
      sent_non_empty_pkt = False, enc_enabled = False, enc_key = zeros 16, enc_iv = zeros 8,
      enc_counter = 0, serial_tx_buf = FIFO_CREATE 1024, serial_rx_buf = FIFO_CREATE 1024,
      uart_is_connected = False, pkt_count = 0, recv_queued = False, phy_txpwr_dbm = 0\<rparr>"

end
