(* ===== verification/Peer.thy ===== *)
theory Peer
  imports Bridge
begin

text \<open>
  The mapper and the virtual radio of the NimBLE target, end to end: what one side sends, framed
  and encrypted, arrives at the other side's decryption as it was. The two sides' AES-CCM are
  pycryptodome and tinycrypt; \<open>ccm_same\<close> states that both implement the standard.
\<close>

definition ccm_same :: "'w env \<Rightarrow> tinycrypt \<Rightarrow> bool" where
  "ccm_same X T \<longleftrightarrow>
     (\<forall>key nonce ad pt. length key = 16 \<and> length nonce = 13 \<longrightarrow>
        (\<exists>ct mic. ccm_encrypt X key nonce ad pt = Inr (ct, mic) \<and>
           tc_generation_encryption T key nonce ad pt = ct @ mic \<and>
           tc_decryption_verification T key nonce ad (ct @ mic) = (pt, True)))"

text \<open>Both sides hold the same key and initialisation vector.\<close>

definition same_keys :: "bridge \<Rightarrow> conn \<Rightarrow> bool" where
  "same_keys b c \<longleftrightarrow> enc_key b = conn_session_key c \<and> enc_iv b = conn_iv c \<and>
     length (enc_key b) = 16 \<and> length (enc_iv b) = 8"

lemma nonces_agree:
  "bridge_rx_nonce b = tx_nonce (uint (enc_counter b)) (enc_iv b)"
  "bridge_tx_nonce b = rx_nonce (uint (enc_counter b)) (enc_iv b)"
  by (simp_all add: bridge_rx_nonce_def bridge_tx_nonce_def tx_nonce_def rx_nonce_def)

lemma uint_64_less: "uint (n :: 64 word) < 256 ^ 8"
  using uint_lt2p [of n] by simp

section \<open>From the radio to the mapper\<close>

lemma sum_bytes: "word_of_int (sum_list (map uint bs)) = foldl (+) 0 (bs :: bytes)"
proof -
  have "foldl (+) a bs = a + word_of_int (sum_list (map uint bs))" for a
    by (induction bs arbitrary: a) (simp_all add: add.assoc)
  then show ?thesis by simp
qed

lemma word_mod_256: "(word_of_int (v mod 256) :: byte) = word_of_int v"
  by (simp add: word_of_int_eq_iff take_bit_eq_mod)

lemma checksum_good: "foldl (+) 0 bs = good_cks bs"
  by (simp add: good_cks_def checksum8_mod word_mod_256 sum_bytes)

lemma le2_of_nat: "le_bytes 2 (int n) = [of_nat n, of_nat (n div 256)]"
proof -
  have "int n div 256 = int (n div 256)" by (simp add: zdiv_int)
  then show ?thesis by (simp add: le_bytes_2)
qed

definition radio_pkt :: "tinycrypt \<Rightarrow> byte \<Rightarrow> bytes \<Rightarrow> bridge \<Rightarrow> bytes" where
  "radio_pkt T h pdu b =
     ll_pdu (le_bytes 4 (uint (phy_access_address b))) h
       (if enc_enabled b \<and> pdu \<noteq> []
        then tc_generation_encryption T (enc_key b) (bridge_tx_nonce b) [h AND 0xE3] pdu else pdu)
       [0, 0, 0]"

lemma ble_phy_tx_frame:
  assumes tx: "ble_phy_tx T h pdu b = Inr b'" and ok: "fifo_ok (serial_tx_buf b)"
  shows "fifo_contents (serial_tx_buf b') = fifo_contents (serial_tx_buf b) @
      dongle_frame 0xA7 0 (radio_pkt T h pdu b) (good_cks (radio_pkt T h pdu b))"
    and "length (radio_pkt T h pdu b) < 65536" and "fifo_ok (serial_tx_buf b')"
proof -
  let ?p = "radio_pkt T h pdu b" and ?f = "serial_tx_buf b"
  let ?bs = "[0xA7, of_nat (length ?p), of_nat (length ?p div 256), 0, 0] @ ?p @ [good_cks ?p]"
  have space: "fifo_has_space ?f (length ?bs)" and f: "serial_tx_buf b' = fifo_add_buf ?f ?bs"
    using tx unfolding ble_phy_tx_def checksum_good
    by (auto simp: Let_def radio_pkt_def ll_pdu_def bridge_tx_nonce_def split: if_splits)
  have len: "unat (fsize ?f) + length ?bs \<le> unat (capacity ?f)"
    using space by (simp only: fifo_tests)
  have frame: "?bs = dongle_frame 0xA7 0 ?p (good_cks ?p)"
    by (simp add: dongle_frame_def le2_of_nat le_bytes_zero) (simp add: numeral_2_eq_2)
  define d where "d = dongle_frame 0xA7 0 ?p (good_cks ?p)"
  have d: "serial_tx_buf b' = foldl fifo_add_byte ?f d" "unat (fsize ?f) + length d \<le> unat (capacity ?f)"
    using f len unfolding d_def fifo_add_buf_def frame by simp_all
  show "fifo_contents (serial_tx_buf b') = fifo_contents ?f @ dongle_frame 0xA7 0 ?p (good_cks ?p)"
    and "fifo_ok (serial_tx_buf b')"
    using ring.add_all [OF ok, of d] d by (simp_all flip: d_def)
  show "length ?p < 65536" using len unat_16_less [of "capacity ?f"] by simp
qed

lemma ble_phy_tx_room:
  assumes "unat (fsize (serial_tx_buf b)) + (6 + length (radio_pkt T h pdu b))
      \<le> unat (capacity (serial_tx_buf b))"
  shows "\<exists>b'. ble_phy_tx T h pdu b = Inr b'"
  using assms
  by (auto simp: ble_phy_tx_def Let_def fifo_tests radio_pkt_def ll_pdu_def bridge_tx_nonce_def)

text \<open>The transmit interrupt sends the buffer's bytes in order, and then has nothing.\<close>

lemma uart_tx_drains:
  "fifo_ok (serial_tx_buf b) \<Longrightarrow> fifo_contents (serial_tx_buf b) = cs \<Longrightarrow>
   fst (uart_tx k b) = map uint (take k cs) @ replicate (k - length cs) (- 1)"
proof (induction k arbitrary: b cs)
  case (Suc k)
  let ?f = "serial_tx_buf b"
  show ?case
  proof (cases cs)
    case Nil
    then have "fifo_is_empty ?f" using Suc.prems(2) by (simp add: fifo_tests)
    then show ?thesis using Suc.IH [OF Suc.prems] Nil
      by (simp add: ble_phy_uart_tx_char_def split_beta)
  next
    case (Cons x xs)
    then have "\<not> fifo_is_empty ?f" using Suc.prems(2) by (simp add: fifo_tests)
    moreover obtain g where "fifo_get_byte ?f = (x, g)" "fifo_ok g" "fifo_contents g = xs"
      using ring.get_ok [OF Suc.prems(1)] Suc.prems(2) Cons by (cases "fifo_get_byte ?f") auto
    moreover from this Suc.IH [of "b\<lparr>serial_tx_buf := g\<rparr>" xs]
    have "fst (uart_tx k (b\<lparr>serial_tx_buf := g\<rparr>)) = map uint (take k xs) @ replicate (k - length xs) (- 1)"
      by simp
    ultimately show ?thesis by (simp add: ble_phy_uart_tx_char_def split_beta Cons)
  qed
qed simp

lemma uart_tx_all:
  assumes ok: "fifo_ok (serial_tx_buf b)"
    and sent: "fst (uart_tx (Suc (length bs)) b) = map uint bs @ [- 1]"
  shows "fifo_contents (serial_tx_buf b) = bs"
proof -
  define cs where "cs = fifo_contents (serial_tx_buf b)"
  have eq: "map uint bs @ [- 1] = map uint (take (Suc (length bs)) cs) @
      replicate (Suc (length bs) - length cs) (- 1)"
    using uart_tx_drains [OF ok refl, of "Suc (length bs)"] sent by (simp add: cs_def)
  have no: "- 1 \<notin> set (map uint (xs :: bytes))" for xs
    using uint_ge_0 by (metis (mono_tags) ex_map_conv neg_0_le_iff_le not_one_le_zero)
  have "\<not> length bs < length cs"
  proof
    assume "length bs < length cs"
    with eq no [of "take (Suc (length bs)) cs"] show False
      by (metis diff_is_0_eq Suc_leI append_Nil2 in_set_conv_decomp replicate_0)
  qed
  moreover have "\<not> length cs < length bs"
  proof
    assume "length cs < length bs"
    then have "(map uint bs @ [- 1]) ! length cs = uint (bs ! length cs)" by (simp add: nth_append)
    moreover have "(map uint bs @ [- 1]) ! length cs = - 1"
      unfolding eq using \<open>length cs < length bs\<close> by (simp add: nth_append del: replicate_Suc)
    ultimately show False using uint_ge_0 [of "bs ! length cs"] by simp
  qed
  ultimately have len: "length cs = length bs" by simp
  with eq have "map uint bs = map uint cs" by simp
  then have "bs = cs" by (metis inj_map_eq_map inj_onI word_uint_eqI)
  then show ?thesis by (simp add: cs_def)
qed

text \<open>C5: What the NimBLE target sends, the mapper gets. When the link layer hands a PDU to the virtual
  radio and the bytes its transmit interrupt then sends, until it has none, are what the mapper's
  serial port reads, \<open>raw_receive\<close> returns one packet and leaves the rest: the PDU itself, with access address and header, in the clear; with
  encryption on, a packet which \<open>receive\<close> decrypts to it, given both sides have the same keys and
  counter.\<close>

theorem radio_to_mapper:
  assumes "ble_phy_tx T h pdu b = Inr b'" and "fifo_ok (serial_tx_buf b)"
    and "fifo_contents (serial_tx_buf b) = []" and "length pdu \<le> 251"
    and "serial_ok X rx" and "rx (outside s) = bs @ rest"
    and "fst (uart_tx (Suc (length bs)) b') = map uint bs @ [- 1]"
    and "ccm_ok X" and "ccm_same X T" and "same_keys b c"
    and "enc_rx_pkt_count c = uint (enc_counter b)"
  shows "\<exists>data t. raw_receive X s = Ret (Some data) t \<and> rx (outside t) = rest \<and>
    (let plain = ll_pdu (le_bytes 4 (uint (phy_access_address b))) h pdu [0, 0, 0] in
     if enc_enabled b \<and> pdu \<noteq> [] then decrypt_pdu X c data = Inr (Some (plain, True))
     else data = plain)"
proof -
  let ?p = "radio_pkt T h pdu b" and ?aa = "le_bytes 4 (uint (phy_access_address b))"
  note tx = ble_phy_tx_frame [OF assms(1,2)]
  obtain w where w: "rx w = rest" "raw_receive X s = Ret (Some ?p)
      (accept_data X [0xA7] 0 ?p (s\<lparr>ser_timeout := None, outside := w\<rparr>))"
    using raw_receive_data [OF assms(5), of "0xA7" s 0 ?p "good_cks ?p" rest] tx assms(3,6)
      uart_tx_all [OF tx(3) assms(7)] by auto
  have "rx (outside (accept_data X [0xA7] 0 ?p (s\<lparr>ser_timeout := None, outside := w\<rparr>))) = rest"
    using w(1) by (simp add: accept_data_def Let_def)
  moreover have "decrypt_pdu X c ?p = Inr (Some (ll_pdu ?aa h pdu [0, 0, 0], True))"
    if enc: "enc_enabled b" "pdu \<noteq> []"
  proof -
    have keys: "enc_key b = conn_session_key c" "enc_iv b = conn_iv c"
      "length (enc_key b) = 16" "length (bridge_tx_nonce b) = 13"
      using assms(10) by (auto simp: same_keys_def nonces_agree)
    obtain ct mic where cm: "ccm_encrypt X (enc_key b) (bridge_tx_nonce b) [h AND 0xE3] pdu = Inr (ct, mic)"
        "tc_generation_encryption T (enc_key b) (bridge_tx_nonce b) [h AND 0xE3] pdu = ct @ mic"
      using assms(9) keys(3,4) unfolding ccm_same_def by blast
    have "1 \<le> length pdu" using enc(2) by (cases pdu) auto
    with decrypt_pdu_peer [OF assms(8), of ?aa "[0, 0, 0]" pdu c h ct mic] cm keys assms(4,11)
      uint_64_less [of "enc_counter b"] enc
    show ?thesis by (simp add: radio_pkt_def nonces_agree)
  qed
  ultimately show ?thesis
    using w(2) by (auto simp: Let_def radio_pkt_def)
qed

text \<open>A radio on the simulated cipher, and a connection with the same keys.\<close>

definition sim_tc :: tinycrypt where
  "sim_tc =
     \<lparr>tc_generation_encryption = (\<lambda>key nonce ad pt.
        let ct = map (\<lambda>b. b XOR sim_k key) pt in ct @ sim_mic nonce ad ct),
      tc_decryption_verification = (\<lambda>key nonce ad c.
        let ct = take (length c - 4) c in
        (map (\<lambda>b. b XOR sim_k key) ct, drop (length c - 4) c = sim_mic nonce ad ct))\<rparr>"

lemma sim_ccm_same: "ccm_same sim_env sim_tc"
proof -
  have "map ((\<lambda>b. b XOR k) \<circ> (\<lambda>b. b XOR k)) pt = pt" for k :: byte and pt
    by (rule map_idI) (simp add: xor.assoc)
  then show ?thesis
    by (simp add: ccm_same_def sim_env_def sim_tc_def Let_def sim_mic_def)
qed

definition sim_radio :: bridge where
  "sim_radio = bridge0\<lparr>phy_chan := 1, phy_access_address := 7, enc_enabled := True,
     enc_key := replicate 16 3, pkt_count := 2\<rparr>"

definition sim_peer_conn :: conn where
  "sim_peer_conn = sim_conn\<lparr>conn_session_key := replicate 16 3\<rparr>"

lemma sim_same_keys: "same_keys sim_radio sim_peer_conn"
  by (simp add: same_keys_def sim_radio_def sim_peer_conn_def bridge0_def zeros_def)

lemma sim_radio_fifos:
  "fifo_ok (serial_tx_buf sim_radio)" "fifo_contents (serial_tx_buf sim_radio) = []"
  "fifo_ok (serial_rx_buf sim_radio)" "fifo_contents (serial_rx_buf sim_radio) = []"
  using fifo_ok_create [of 1024] by (simp_all add: sim_radio_def bridge0_def)

theorem radio_to_mapper_witness:
  "\<exists>b' data t. ble_phy_tx sim_tc 2 [9] sim_radio = Inr b' \<and>
     raw_receive sim_env (nrf_class (sim0\<lparr>sim_rx := fifo_contents (serial_tx_buf b')\<rparr>)) =
       Ret (Some data) t \<and>
     decrypt_pdu sim_env sim_peer_conn data = Inr (Some (ll_pdu [7, 0, 0, 0] 2 [9] [0, 0, 0], True))"
proof -
  have "length (tc_generation_encryption sim_tc key nonce ad pt) = length pt + 4" for key nonce ad pt
    by (simp add: sim_tc_def sim_mic_def Let_def)
  then have "length (radio_pkt sim_tc 2 [9] sim_radio) \<le> 14"
    by (simp add: radio_pkt_def ll_pdu_def)
  moreover have "unat (fsize (serial_tx_buf sim_radio)) = 0" "unat (capacity (serial_tx_buf sim_radio)) = 1024"
    by (simp_all add: sim_radio_def bridge0_def FIFO_CREATE_def)
  ultimately obtain b' where b': "ble_phy_tx sim_tc 2 [9] sim_radio = Inr b'"
    using ble_phy_tx_room [of sim_radio sim_tc 2 "[9]"] by auto
  have c: "enc_rx_pkt_count sim_peer_conn = uint (enc_counter sim_radio)"
    by (simp add: sim_peer_conn_def sim_radio_def bridge0_def)
  have "le_bytes 4 7 = [7, 0, 0, 0]" by code_simp
  then have aa: "le_bytes 4 (uint (phy_access_address sim_radio)) = [7, 0, 0, 0]" "enc_enabled sim_radio"
    by (simp_all add: sim_radio_def)
  let ?s = "nrf_class (sim0\<lparr>sim_rx := fifo_contents (serial_tx_buf b')\<rparr>)"
  have len: "length [9 :: byte] \<le> 251" by simp
  have rx: "sim_rx (outside ?s) = fifo_contents (serial_tx_buf b') @ []"
    by (simp add: nrf_class_def)
  have sent: "fst (uart_tx (Suc (length (fifo_contents (serial_tx_buf b')))) b') =
      map uint (fifo_contents (serial_tx_buf b')) @ [- 1]"
    using uart_tx_drains [OF ble_phy_tx_frame(3) [OF b' sim_radio_fifos(1)] refl,
        of "Suc (length (fifo_contents (serial_tx_buf b')))"] by simp
  obtain data t where "raw_receive sim_env ?s = Ret (Some data) t"
    "decrypt_pdu sim_env sim_peer_conn data = Inr (Some (ll_pdu [7, 0, 0, 0] 2 [9] [0, 0, 0], True))"
    using radio_to_mapper [OF b' sim_radio_fifos(1,2) len sim_serial rx sent sim_ccm sim_ccm_same
        sim_same_keys c] unfolding aa Let_def by (auto simp: aa(2))
  with b' show ?thesis by blast
qed

section \<open>From the mapper to the radio\<close>

text \<open>The serial interrupt, fed a frame: the bytes end up in the buffer.\<close>

lemma fifo_get_pkt_len_start:
  assumes "fifo_contents f = 0xA7 # xs"
  shows "\<exists>n. fifo_get_pkt_len f = Inr n"
proof -
  have "unat (fsize f) = Suc (length xs)" using arg_cong [OF assms, of length] by simp
  then have "fifo_peek f 0 = 0xA7" using assms by (simp add: fifo_peek_nth)
  then show ?thesis by (auto simp: fifo_get_pkt_len_def Let_def)
qed

lemma uart_rx_buffers:
  assumes "fifo_ok (serial_rx_buf b)" and "fifo_contents (serial_rx_buf b) @ cs = 0xA7 # w"
    and "length (0xA7 # w) \<le> unat (capacity (serial_rx_buf b))"
    and "2 \<le> unat (pkt_count b)" and "unat (pkt_count b) + length cs < 2 ^ 32"
  shows "\<exists>q. uart_rx cs b = Inr (b\<lparr>pkt_count := pkt_count b + of_nat (length cs),
      serial_rx_buf := foldl fifo_add_byte (serial_rx_buf b) cs, recv_queued := q\<rparr>)"
  using assms
proof (induction cs arbitrary: b)
  case Nil
  show ?case by (intro exI [of _ "recv_queued b"]) simp
next
  case (Cons c cs)
  let ?f = "serial_rx_buf b" and ?n = "pkt_count b + 1"
  have n: "unat ?n = Suc (unat (pkt_count b))"
    using Cons.prems(5) by (simp add: unat_word_ariths)
  then have n12: "?n \<noteq> 1" "?n \<noteq> 2"
    using Cons.prems(4) by (auto dest!: arg_cong [where f = unat])
  have room: "unat (fsize ?f) < unat (capacity ?f)"
    using arg_cong [OF Cons.prems(2), of length] Cons.prems(3) by simp
  then have "\<not> fifo_is_full ?f" by (simp add: fifo_tests)
  note add = fifo_add_byte_contents [OF Cons.prems(1) room, of c]
  obtain m where m: "fifo_get_pkt_len (fifo_add_byte ?f c) = Inr m"
    using fifo_get_pkt_len_start [of "fifo_add_byte ?f c"] add Cons.prems(2)
    by (cases "fifo_contents ?f") auto
  let ?b = "b\<lparr>pkt_count := ?n, serial_rx_buf := fifo_add_byte ?f c,
      recv_queued := (if m \<noteq> 0 then True else recv_queued b)\<rparr>"
  have step: "ble_phy_uart_rx_char c b = Inr ?b"
    using n12 \<open>\<not> fifo_is_full ?f\<close> m by (simp add: ble_phy_uart_rx_char_def Let_def)
  have "capacity (fifo_add_byte ?f c) = capacity ?f" by (simp add: fifo_add_byte_def)
  then obtain q where "uart_rx cs ?b = Inr (?b\<lparr>pkt_count := ?n + of_nat (length cs),
      serial_rx_buf := foldl fifo_add_byte (fifo_add_byte ?f c) cs, recv_queued := q\<rparr>)"
    using Cons.IH [of ?b] Cons.prems add n by auto
  then show ?case using step by (intro exI [of _ q]) (simp add: add.assoc)
qed


lemma fifo_get_pkt_len_frame:
  assumes c: "fifo_contents f = 0xA7 # le_bytes 2 (int (length pkt)) @ pkt @ ck # rest"
    and len: "length pkt < 65536"
  shows "fifo_get_pkt_len f = Inr (length pkt)"
proof -
  have n: "unat (fsize f) = length pkt + length rest + 4" using arg_cong [OF c, of length] by simp
  have "fifo_peek f 0 = 0xA7" "fifo_peek f 1 = of_nat (length pkt)"
    "fifo_peek f 2 = of_nat (length pkt div 256)"
    using n by (simp_all add: fifo_peek_nth c le2_of_nat)
  moreover have "length pkt mod 256 + length pkt div 256 * 256 = length pkt" by simp
  moreover have "length pkt div 256 mod 256 = length pkt div 256" using len by simp
  ultimately show ?thesis
    using n by (simp add: fifo_get_pkt_len_def Let_def unat_of_nat)
qed

lemma recv_turn_packet:
  assumes ok: "fifo_ok (serial_rx_buf b)"
    and c: "fifo_contents (serial_rx_buf b) = 0xA7 # le_bytes 2 (int (length pkt)) @ pkt @ ck # rest"
    and len: "6 \<le> length pkt" "length pkt \<le> 260"
  shows "\<exists>g. recv_turn T b = Inr (Some
      (if accepts b (fst (decrypt_rx T b pkt)) then Some (decrypt_rx T b pkt) else None,
       b\<lparr>serial_rx_buf := g\<rparr>)) \<and> fifo_ok g \<and> fifo_contents g = rest"
proof -
  obtain f1 where f1: "fifo_get_buf (serial_rx_buf b) 3 = (0xA7 # le_bytes 2 (int (length pkt)), f1)"
      "fifo_ok f1" "fifo_contents f1 = pkt @ ck # rest"
    using ring.get_all_n [OF ok, of "0xA7 # le_bytes 2 (int (length pkt))" "pkt @ ck # rest"] c
    by (auto simp: fifo_get_buf_def numeral_3_eq_3 numeral_2_eq_2)
  obtain f2 where f2: "fifo_get_buf f1 (length pkt) = (pkt, f2)" "fifo_ok f2"
      "fifo_contents f2 = ck # rest"
    using ring.get_all_n [OF f1(2,3)] by (auto simp: fifo_get_buf_def)
  obtain f3 where f3: "fifo_get_byte f2 = (ck, f3)" "fifo_ok f3" "fifo_contents f3 = rest"
    using ring.get_ok [OF f2(2,3)] by (cases "fifo_get_byte f2") auto
  have same: "decrypt_rx T (b\<lparr>serial_rx_buf := f3\<rparr>) pkt = decrypt_rx T b pkt"
    "accepts (b\<lparr>serial_rx_buf := f3\<rparr>) = accepts b"
    by (simp_all add: decrypt_rx_def bridge_rx_nonce_def accepts_def fun_eq_iff)
  have "fifo_get_pkt_len (serial_rx_buf b) = Inr (length pkt)"
    using fifo_get_pkt_len_frame [OF c] len by simp
  then have "recv_turn T b = Inr (Some
      (if accepts b (fst (decrypt_rx T b pkt)) then Some (decrypt_rx T b pkt) else None,
       b\<lparr>serial_rx_buf := f3\<rparr>))"
    using len f1(1) f2(1) f3(1) same
    by (auto simp: recv_turn_def Let_def case_prod_beta split: nat.split)
  with f3 show ?thesis by blast
qed

text \<open>A frame of the mapper, fed into an idle radio, which moves its buffer and byte counter only.\<close>

definition same_settings :: "bridge \<Rightarrow> bridge \<Rightarrow> bool" where
  "same_settings b b1 \<longleftrightarrow>
     b1 = b\<lparr>pkt_count := pkt_count b1, serial_rx_buf := serial_rx_buf b1, recv_queued := recv_queued b1\<rparr>"

lemma frame_to_radio:
  assumes ok: "fifo_ok (serial_rx_buf b)" "fifo_contents (serial_rx_buf b) = []"
    and cap: "unat (capacity (serial_rx_buf b)) = 1024"
    and cnt: "2 \<le> unat (pkt_count b)" "unat (pkt_count b) + 264 < 2 ^ 32"
    and len: "6 \<le> length p" "length p \<le> 260" and crc: "length crc = 3"
  shows "\<exists>b1 b2. uart_rx (tx_frame (p @ crc)) b = Inr b1 \<and>
    recv_turn T b1 = Inr (Some
      (if accepts b (fst (decrypt_rx T b p)) then Some (decrypt_rx T b p) else None, b2)) \<and>
    fifo_contents (serial_rx_buf b2) = [] \<and> same_settings b b2"
proof -
  let ?d = "0xA7 # le_bytes 2 (int (length p)) @ p @ [word_of_int (checksum8 p)]"
  have frame: "tx_frame (p @ crc) = ?d"
    using crc by (simp add: tx_frame_def Let_def NRF52_CMD_DATA_def le_bytes_2 and_255 drop_bit_eq_div
        word_mod_256)
  obtain q where q: "uart_rx ?d b = Inr (b\<lparr>pkt_count := pkt_count b + of_nat (length ?d),
      serial_rx_buf := foldl fifo_add_byte (serial_rx_buf b) ?d, recv_queued := q\<rparr>)"
    using uart_rx_buffers [OF ok(1), of ?d] ok(2) cap cnt len by auto
  define d where "d = ?d"
  define b1 where "b1 = b\<lparr>pkt_count := pkt_count b + of_nat (length d),
      serial_rx_buf := foldl fifo_add_byte (serial_rx_buf b) d, recv_queued := q\<rparr>"
  have f: "fifo_ok (serial_rx_buf b1)" "fifo_contents (serial_rx_buf b1) = d"
    using ring.add_all [OF ok(1), of d] ok(2) cap len by (simp_all add: b1_def d_def)
  obtain g where g: "recv_turn T b1 = Inr (Some
      (if accepts b1 (fst (decrypt_rx T b1 p)) then Some (decrypt_rx T b1 p) else None,
       b1\<lparr>serial_rx_buf := g\<rparr>))" "fifo_contents g = []"
    using recv_turn_packet [OF f(1), of p "word_of_int (checksum8 p)" "[]" T] f(2) len
    by (auto simp: d_def)
  have same: "decrypt_rx T b1 p = decrypt_rx T b p" "accepts b1 = accepts b"
    by (simp_all add: b1_def decrypt_rx_def bridge_rx_nonce_def accepts_def fun_eq_iff)
  have "uart_rx (tx_frame (p @ crc)) b = Inr b1" using q unfolding frame b1_def d_def .
  with g show ?thesis unfolding same
    by (intro exI [of _ b1] exI [of _ "b1\<lparr>serial_rx_buf := g\<rparr>"])
       (simp add: b1_def same_settings_def)
qed

text \<open>What the mapper sends, the NimBLE target gets. The frame of an encrypted packet, fed byte by
  byte to the radio's serial interrupt, leaves one packet in its buffer; taking it off gives the
  link layer exactly the header and plaintext the mapper encrypted, with a good tag, if the radio
  is on the packet's channel, and nothing otherwise. Both sides must have the same keys and
  counter, and the packet must fit the radio's 260 bytes.\<close>

theorem mapper_to_radio:
  assumes "encrypt_pdu X c (ll_pdu aa h pl crc) = Inr pkt" and "length aa = 4" and "length crc = 3"
    and "1 \<le> length pl" and "length pl \<le> 250" and "ccm_ok X" and "ccm_same X T"
    and "same_keys b c" and "enc_enabled b" and "enc_tx_pkt_count c = uint (enc_counter b)"
    and "fifo_ok (serial_rx_buf b)" and "fifo_contents (serial_rx_buf b) = []"
    and "unat (capacity (serial_rx_buf b)) = 1024"
    and "2 \<le> unat (pkt_count b)" and "unat (pkt_count b) + 264 < 2 ^ 32"
  shows "\<exists>b1 b2. uart_rx (tx_frame pkt) b = Inr b1 \<and>
    (let plain = aa @ [h, of_nat (length pl)] @ pl in
     recv_turn T b1 = Inr (Some (if accepts b plain then Some (plain, True) else None, b2))) \<and>
    fifo_contents (serial_rx_buf b2) = [] \<and> same_settings b b2"
proof -
  have keys: "enc_key b = conn_session_key c" "bridge_rx_nonce b = tx_nonce (enc_tx_pkt_count c) (conn_iv c)"
    "length (enc_key b) = 16" "length (bridge_rx_nonce b) = 13"
    using assms(8,10) by (auto simp: same_keys_def nonces_agree)
  obtain ct mic where cm: "ccm_encrypt X (enc_key b) (bridge_rx_nonce b) [h AND 0xE3] pl = Inr (ct, mic)"
      "tc_decryption_verification T (enc_key b) (bridge_rx_nonce b) [h AND 0xE3] (ct @ mic) = (pl, True)"
    using assms(7) keys(3,4) unfolding ccm_same_def by blast
  have lens: "length ct = length pl" "length mic = 4"
    using assms(6) cm(1) unfolding ccm_ok_def by blast+
  let ?p = "aa @ [h, of_nat (length pl + 4)] @ ct @ mic"
  have pkt: "pkt = ?p @ [0, 0, 0]"
    using assms(1) encrypt_pdu_ll [of aa crc pl c X h] assms(2-5,10) keys cm(1)
      uint_64_less [of "enc_counter b"] by simp
  have at: "?p ! 4 = h" "?p ! 5 = of_nat (length pl + 4)" "drop 6 ?p = ct @ mic" "take 5 ?p = aa @ [h]"
    using assms(2) by (simp_all add: nth_append)
  have "uint (of_nat (length pl + 4) :: byte) = int (length pl + 4)"
    using assms(5) by (intro uint_of_nat_small) simp
  then have "(of_nat (length pl + 4) :: byte) > 0" by (simp add: word_less_def)
  then have dec: "decrypt_rx T b ?p = (aa @ [h, of_nat (length pl)] @ pl, True)"
    using assms(2,4,9) cm(2) lens at by (auto simp: decrypt_rx_def)
  show ?thesis
    using frame_to_radio [OF assms(11-15), of ?p "[0, 0, 0]" T] assms(2,5) lens pkt dec
    by (auto simp: Let_def)
qed

theorem mapper_to_radio_witness:
  "\<exists>pkt b1 b2. encrypt_pdu sim_env sim_peer_conn (ll_pdu [7, 0, 0, 0] 2 [9] [0, 0, 0]) = Inr pkt \<and>
     uart_rx (tx_frame pkt) sim_radio = Inr b1 \<and>
     recv_turn sim_tc b1 = Inr (Some (Some ([7, 0, 0, 0, 2, 1, 9], True), b2))"
proof -
  have c: "enc_tx_pkt_count sim_peer_conn = uint (enc_counter sim_radio)" "enc_enabled sim_radio"
    "unat (capacity (serial_rx_buf sim_radio)) = 1024" "2 \<le> unat (pkt_count sim_radio)"
    "unat (pkt_count sim_radio) + 264 < 2 ^ 32" "enc_tx_pkt_count sim_peer_conn = 0"
    by (simp_all add: sim_peer_conn_def sim_radio_def bridge0_def FIFO_CREATE_def)
  obtain pkt where pkt:
    "encrypt_pdu sim_env sim_peer_conn (ll_pdu [7, 0, 0, 0] 2 [9] [0, 0, 0]) = Inr pkt"
    using encrypt_pdu_ll [of "[7, 0, 0, 0]" "[0, 0, 0]" "[9]" sim_peer_conn sim_env 2] c(6)
    by (simp add: sim_env_def Let_def)
  have "accepts sim_radio ([7, 0, 0, 0] @ [2, of_nat (length [9 :: byte])] @ [9])"
  proof -
    have "[7, 0, 0, 0] \<noteq> le_bytes 4 0x8e89bed6" by code_simp
    then show ?thesis by (simp add: accepts_def sim_radio_def)
  qed
  then show ?thesis
    using mapper_to_radio [OF pkt _ _ _ _ sim_ccm sim_ccm_same sim_same_keys c(2,1)
        sim_radio_fifos(3,4) c(3-5)] pkt by (auto simp: Let_def)
qed

section \<open>The byte counter of the serial interrupt\<close>

lemma uart_rx_count: "uart_rx cs b = Inr b1 \<Longrightarrow> pkt_count b1 = pkt_count b + of_nat (length cs)"
proof (induction cs arbitrary: b)
  case (Cons c cs)
  then obtain b2 where b2: "ble_phy_uart_rx_char c b = Inr b2" "uart_rx cs b2 = Inr b1"
    by (auto split: sum.splits)
  have "pkt_count b2 = pkt_count b + 1"
    using b2(1) by (auto simp: ble_phy_uart_rx_char_def Let_def split: if_splits sum.splits)
  with Cons.IH [OF b2(2)] show ?case by (simp add: add.assoc)
qed simp

lemma uart_rx_snoc:
  "uart_rx cs b = Inr b1 \<Longrightarrow> uart_rx (cs @ [c]) b = ble_phy_uart_rx_char c b1"
  by (induction cs arbitrary: b) (auto split: sum.splits)

text \<open>The interrupt counts bytes in 32 bits to recognise the first one. When the counter comes
  round, after 2^32 bytes of traffic, it takes the next byte for the first one again and aborts
  unless that byte happens to be the configuration command: the radio cannot run longer.\<close>

theorem uart_counter_wraps:
  assumes "uart_rx cs b = Inr b1" and "pkt_count b + of_nat (length cs) = 0" and "c \<noteq> 0xCC"
  shows "uart_rx (cs @ [c]) b = Inl AssertFailed"
proof -
  have "pkt_count b1 = 0" using uart_rx_count [OF assms(1)] assms(2) by simp
  with assms(3) show ?thesis
    by (simp add: uart_rx_snoc [OF assms(1)] ble_phy_uart_rx_char_def Let_def)
qed

theorem uart_counter_wraps_witness:
  "uart_rx [0xA7, 6] (sim_radio\<lparr>pkt_count := - 1\<rparr>) = Inl AssertFailed"
proof -
  let ?b = "sim_radio\<lparr>pkt_count := - 1\<rparr>"
  have room: "unat (fsize (serial_rx_buf sim_radio)) < unat (capacity (serial_rx_buf sim_radio))"
    by (simp add: sim_radio_def bridge0_def FIFO_CREATE_def)
  then have "\<not> fifo_is_full (serial_rx_buf sim_radio)" by (simp add: fifo_tests)
  moreover obtain m where "fifo_get_pkt_len (fifo_add_byte (serial_rx_buf sim_radio) 0xA7) = Inr m"
    using fifo_get_pkt_len_start fifo_add_byte_contents [OF sim_radio_fifos(3) room, of "0xA7"]
      sim_radio_fifos(4) by fastforce
  ultimately obtain b1 where b1: "uart_rx [0xA7] ?b = Inr b1"
    by (simp add: ble_phy_uart_rx_char_def Let_def)
  from uart_counter_wraps [OF this, of 6] show ?thesis by simp
qed

end
