(* ===== verification/Handover.thy ===== *)
theory Handover
  imports Peer
begin

text \<open>
  What the NimBLE target's virtual radio does with a packet it has taken off its buffer
  (\<open>recv_packet\<close> in psf\_bridge/src/ble\_phy.c): it hands it to the link layer, and goes on with
  simulated empty packets as long as the link layer sends data in return. The link layer and the
  operating system are not in the repository: their calls are parameters that may do anything to
  the radio, as tasks and interrupts run during them. With Peer, whole packets are followed from
  the mapper's encryption to the link layer (C4); then when the loops end, and when not.
\<close>

section \<open>The link layer and the operating system\<close>

type_synonym 'w radio = "bridge \<times> 'w"

text \<open>
  A packet is the part of \<open>rx_buf\<close> that \<open>rx_buf_len\<close> counts, without the access address.
  \<open>ble_ll_rx_end\<close> gets it, the channel, the phase and whether a MIC failure is flagged; of
  \<open>g_ble_ll_data.ll_state\<close> only the test for 0 counts. \<open>stale_rc\<close> is what the loop reads from its
  variable \<open>rc\<close> in a turn that has not set it. \<open>connect_ind\<close> tests the type in a header byte.
\<close>

record 'w link_layer =
  ble_ll_rx_start :: "bytes \<Rightarrow> byte \<Rightarrow> 'w radio \<Rightarrow> int \<times> 'w radio"
  ble_ll_rx_end :: "bytes \<Rightarrow> byte \<Rightarrow> ll_phase \<Rightarrow> bool \<Rightarrow> 'w radio \<Rightarrow> 'w radio"
  os_time_delay :: "nat \<Rightarrow> 'w radio \<Rightarrow> 'w radio"
  os_sleep :: "nat \<Rightarrow> 'w radio \<Rightarrow> 'w radio"
  ll_standby :: "'w radio \<Rightarrow> bool"
  rsp_timer_running :: "'w radio \<Rightarrow> bool"
  os_callout_reset :: "nat \<Rightarrow> 'w radio \<Rightarrow> 'w radio"
  stale_rc :: "'w radio \<Rightarrow> int"
  connect_ind :: "byte \<Rightarrow> bool"

definition refresh_rsp_timer :: "'w link_layer \<Rightarrow> 'w radio \<Rightarrow> 'w radio" where
  "refresh_rsp_timer L s = (if rsp_timer_running L s then os_callout_reset L 5000 s else s)"

section \<open>One turn\<close>

definition is_adv_chan :: "bytes \<Rightarrow> bool" where
  "is_adv_chan rx_buf \<longleftrightarrow> take 4 rx_buf = le_bytes 4 0x8e89bed6"

text \<open>The simulated empty data packet, and the sequence bits of a data packet's header.\<close>

definition empty_pkt :: "bridge \<Rightarrow> bytes" where
  "empty_pkt b = le_bytes 4 (uint (phy_access_address b)) @ [0x01, 0x00]"

definition fix_sn :: "bridge \<Rightarrow> bytes \<Rightarrow> bytes" where
  "fix_sn b rx_buf =
     rx_buf[4 := (rx_buf ! 4 AND 0xF3) OR push_bit 3 (of_bool (rx_sn b)) OR
                  push_bit 2 (of_bool (rx_nesn b))]"

text \<open>\<open>for(; rc >= 0 && sleep_ms < 200 && ll_state == 0; sleep_ms += 10)\<close>\<close>

function wait_link :: "'w link_layer \<Rightarrow> int \<Rightarrow> nat \<Rightarrow> 'w radio \<Rightarrow> 'w radio" where
  "wait_link L rc sleep_ms s =
     (if 0 \<le> rc \<and> sleep_ms < 200 \<and> ll_standby L s
      then wait_link L rc (sleep_ms + 10) (os_time_delay L 10 s) else s)"
  by pat_completeness auto

termination by (relation "measure (\<lambda>(L, rc, sleep_ms, s). 200 - sleep_ms)") auto

declare wait_link.simps [simp del]

text \<open>
  The body of the loop over \<open>i_pkt\<close> up to the test of \<open>sent_non_empty_pkt\<close>. An empty \<open>rx_buf\<close> is
  \<open>rx_buf_len = 0\<close>, which is what every turn leaves; the result has \<open>is_adv_chan_pkt\<close> in it.
\<close>

definition hand_turn ::
  "'w link_layer \<Rightarrow> bool \<Rightarrow> bytes \<Rightarrow> bool \<Rightarrow> 'w radio \<Rightarrow> bool \<times> 'w radio" where
  "hand_turn L crypto_ok rx_buf is_adv s =
     (let simulate = (rx_buf = [] \<and> phy_chan (fst s) < 37);
          rx_buf1 = (if simulate then empty_pkt (fst s) else rx_buf);
          is_adv1 = (if simulate then False else is_adv);
          rx_buf2 = (if rx_buf1 \<noteq> [] \<and> \<not> is_adv1 then fix_sn (fst s) rx_buf1 else rx_buf1);
          (rc, s1) =
            (if rx_buf2 = [] then (stale_rc L s, s)
             else case ble_ll_rx_start L (drop 4 rx_buf2) (phy_chan (fst s)) s of
                    (rc, u) \<Rightarrow>
                      if rc \<ge> 0
                      then (rc, ble_ll_rx_end L (drop 4 rx_buf2) (phy_chan (fst u))
                                  (ll_state (fst u)) (\<not> crypto_ok) u)
                      else (rc, u));
          s2 = wait_link L rc 20 (os_time_delay L 20 s1)
      in (is_adv1, s2))"

section \<open>The loop\<close>

text \<open>
  The loop over \<open>i_pkt\<close> around a turn. It has no bound when the link layer goes on sending: not
  coming back is \<open>None\<close>. The counter is set to 0 and then incremented.
\<close>

partial_function (option) hand_loop ::
  "(bytes \<Rightarrow> bool \<Rightarrow> 'w radio \<Rightarrow> bool \<times> 'w radio) \<Rightarrow> nat \<Rightarrow> bytes \<Rightarrow> bool \<Rightarrow> 'w radio \<Rightarrow> 'w radio option"
where
  "hand_loop turn i_pkt rx_buf is_adv s =
     (if i_pkt < 6
      then case turn rx_buf is_adv s of
        (is_adv1, b, w) \<Rightarrow>
          if sent_non_empty_pkt b
          then hand_loop turn 1 [] is_adv1 (b\<lparr>sent_non_empty_pkt := False\<rparr>, w)
          else hand_loop turn (i_pkt + 1) [] is_adv1 (b, w)
      else Some s)"

definition hand_over ::
  "'w link_layer \<Rightarrow> bytes \<Rightarrow> bool \<Rightarrow> bool \<Rightarrow> 'w radio \<Rightarrow> 'w radio option" where
  "hand_over L rx_buf is_adv crypto_ok = hand_loop (hand_turn L crypto_ok) 0 rx_buf is_adv"

text \<open>
  \<open>recv_packet\<close>, with \<open>last_msg_was_conn\<close>, which it keeps between its calls: every complete packet
  in the buffer is taken off and handed over.
\<close>

partial_function (option) recv_packet ::
  "'w link_layer \<Rightarrow> tinycrypt \<Rightarrow> bool \<Rightarrow> 'w radio \<Rightarrow> (bridge_error + bool \<times> 'w radio) option"
where
  "recv_packet L T last_msg_was_conn s =
     (case recv_turn T (fst s) of
        Inl e \<Rightarrow> Some (Inl e)
      | Inr None \<Rightarrow> Some (Inr (last_msg_was_conn, s))
      | Inr (Some (accepted, b)) \<Rightarrow>
          (let s1 = (case accepted of None \<Rightarrow> (b, snd s) | Some _ \<Rightarrow> refresh_rsp_timer L (b, snd s));
               s2 = (if last_msg_was_conn \<and> phy_chan (fst s1) \<ge> 37 then os_sleep L 1000000 s1 else s1);
               rx_buf = (case accepted of None \<Rightarrow> [] | Some (pkt, _) \<Rightarrow> pkt);
               crypto_ok = (case accepted of None \<Rightarrow> True | Some (_, ok) \<Rightarrow> ok);
               conn = (rx_buf \<noteq> [] \<and> is_adv_chan rx_buf \<and> connect_ind L (rx_buf ! 4))
           in Option.bind (hand_over L rx_buf (is_adv_chan rx_buf) crypto_ok s2)
                (\<lambda>s3. recv_packet L T conn s3)))"

section \<open>When the loop ends\<close>

text \<open>
  A link layer that sends only so much: \<open>q\<close> and a non-empty packet sent since the last test add up
  to a number that none of its calls raises. And a count \<open>c\<close> of the packets it was handed.
\<close>

definition owed :: "('w \<Rightarrow> nat) \<Rightarrow> 'w radio \<Rightarrow> nat" where
  "owed q s = q (snd s) + of_bool (sent_non_empty_pkt (fst s))"

text \<open>The bytes in the serial buffer and those still to come, \<open>r\<close>.\<close>

definition unread :: "('w \<Rightarrow> nat) \<Rightarrow> 'w radio \<Rightarrow> nat" where
  "unread r s = r (snd s) + unat (fsize (serial_rx_buf (fst s)))"

definition calls_keep :: "'w link_layer \<Rightarrow> ('w radio \<Rightarrow> nat) \<Rightarrow> bool" where
  "calls_keep L f \<longleftrightarrow>
     (\<forall>p ch s. f (snd (ble_ll_rx_start L p ch s)) \<le> f s) \<and>
     (\<forall>p ch ph m s. f (ble_ll_rx_end L p ch ph m s) \<le> f s) \<and>
     (\<forall>d s. f (os_time_delay L d s) \<le> f s) \<and> (\<forall>d s. f (os_sleep L d s) \<le> f s) \<and>
     (\<forall>d s. f (os_callout_reset L d s) \<le> f s)"

definition counts_handed :: "'w link_layer \<Rightarrow> ('w \<Rightarrow> nat) \<Rightarrow> bool" where
  "counts_handed L c \<longleftrightarrow>
     (\<forall>p ch s. c (snd (snd (ble_ll_rx_start L p ch s))) = c (snd s) + 1) \<and>
     (\<forall>p ch ph m s. c (snd (ble_ll_rx_end L p ch ph m s)) = c (snd s)) \<and>
     (\<forall>d s. c (snd (os_time_delay L d s)) = c (snd s))"

lemma wait_link_keeps:
  assumes "\<And>d s. f (os_time_delay L d s) \<le> (f s :: nat)"
  shows "f (wait_link L rc ms s) \<le> f s"
  using assms
proof (induction L rc ms s rule: wait_link.induct)
  case (1 L rc ms s)
  show ?case
  proof (cases "0 \<le> rc \<and> ms < 200 \<and> ll_standby L s")
    case True
    then have "f (wait_link L rc (ms + 10) (os_time_delay L 10 s)) \<le> f (os_time_delay L 10 s)"
      using 1 by blast
    also have "\<dots> \<le> f s" by (rule 1(2))
    finally show ?thesis by (subst wait_link.simps) (simp add: True)
  qed (subst wait_link.simps, auto)
qed

text \<open>What a turn does to a measure that its calls raise by so much.\<close>

lemma hand_turn_measure:
  fixes f :: "'w radio \<Rightarrow> nat"
  assumes start: "\<And>p ch s. f (snd (ble_ll_rx_start L p ch s)) \<le> f s + k"
    and fin: "\<And>p ch ph m s. f (ble_ll_rx_end L p ch ph m s) \<le> f s"
    and delay: "\<And>d s. f (os_time_delay L d s) \<le> f s"
  shows "f (snd (hand_turn L ok rx_buf is_adv s)) \<le> f s + k"
proof -
  have wait: "f (wait_link L rc 20 (os_time_delay L 20 t)) \<le> f s + k" if "f t \<le> f s + k" for rc t
    using wait_link_keeps [of f L rc 20 "os_time_delay L 20 t", OF delay] delay [of 20 t] that
    by linarith
  have "f (ble_ll_rx_end L p ch' ph m u) \<le> f s + k" "f u \<le> f s + k"
    if "ble_ll_rx_start L p ch s = (rc, u)" for p ch ch' ph m rc u
    using start [of p ch s] fin [of p ch' ph m u] that by simp_all
  then show ?thesis
    by (auto simp: hand_turn_def Let_def simp del: split_paired_All intro!: wait split: prod.split)
qed

lemma hand_turn_keeps: "calls_keep L f \<Longrightarrow> f (snd (hand_turn L ok rx_buf is_adv s)) \<le> f s"
  using hand_turn_measure [of f L 0 ok rx_buf is_adv s]
  by (simp add: calls_keep_def del: split_paired_All)

text \<open>The loop ends, and so many turns are enough for it.\<close>

lemma hand_loop_ends:
  assumes owed: "\<And>p is_adv s. owed q (snd (turn p is_adv s)) \<le> owed q s"
    and count: "\<And>p is_adv s. c (snd (snd (turn p is_adv s))) \<le> c (snd s) + (1 :: nat)"
  shows "\<exists>t. hand_loop turn i p is_adv s = Some t \<and> c (snd t) \<le> c (snd s) + (6 - i) + 5 * owed q s"
proof (induction "(6 - i) + 5 * owed q s" arbitrary: i p is_adv s rule: less_induct)
  case less
  show ?case
  proof (cases "i < 6")
    case True
    obtain is_adv1 b w where t: "turn p is_adv s = (is_adv1, b, w)" by (metis surj_pair)
    have o: "owed q (b, w) \<le> owed q s" and c: "c w \<le> c (snd s) + 1"
      using owed [of p is_adv s] count [of p is_adv s] by (simp_all add: t)
    show ?thesis
    proof (cases "sent_non_empty_pkt b")
      case sent: True
      let ?s = "(b\<lparr>sent_non_empty_pkt := False\<rparr>, w)"
      have o1: "owed q ?s + 1 \<le> owed q s" using o sent by (simp add: owed_def)
      then have "(6 - 1) + 5 * owed q ?s < (6 - i) + 5 * owed q s" using True by simp
      from less.hyps [OF this, of "[]" is_adv1] obtain u
        where "hand_loop turn 1 [] is_adv1 ?s = Some u" "c (snd u) \<le> c w + (6 - 1) + 5 * owed q ?s"
        by auto
      with o1 c True sent t show ?thesis by (subst hand_loop.simps) simp
    next
      case quiet: False
      have "(6 - (i + 1)) + 5 * owed q (b, w) < (6 - i) + 5 * owed q s" using o True by simp
      from less.hyps [OF this, of "[]" is_adv1] obtain u
        where "hand_loop turn (i + 1) [] is_adv1 (b, w) = Some u"
          "c (snd u) \<le> c w + (6 - (i + 1)) + 5 * owed q (b, w)" by auto
      with o c True quiet t show ?thesis by (subst hand_loop.simps) simp
    qed
  qed (subst hand_loop.simps, simp)
qed

lemma hand_loop_keeps:
  "hand_loop turn i p is_adv s = Some t \<Longrightarrow>
   (\<And>p is_adv s. f (snd (turn p is_adv s)) \<le> (f s :: nat)) \<Longrightarrow>
   (\<And>b w. f (b\<lparr>sent_non_empty_pkt := False\<rparr>, w) = f (b, w)) \<Longrightarrow> f t \<le> f s"
proof (induction turn i p is_adv s t rule: hand_loop.raw_induct [rotated, consumes 1])
  case (1 loop turn i p is_adv s t)
  obtain is_adv1 b w where u: "turn p is_adv s = (is_adv1, b, w)" by (metis surj_pair)
  have le: "f (b, w) \<le> f s" using 1(3) [of p is_adv s] by (simp add: u)
  let ?c = "(b\<lparr>sent_non_empty_pkt := False\<rparr>, w)"
  consider "t = s" | "loop turn 1 [] is_adv1 ?c = Some t" | "loop turn (i + 1) [] is_adv1 (b, w) = Some t"
    using 1(2) by (cases "i < 6"; cases "sent_non_empty_pkt b") (simp_all add: u)
  then show ?case
  proof cases
    case 2
    from 1(1) [OF 2 1(3,4)] le 1(4) [of b w] show ?thesis by simp
  next
    case 3
    from 1(1) [OF 3 1(3,4)] le show ?thesis by simp
  qed simp
qed

section \<open>Taking packets off\<close>

lemma take_n_size: "fsize (snd (take_n fifo_get_byte n f)) = fsize f - of_nat n"
  by (induction n arbitrary: f) (simp_all add: split_beta fifo_get_byte_def)

lemma recv_turn_takes:
  assumes "recv_turn T b = Inr (Some (acc, b1))"
  shows "unat (fsize (serial_rx_buf b1)) < unat (fsize (serial_rx_buf b))"
proof -
  let ?f = "serial_rx_buf b"
  obtain n where n: "fifo_get_pkt_len ?f = Inr (Suc n)"
    using assms by (auto simp: recv_turn_def split: sum.splits nat.splits)
  then have room: "3 + Suc n + 1 \<le> unat (fsize ?f)"
    by (auto simp: fifo_get_pkt_len_def Let_def split: if_splits)
  have "fsize (serial_rx_buf b1) = fsize ?f - of_nat 3 - of_nat (Suc n) - 1"
    using assms n
    by (auto simp: recv_turn_def split_beta Let_def fifo_get_buf_def take_n_size
        fifo_get_byte_def [of "snd (take_n _ _ _)"] split: if_splits)
  also have "\<dots> = of_nat (unat (fsize ?f) - (3 + Suc n + 1))"
    using room by (simp add: of_nat_diff)
  finally have "unat (fsize (serial_rx_buf b1)) = unat (fsize ?f) - (3 + Suc n + 1)"
    using unat_16_less [of "fsize ?f"] by (simp add: unat_of_nat)
  with room show ?thesis by simp
qed

section \<open>What the link layer is handed\<close>

text \<open>The packets handed over, in order, where the world keeps them.\<close>

definition logs_handed :: "'w link_layer \<Rightarrow> ('w \<Rightarrow> bytes list) \<Rightarrow> bool" where
  "logs_handed L lg \<longleftrightarrow>
     (\<forall>p ch s. lg (snd (snd (ble_ll_rx_start L p ch s))) = lg (snd s) @ [p]) \<and>
     (\<forall>p ch ph m s. lg (snd (ble_ll_rx_end L p ch ph m s)) = lg (snd s)) \<and>
     (\<forall>d s. lg (snd (os_time_delay L d s)) = lg (snd s)) \<and>
     (\<forall>d s. lg (snd (os_callout_reset L d s)) = lg (snd s))"

definition handed_empty :: "bytes \<Rightarrow> bool" where
  "handed_empty p \<longleftrightarrow> (\<exists>h. p = [h, 0] \<and> h AND 0xF3 = 1)"

lemma fixed_empty: "handed_empty (drop 4 (fix_sn b (empty_pkt b)))"
proof -
  have "(((1 AND 0xF3) OR push_bit 3 (of_bool x) OR push_bit 2 (of_bool y)) AND 0xF3 :: byte) = 1" for x y
    by (cases x; cases y) (simp_all add: push_bit_eq_mult)
  then show ?thesis
    by (simp add: handed_empty_def fix_sn_def empty_pkt_def nth_append list_update_append)
qed

lemma wait_link_log:
  assumes "logs_handed L lg" shows "lg (snd (wait_link L rc ms s)) = lg (snd s)"
  using assms
proof (induction L rc ms s rule: wait_link.induct)
  case (1 L rc ms s)
  then have "lg (snd (os_time_delay L 10 s)) = lg (snd s)"
    unfolding logs_handed_def by blast
  with 1 show ?case by (subst wait_link.simps) simp
qed

lemma hand_turn_log:
  assumes "logs_handed L lg" and "rx_buf \<noteq> []" and "\<not> is_adv"
  shows "lg (snd (snd (hand_turn L ok rx_buf is_adv s))) = lg (snd s) @ [drop 4 (fix_sn (fst s) rx_buf)]"
proof -
  have ne: "fix_sn (fst s) rx_buf \<noteq> []" using assms(2) by (simp add: fix_sn_def)
  obtain rc u where u: "ble_ll_rx_start L (drop 4 (fix_sn (fst s) rx_buf)) (phy_chan (fst s)) s = (rc, u)"
    by (metis surj_pair)
  have lu: "lg (snd u) = lg (snd s) @ [drop 4 (fix_sn (fst s) rx_buf)]"
    using assms(1) u unfolding logs_handed_def by (metis snd_conv)
  have rest: "lg (snd (wait_link L rc' ms (os_time_delay L d v))) = lg (snd v)"
    "lg (snd (ble_ll_rx_end L p ch ph m v)) = lg (snd v)" for rc' ms d v p ch ph m
    using assms(1) wait_link_log [OF assms(1)] unfolding logs_handed_def by metis+
  show ?thesis
    using assms(2,3) ne u lu by (simp add: hand_turn_def Let_def rest)
qed

lemma hand_turn_log_empty:
  assumes "logs_handed L lg"
  shows "\<exists>es. lg (snd (snd (hand_turn L ok [] is_adv s))) = lg (snd s) @ es \<and> list_all handed_empty es"
proof (cases "phy_chan (fst s) < 37")
  case True
  have ne: "empty_pkt (fst s) \<noteq> []" by (simp add: empty_pkt_def)
  then have "hand_turn L ok [] is_adv s = hand_turn L ok (empty_pkt (fst s)) False s"
    using True by (simp add: hand_turn_def)
  with hand_turn_log [OF assms ne, of False ok s] fixed_empty show ?thesis by simp
next
  case False
  then have "lg (snd (snd (hand_turn L ok [] is_adv s))) = lg (snd s)"
    using assms wait_link_log [OF assms] unfolding logs_handed_def
    by (simp add: hand_turn_def del: split_paired_All)
  then show ?thesis by simp
qed

lemma hand_loop_log:
  "hand_loop turn i p is_adv s = Some t \<Longrightarrow> p = [] \<Longrightarrow>
   (\<And>is_adv s. \<exists>es. lg (snd (snd (turn [] is_adv s))) = lg (snd s) @ es \<and> list_all handed_empty es) \<Longrightarrow>
   \<exists>es. lg (snd t) = lg (snd s) @ es \<and> list_all handed_empty es"
proof (induction turn i p is_adv s t rule: hand_loop.raw_induct [rotated, consumes 1])
  case (1 loop turn i p is_adv s t)
  obtain is_adv1 b w where u: "turn [] is_adv s = (is_adv1, b, w)" by (metis surj_pair)
  obtain es where es: "lg w = lg (snd s) @ es" "list_all handed_empty es"
    using 1(4) [of is_adv s] by (auto simp: u)
  let ?c = "(b\<lparr>sent_non_empty_pkt := False\<rparr>, w)"
  consider "t = s" | "loop turn 1 [] is_adv1 ?c = Some t" | "loop turn (i + 1) [] is_adv1 (b, w) = Some t"
    using 1(2,3) by (cases "i < 6"; cases "sent_non_empty_pkt b") (simp_all add: u)
  then show ?case
  proof cases
    case 2
    from 1(1) [OF 2 refl 1(4)] es show ?thesis by fastforce
  next
    case 3
    from 1(1) [OF 3 refl 1(4)] es show ?thesis by fastforce
  qed simp
qed

text \<open>A packet off the advertising channels comes first, and simulated ones only after it.\<close>

lemma hand_over_log:
  assumes "logs_handed L lg" and "p \<noteq> []" and "hand_over L p False ok s = Some t"
  shows "\<exists>es. lg (snd t) = lg (snd s) @ drop 4 (fix_sn (fst s) p) # es \<and> list_all handed_empty es"
proof -
  obtain is_adv1 b w where u: "hand_turn L ok p False s = (is_adv1, b, w)" by (metis surj_pair)
  have w: "lg w = lg (snd s) @ [drop 4 (fix_sn (fst s) p)]"
    using hand_turn_log [OF assms(1,2), of False ok s] by (simp add: u)
  have "\<exists>i c. hand_loop (hand_turn L ok) i [] is_adv1 (c, w) = Some t"
    using assms(3) unfolding hand_over_def
    by (subst (asm) hand_loop.simps) (auto simp: u split: if_splits)
  then obtain i c where "hand_loop (hand_turn L ok) i [] is_adv1 (c, w) = Some t" by blast
  from hand_loop_log [where lg = lg, OF this refl hand_turn_log_empty [OF assms(1)]] w
  show ?thesis by auto
qed

section \<open>Properties\<close>

text \<open>C32: Handing a packet over ends. If the link layer sends only finitely many non-empty packets
  (at most \<open>q\<close> more, and perhaps one just sent), the loop ends, and the link layer was handed at
  most six packets, and five more for each non-empty one it sent: the reset of the loop counter
  keeps it polling as long as there is data, and no longer.\<close>

theorem hand_over_ends:
  assumes "calls_keep L (owed q)" and "counts_handed L c"
  shows "\<exists>t. hand_over L p is_adv ok s = Some t \<and> c (snd t) \<le> c (snd s) + 6 + 5 * owed q s"
proof -
  have "c (snd (snd (hand_turn L ok p is_adv s))) \<le> c (snd s) + 1" for p is_adv s
    using hand_turn_measure [of "\<lambda>s. c (snd s)" L 1] assms(2)
    by (simp add: counts_handed_def del: split_paired_All)
  from hand_loop_ends [of q "hand_turn L ok" c 0 p is_adv s, OF hand_turn_keeps [OF assms(1)] this]
  show ?thesis by (simp add: hand_over_def)
qed

text \<open>A link layer that answers the first few packets it is handed, and counts them all.\<close>

definition sim_link :: "(nat \<times> nat) link_layer" where
  "sim_link =
     \<lparr>ble_ll_rx_start = (\<lambda>p ch (b, n, k).
        (0, b\<lparr>sent_non_empty_pkt := sent_non_empty_pkt b \<or> 0 < n\<rparr>, n - 1, Suc k)),
      ble_ll_rx_end = (\<lambda>p ch ph m s. s), os_time_delay = (\<lambda>d s. s), os_sleep = (\<lambda>d s. s),
      ll_standby = (\<lambda>s. False), rsp_timer_running = (\<lambda>s. False), os_callout_reset = (\<lambda>d s. s),
      stale_rc = (\<lambda>s. 0), connect_ind = (\<lambda>h. h AND 0x0F = 5)\<rparr>"

theorem hand_over_ends_witness:
  "\<exists>t. hand_over sim_link [7, 0, 0, 0, 2, 1, 9] False True (sim_radio, 2, 0) = Some t \<and> snd (snd t) \<le> 16"
proof -
  have "calls_keep sim_link (owed (\<lambda>(n, k). n))" "counts_handed sim_link (\<lambda>(n, k). k)"
    by (auto simp: calls_keep_def counts_handed_def sim_link_def owed_def)
  then show ?thesis
    using hand_over_ends [of sim_link "\<lambda>(n, k). n" "\<lambda>(n, k). k" "[7, 0, 0, 0, 2, 1, 9]" False True
        "(sim_radio, 2, 0)"]
    by (fastforce simp: owed_def sim_radio_def bridge0_def split_beta)
qed

text \<open>C33: The receiving task comes back. If the link layer sends only finitely many non-empty packets
  (\<open>q\<close>) and the serial line brings only finitely many more bytes (\<open>r\<close>), \<open>recv_packet\<close> ends: every
  turn takes a packet off the buffer, and handing it over ends.\<close>

theorem recv_packet_ends:
  assumes q: "calls_keep L (owed q)" and r: "calls_keep L (unread r)"
  shows "recv_packet L T conn s \<noteq> None"
proof (induction "unread r s" arbitrary: conn s rule: less_induct)
  case less
  have turns: "\<exists>t. hand_over L p is_adv ok u = Some t" for p is_adv ok u
    using hand_loop_ends [of q "hand_turn L ok" "\<lambda>_. 0" 0 p is_adv u, OF hand_turn_keeps [OF q]]
    by (auto simp: hand_over_def)
  have drains: "unread r t \<le> unread r u" if "hand_over L p is_adv ok u = Some t" for p is_adv ok u t
    using hand_loop_keeps [of "hand_turn L ok" 0 p is_adv u t "unread r"] that hand_turn_keeps [OF r]
    by (simp add: hand_over_def unread_def)
  show ?case
  proof (cases "recv_turn T (fst s)")
    case (Inr x)
    show ?thesis
    proof (cases x)
      case (Some y)
      obtain acc b where y: "y = (acc, b)" by (cases y)
      define s1 where "s1 = (case acc of None \<Rightarrow> (b, snd s) | Some _ \<Rightarrow> refresh_rsp_timer L (b, snd s))"
      define s2 where "s2 = (if conn \<and> phy_chan (fst s1) \<ge> 37 then os_sleep L 1000000 s1 else s1)"
      have "unread r (b, snd s) < unread r s"
        using recv_turn_takes [of T "fst s" acc b] Inr Some y by (simp add: unread_def)
      moreover have "unread r s1 \<le> unread r (b, snd s)" "unread r s2 \<le> unread r s1"
        using r by (auto simp: s1_def s2_def refresh_rsp_timer_def calls_keep_def
            simp del: split_paired_All split: option.split)
      ultimately have "unread r s2 < unread r s" by simp
      then have again: "recv_packet L T conn' t \<noteq> None"
        if "hand_over L p is_adv ok s2 = Some t" for p is_adv ok conn' t
        using less.hyps drains [OF that] by (meson order_le_less_trans)
      have "Option.bind (hand_over L p is_adv ok s2) (\<lambda>s3. recv_packet L T conn' s3) \<noteq> None"
        for p is_adv ok conn'
        using turns [of p is_adv ok s2] again by auto
      then show ?thesis
        by (subst recv_packet.simps)
           (simp only: Inr Some y Let_def sum.case option.case prod.case s1_def [symmetric] s2_def [symmetric]
             not_False_eq_True)
    next
      case None
      then show ?thesis by (subst recv_packet.simps) (simp add: Inr)
    qed
  next
    case (Inl e)
    then show ?thesis by (subst recv_packet.simps) simp
  qed
qed

text \<open>With a packet of the mapper in the buffer, and nothing to follow.\<close>

definition sim_full_radio :: bridge where
  "sim_full_radio = sim_radio\<lparr>serial_rx_buf := fifo_add_buf (serial_rx_buf sim_radio)
     [0xA7, 6, 0, 7, 0, 0, 0, 1, 0, 8]\<rparr>"

theorem recv_packet_ends_witness:
  "recv_packet sim_link sim_tc False (sim_full_radio, 2, 0) \<noteq> None \<and>
   fifo_get_pkt_len (serial_rx_buf sim_full_radio) = Inr 6"
proof -
  have "fifo_get_pkt_len (serial_rx_buf sim_full_radio) = Inr 6"
    by (simp add: sim_full_radio_def sim_radio_def bridge0_def) code_simp
  moreover have "calls_keep sim_link (owed (\<lambda>(n, k). n))" "calls_keep sim_link (unread (\<lambda>_. 0))"
    by (auto simp: calls_keep_def unread_def sim_link_def owed_def)
  ultimately show ?thesis using recv_packet_ends [of sim_link "\<lambda>(n, k). n" "\<lambda>_. 0"] by blast
qed

text \<open>A run that comes back has had a turn after which nothing had been sent.\<close>

lemma hand_loop_quiet_turn:
  "hand_loop turn i p is_adv s = Some t \<Longrightarrow> i < 6 \<Longrightarrow>
   \<exists>p is_adv s. \<not> sent_non_empty_pkt (fst (snd (turn p is_adv s)))"
proof (induction turn i p is_adv s t rule: hand_loop.raw_induct [rotated, consumes 1])
  case (1 loop turn i p is_adv s t)
  obtain is_adv1 b w where t: "turn p is_adv s = (is_adv1, b, w)" by (metis surj_pair)
  show ?case
  proof (cases "sent_non_empty_pkt b")
    case True
    with t 1(2,3) have "loop turn 1 [] is_adv1 (b\<lparr>sent_non_empty_pkt := False\<rparr>, w) = Some t" by simp
    then show ?thesis by (rule 1(1)) simp
  next
    case False
    with t show ?thesis by (intro exI [of _ p] exI [of _ is_adv] exI [of _ s]) simp
  qed
qed

lemma radio_drained: "unat (fsize (serial_rx_buf b)) = 0 \<Longrightarrow> recv_turn T b = Inr None"
  by (simp add: recv_turn_def fifo_get_pkt_len_def)

lemma refresh_keeps:
  assumes "logs_handed L lg" and "\<And>d s. fst (os_callout_reset L d s) = fst s" and "calls_keep L f"
  shows "fst (refresh_rsp_timer L s) = fst s" "lg (snd (refresh_rsp_timer L s)) = lg (snd s)"
    "f (refresh_rsp_timer L s) \<le> f s"
  using assms unfolding refresh_rsp_timer_def logs_handed_def calls_keep_def
  by (simp_all del: split_paired_All)

text \<open>C4: What the mapper sends, the link layer of the NimBLE target is handed. The frame of an
  encrypted packet, fed byte by byte to the radio's serial interrupt, makes \<open>recv_packet\<close> hand over
  exactly one packet with content: the header the mapper sent, its two sequence bits set to what
  the radio expects, and the plaintext it encrypted. All that follows are simulated empty packets.
  Both sides must have the same keys and counter, the radio must be on a data channel, the packet
  must fit its 260 bytes, and the link layer must send only so much and the line be quiet.\<close>

theorem mapper_to_link_layer:
  assumes "encrypt_pdu X c (ll_pdu aa h pl crc) = Inr pkt" and "length aa = 4" and "length crc = 3"
    and "1 \<le> length pl" and "length pl \<le> 250" and "ccm_ok X" and "ccm_same X T"
    and "same_keys b c" and "enc_enabled b" and "enc_tx_pkt_count c = uint (enc_counter b)"
    and "fifo_ok (serial_rx_buf b)" and "fifo_contents (serial_rx_buf b) = []"
    and "unat (capacity (serial_rx_buf b)) = 1024"
    and "2 \<le> unat (pkt_count b)" and "unat (pkt_count b) + 264 < 2 ^ 32"
    and "phy_chan b < 37" and "aa \<noteq> le_bytes 4 0x8e89bed6"
    and "calls_keep L (owed q)" and "calls_keep L (unread (\<lambda>_. 0))" and "logs_handed L lg"
    and "\<And>d s. fst (os_callout_reset L d s) = fst s"
  shows "\<exists>b1 t es. uart_rx (tx_frame pkt) b = Inr b1 \<and>
    recv_packet L T False (b1, w) = Some (Inr (False, t)) \<and>
    lg (snd t) = lg w @ ([(h AND 0xF3) OR push_bit 3 (of_bool (rx_sn b)) OR
        push_bit 2 (of_bool (rx_nesn b)), of_nat (length pl)] @ pl) # es \<and>
    list_all handed_empty es"
proof -
  let ?p = "aa @ [h, of_nat (length pl)] @ pl"
  let ?s = "\<lambda>b2. refresh_rsp_timer L (b2, w)"
  have adv: "\<not> is_adv_chan ?p" using assms(2,17) by (simp add: is_adv_chan_def)
  then have acc: "accepts b ?p" using assms(16) by (simp add: accepts_def is_adv_chan_def)
  obtain b1 b2 where rx: "uart_rx (tx_frame pkt) b = Inr b1"
      "recv_turn T b1 = Inr (Some (Some (?p, True), b2))"
      "fifo_contents (serial_rx_buf b2) = []" "same_settings b b2"
    using mapper_to_radio [OF assms(1-15)] acc by (auto simp: Let_def)
  have sn: "rx_sn b2 = rx_sn b" "rx_nesn b2 = rx_nesn b"
    using arg_cong [where f = rx_sn, OF rx(4) [unfolded same_settings_def]]
      arg_cong [where f = rx_nesn, OF rx(4) [unfolded same_settings_def]] by simp_all
  note kept = refresh_keeps [OF assms(20,21)]
  obtain t where t: "hand_over L ?p False True (?s b2) = Some t"
    using hand_loop_ends [of q "hand_turn L True" "\<lambda>_. 0" 0 ?p False "?s b2",
        OF hand_turn_keeps [OF assms(18)]] by (auto simp: hand_over_def)
  obtain es where es: "lg (snd t) = lg w @ drop 4 (fix_sn b2 ?p) # es" "list_all handed_empty es"
    using hand_over_log [OF assms(20) _ t] kept(1,2) [OF assms(18)] by auto
  have "unread (\<lambda>_. 0) t \<le> unread (\<lambda>_. 0) (?s b2)"
    using hand_loop_keeps [of "hand_turn L True" 0 ?p False "?s b2" t "unread (\<lambda>_. 0)"] t
      hand_turn_keeps [OF assms(19)] by (simp add: hand_over_def unread_def)
  also have "\<dots> \<le> unread (\<lambda>_. 0) (b2, w)" by (rule kept(3) [OF assms(19)])
  also have "\<dots> = 0" using rx(3) by (simp add: unread_def fifo_contents_def)
  finally have "recv_turn T (fst t) = Inr None" by (simp add: unread_def radio_drained)
  then have "recv_packet L T False t = Some (Inr (False, t))"
    by (subst recv_packet.simps) simp
  then have "recv_packet L T False (b1, w) = Some (Inr (False, t))"
    using t adv by (subst recv_packet.simps) (simp add: rx(2))
  moreover have "drop 4 (fix_sn b2 ?p) = [(h AND 0xF3) OR push_bit 3 (of_bool (rx_sn b)) OR
      push_bit 2 (of_bool (rx_nesn b)), of_nat (length pl)] @ pl"
    using assms(2) by (simp add: fix_sn_def sn nth_append list_update_append)
  ultimately show ?thesis using rx(1) es by metis
qed

text \<open>A link layer that keeps what it is handed, and has nothing to send.\<close>

definition sim_logger :: "bytes list link_layer" where
  "sim_logger =
     \<lparr>ble_ll_rx_start = (\<lambda>p ch (b, ps). (0, b, ps @ [p])), ble_ll_rx_end = (\<lambda>p ch ph m s. s),
      os_time_delay = (\<lambda>d s. s), os_sleep = (\<lambda>d s. s), ll_standby = (\<lambda>s. False),
      rsp_timer_running = (\<lambda>s. True), os_callout_reset = (\<lambda>d s. s), stale_rc = (\<lambda>s. 0),
      connect_ind = (\<lambda>h. h AND 0x0F = 5)\<rparr>"

theorem mapper_to_link_layer_witness:
  "\<exists>pkt b1 b2 es h. encrypt_pdu sim_env sim_peer_conn (ll_pdu [7, 0, 0, 0] 2 [9] [0, 0, 0]) = Inr pkt \<and>
     uart_rx (tx_frame pkt) sim_radio = Inr b1 \<and>
     recv_packet sim_logger sim_tc False (b1, []) = Some (Inr (False, b2, [h, 1, 9] # es)) \<and>
     list_all handed_empty es"
proof -
  have c: "enc_tx_pkt_count sim_peer_conn = uint (enc_counter sim_radio)" "enc_enabled sim_radio"
    "unat (capacity (serial_rx_buf sim_radio)) = 1024" "2 \<le> unat (pkt_count sim_radio)"
    "unat (pkt_count sim_radio) + 264 < 2 ^ 32" "enc_tx_pkt_count sim_peer_conn = 0"
    "phy_chan sim_radio < 37"
    by (simp_all add: sim_peer_conn_def sim_radio_def bridge0_def FIFO_CREATE_def)
  obtain pkt where pkt:
    "encrypt_pdu sim_env sim_peer_conn (ll_pdu [7, 0, 0, 0] 2 [9] [0, 0, 0]) = Inr pkt"
    using encrypt_pdu_ll [of "[7, 0, 0, 0]" "[0, 0, 0]" "[9]" sim_peer_conn sim_env 2] c(6)
    by (simp add: sim_env_def Let_def)
  have l: "calls_keep sim_logger (owed (\<lambda>_. 0))" "calls_keep sim_logger (unread (\<lambda>_. 0))"
    "logs_handed sim_logger (\<lambda>ps. ps)" "\<And>d s. fst (os_callout_reset sim_logger d s) = fst s"
    by (auto simp: calls_keep_def unread_def sim_logger_def owed_def logs_handed_def)
  have aa: "[7, 0, 0, 0] \<noteq> le_bytes 4 0x8e89bed6" by code_simp
  show ?thesis
    using mapper_to_link_layer [OF pkt _ _ _ _ sim_ccm sim_ccm_same sim_same_keys c(2,1)
        sim_radio_fifos(3,4) c(3-5,7) aa l, of "[]"] pkt by fastforce
qed

text \<open>C34: Handing a packet over need not end. Against a link layer that has sent data by the end of
  every turn, the loop never comes back, and no further packet of the mapper is taken off the
  buffer.\<close>

theorem hand_over_endless:
  assumes "\<And>p is_adv s. sent_non_empty_pkt (fst (snd (hand_turn L ok p is_adv s)))"
  shows "hand_over L p is_adv ok s = None"
  using hand_loop_quiet_turn [of "hand_turn L ok" 0 p is_adv s] assms
  by (cases "hand_loop (hand_turn L ok) 0 p is_adv s") (auto simp: hand_over_def)

text \<open>A link layer that has something to send whenever it was handed a packet, on a data channel.\<close>

definition sim_talker :: "unit link_layer" where
  "sim_talker =
     \<lparr>ble_ll_rx_start = (\<lambda>p ch (b, u). (0, b, u)),
      ble_ll_rx_end = (\<lambda>p ch ph m s. s),
      os_time_delay = (\<lambda>d (b, u). (b\<lparr>sent_non_empty_pkt := True\<rparr>, u)), os_sleep = (\<lambda>d s. s),
      ll_standby = (\<lambda>s. False), rsp_timer_running = (\<lambda>s. False), os_callout_reset = (\<lambda>d s. s),
      stale_rc = (\<lambda>s. 0), connect_ind = (\<lambda>h. h AND 0x0F = 5)\<rparr>"

theorem hand_over_endless_witness: "hand_over sim_talker [7, 0, 0, 0, 2, 1, 9] False True (sim_radio, ()) = None"
  by (rule hand_over_endless)
     (auto simp: hand_turn_def Let_def sim_talker_def wait_link.simps split: prod.split)

text \<open>A wrong tag is held against the packets after it. In the loop that hands over a packet whose
  tag did not verify, the link layer is told of a MIC failure in every single packet it accepts,
  the simulated empty ones included: flagging them all changes nothing.\<close>

theorem mic_failure_sticks:
  "hand_over (L\<lparr>ble_ll_rx_end := \<lambda>p ch ph m. ble_ll_rx_end L p ch ph True\<rparr>) p is_adv False =
   hand_over L p is_adv False"
proof -
  let ?L = "L\<lparr>ble_ll_rx_end := \<lambda>p ch ph m. ble_ll_rx_end L p ch ph True\<rparr>"
  have "wait_link ?L rc ms s = wait_link L rc ms s" for rc ms s
  proof (induction L rc ms s rule: wait_link.induct)
    case (1 L rc ms s)
    then show ?case by (subst (1 2) wait_link.simps) simp
  qed
  then have "hand_turn ?L False = hand_turn L False"
    by (intro ext) (simp add: hand_turn_def Let_def split_beta cong: if_cong)
  then show ?thesis by (simp only: hand_over_def)
qed

end
