(* ===== verification/TestApp.thy ===== *)
theory TestApp
  imports Handover
begin

text \<open>
  The application that runs on the NimBLE target (apps/testapp/src/main.c): its start, which waits for
  the mapper on the serial line, its answer to the events of NimBLE's host, and the random numbers of
  psf\_bridge/src/ble\_hw.c. NimBLE and the operating system are not in the repository: their calls are
  the parameter \<open>host\<close>, on the state of the virtual radio and of everything else. Printing is left out.
\<close>

section \<open>The host\<close>

record adv_fields =
  adv_flags :: "string list"
  adv_name :: string
  adv_name_len :: byte
  adv_name_is_complete :: bool

record hs_cfg =
  sm_bonding :: bool
  sm_our_key_dist :: byte
  sm_their_key_dist :: byte
  sm_sc :: bool
  sm_mitm :: bool
  sm_io_cap :: string

text \<open>
  \<open>sysinit\<close> and the assignments to the global \<open>ble_hs_cfg\<close> are calls here. \<open>ble_gap_conn_find\<close> also
  gives the peer's identity address, \<open>ble_hs_id_infer_auto\<close> the own address type.
\<close>

record 'w host =
  sysinit :: "'w radio \<Rightarrow> 'w radio"
  set_hs_cfg :: "hs_cfg \<Rightarrow> 'w radio \<Rightarrow> 'w radio"
  ble_gatts_count_cfg :: "'w radio \<Rightarrow> int \<times> 'w radio"
  ble_gatts_add_svcs :: "'w radio \<Rightarrow> int \<times> 'w radio"
  conf_load :: "'w radio \<Rightarrow> 'w radio"
  task_delay :: "nat \<Rightarrow> 'w radio \<Rightarrow> 'w radio"
  ble_hs_util_ensure_addr :: "'w radio \<Rightarrow> int \<times> 'w radio"
  ble_hs_id_infer_auto :: "'w radio \<Rightarrow> int \<times> byte \<times> 'w radio"
  ble_svc_gap_device_name :: "'w radio \<Rightarrow> string"
  ble_gap_adv_set_fields :: "adv_fields \<Rightarrow> 'w radio \<Rightarrow> int \<times> 'w radio"
  ble_gap_adv_start :: "byte \<Rightarrow> 'w radio \<Rightarrow> int \<times> 'w radio"
  ble_gap_conn_find :: "16 word \<Rightarrow> 'w radio \<Rightarrow> int \<times> bytes \<times> 'w radio"
  ble_store_util_delete_peer :: "bytes \<Rightarrow> 'w radio \<Rightarrow> 'w radio"
  ble_sm_inject_io :: "16 word \<Rightarrow> bool \<Rightarrow> 'w radio \<Rightarrow> int \<times> 'w radio"
  os_mbuf_append :: "bytes \<Rightarrow> 'w radio \<Rightarrow> int \<times> 'w radio"

section \<open>Advertising and events\<close>

definition bleprph_advertise :: "'w host \<Rightarrow> 'w radio \<Rightarrow> 'w radio" where
  "bleprph_advertise H s =
     (case ble_hs_id_infer_auto H s of (rc, own_addr_type, s1) \<Rightarrow>
      if rc \<noteq> 0 then s1 else
      let name = ble_svc_gap_device_name H s1;
          fields = \<lparr>adv_flags = [''BLE_HS_ADV_F_DISC_GEN'', ''BLE_HS_ADV_F_BREDR_UNSUP''],
                    adv_name = name, adv_name_len = of_nat (length name), adv_name_is_complete = True\<rparr>
      in case ble_gap_adv_set_fields H fields s1 of (rc, s2) \<Rightarrow>
         if rc \<noteq> 0 then s2 else snd (ble_gap_adv_start H own_addr_type s2))"

datatype gap_event =
    Connect int "16 word"
  | Disconnect
  | ConnUpdate "16 word"
  | AdvComplete
  | EncChange "16 word"
  | Subscribe
  | Mtu
  | RepeatPairing "16 word"
  | PasskeyAction bool "16 word"
  | OtherEvent

datatype gap_result = Zero | BLE_GAP_REPEAT_PAIRING_RETRY

definition find_conn :: "'w host \<Rightarrow> 16 word \<Rightarrow> 'w radio \<Rightarrow> bridge_error + bytes \<times> 'w radio" where
  "find_conn H handle s =
     (case ble_gap_conn_find H handle s of (rc, peer, t) \<Rightarrow>
      if rc = 0 then Inr (peer, t) else Inl AssertFailed)"

text \<open>\<open>PasskeyAction\<close> says whether a numeric comparison is asked for, which is always confirmed.\<close>

definition bleprph_gap_event ::
  "'w host \<Rightarrow> gap_event \<Rightarrow> 'w radio \<Rightarrow> bridge_error + gap_result \<times> 'w radio"
where
  "bleprph_gap_event H e s =
     (case e of
        Connect status handle \<Rightarrow>
          if status = 0
          then (case find_conn H handle s of Inl x \<Rightarrow> Inl x | Inr (p, t) \<Rightarrow> Inr (Zero, t))
          else Inr (Zero, bleprph_advertise H s)
      | Disconnect \<Rightarrow> Inr (Zero, bleprph_advertise H s)
      | ConnUpdate handle \<Rightarrow>
          (case find_conn H handle s of Inl x \<Rightarrow> Inl x | Inr (p, t) \<Rightarrow> Inr (Zero, t))
      | AdvComplete \<Rightarrow> Inr (Zero, s)
      | EncChange handle \<Rightarrow>
          (case find_conn H handle s of Inl x \<Rightarrow> Inl x | Inr (p, t) \<Rightarrow> Inr (Zero, t))
      | Subscribe \<Rightarrow> Inr (Zero, s)
      | Mtu \<Rightarrow> Inr (Zero, s)
      | RepeatPairing handle \<Rightarrow>
          (case find_conn H handle s of
             Inl x \<Rightarrow> Inl x
           | Inr (peer_id_addr, t) \<Rightarrow>
               Inr (BLE_GAP_REPEAT_PAIRING_RETRY, ble_store_util_delete_peer H peer_id_addr t))
      | PasskeyAction numcmp handle \<Rightarrow>
          Inr (Zero, if numcmp then snd (ble_sm_inject_io H handle True s) else s)
      | OtherEvent \<Rightarrow> Inr (Zero, s))"

definition bleprph_on_sync :: "'w host \<Rightarrow> 'w radio \<Rightarrow> bridge_error + 'w radio" where
  "bleprph_on_sync H s =
     (case ble_hs_util_ensure_addr H s of (rc, t) \<Rightarrow>
      if rc = 0 then Inr (bleprph_advertise H t) else Inl AssertFailed)"

section \<open>The button characteristic\<close>

datatype gatt_access = ReadChr | OtherAccess

datatype att_result = AttOk | BLE_ATT_ERR_INSUFFICIENT_RES

definition gatt_svr_chr_button_uuid :: bytes where
  "gatt_svr_chr_button_uuid =
     [0x23, 0xd1, 0xbc, 0xea, 0x5f, 0x78, 0x23, 0x15, 0xde, 0xef, 0x12, 0x12, 0x24, 0x15, 0x00, 0x00]"

definition gatt_svr_chr_access_button ::
  "'w host \<Rightarrow> bytes \<Rightarrow> gatt_access \<Rightarrow> 'w radio \<Rightarrow> bridge_error + att_result \<times> 'w radio"
where
  "gatt_svr_chr_access_button H uuid op s =
     (if uuid = gatt_svr_chr_button_uuid
      then if op \<noteq> ReadChr then Inl AssertFailed
           else case os_mbuf_append H [0] s of (rc, t) \<Rightarrow>
                  Inr (if rc = 0 then AttOk else BLE_ATT_ERR_INSUFFICIENT_RES, t)
      else Inl AssertFailed)"

section \<open>The start\<close>

definition gatt_svr_init :: "'w host \<Rightarrow> 'w radio \<Rightarrow> int \<times> 'w radio" where
  "gatt_svr_init H s =
     (case ble_gatts_count_cfg H s of (rc, s1) \<Rightarrow>
      if rc \<noteq> 0 then (rc, s1) else
      case ble_gatts_add_svcs H s1 of (rc, s2) \<Rightarrow> if rc \<noteq> 0 then (rc, s2) else (0, s2))"

definition app_cfg :: hs_cfg where
  "app_cfg =
     \<lparr>sm_bonding = False, sm_our_key_dist = 0, sm_their_key_dist = 0, sm_sc = True, sm_mitm = True,
      sm_io_cap = ''BLE_SM_IO_CAP_DISP_YES_NO''\<rparr>"

text \<open>\<open>while(!uart_is_connected)\<close>, which never ends without a mapper: then it is \<open>None\<close>. The loop is in the
  program built for \<open>ARCH_sim\<close>, which is the one under test.\<close>

partial_function (option) wait_uart :: "'w host \<Rightarrow> 'w radio \<Rightarrow> 'w radio option" where
  "wait_uart H s =
     (if uart_is_connected (fst s) then Some s else wait_uart H (task_delay H 100 s))"

text \<open>\<open>mynewt_main\<close> up to the loop that runs the event queue.\<close>

definition mynewt_main :: "'w host \<Rightarrow> 'w radio \<Rightarrow> (bridge_error + 'w radio) option" where
  "mynewt_main H s =
     (case gatt_svr_init H (set_hs_cfg H app_cfg (sysinit H s)) of (rc, s1) \<Rightarrow>
      if rc \<noteq> 0 then Some (Inl AssertFailed)
      else map_option Inr (wait_uart H (conf_load H s1)))"

section \<open>Random numbers\<close>

text \<open>
  \<open>rng_started\<close> with the state of the world; the callback may stop the generator. \<open>rnd\<close> is C's \<open>rand\<close>,
  of which the callback gets the low byte.
\<close>

type_synonym 'w rng = "bool \<times> 'w"

text \<open>\<open>ble_hw_rng_init\<close> sets the callback, whatever it was; \<open>ble_hw_rng_read\<close> takes one number.\<close>

definition ble_hw_rng_init :: "'c option \<Rightarrow> 'c option \<Rightarrow> 'c option" where
  "ble_hw_rng_init cb rng_cb = cb"

definition ble_hw_rng_read :: "('w \<Rightarrow> int \<times> 'w) \<Rightarrow> 'w \<Rightarrow> byte \<times> 'w" where
  "ble_hw_rng_read rnd w = (case rnd w of (v, w1) \<Rightarrow> (word_of_int v, w1))"

definition ble_hw_rng_stop :: "'w rng \<Rightarrow> 'w rng" where
  "ble_hw_rng_stop s = (False, snd s)"

partial_function (option) rng_loop ::
  "('w \<Rightarrow> int \<times> 'w) \<Rightarrow> (byte \<Rightarrow> 'w rng \<Rightarrow> 'w rng) \<Rightarrow> 'w rng \<Rightarrow> 'w rng option"
where
  "rng_loop rnd cb s =
     (if fst s then case rnd (snd s) of (v, w) \<Rightarrow> rng_loop rnd cb (cb (word_of_int v) (fst s, w))
      else Some s)"

definition ble_hw_rng_start ::
  "('w \<Rightarrow> int \<times> 'w) \<Rightarrow> (byte \<Rightarrow> 'w rng \<Rightarrow> 'w rng) option \<Rightarrow> 'w rng \<Rightarrow> 'w rng option"
where
  "ble_hw_rng_start rnd rng_cb s =
     (case rng_cb of None \<Rightarrow> Some (True, snd s) | Some cb \<Rightarrow> rng_loop rnd cb (True, snd s))"

section \<open>Address and encryption\<close>

definition ble_hw_get_public_addr :: bytes where
  "ble_hw_get_public_addr = [0x66, 0x55, 0x44, 0x33, 0x22, 0x11]"

text \<open>\<open>ble_hw_encrypt_block\<close> sets tinycrypt's key schedule and encrypts one block, with \<open>aes\<close> for both.\<close>

definition ble_hw_encrypt_block :: "(bytes \<Rightarrow> bytes \<Rightarrow> bytes) \<Rightarrow> bytes \<Rightarrow> bytes \<Rightarrow> bytes" where
  "ble_hw_encrypt_block aes key plain_text = aes key plain_text"

section \<open>The serial line during calls\<close>

text \<open>
  What can happen to the virtual radio while a call runs: the receive interrupt takes the next byte
  of the line, or something that leaves the interrupt's two variables alone.
\<close>

inductive line_step :: "('w \<Rightarrow> bytes) \<Rightarrow> 'w radio \<Rightarrow> 'w radio \<Rightarrow> bool" for line :: "'w \<Rightarrow> bytes" where
  interrupt: "line w = c # line v \<Longrightarrow> ble_phy_uart_rx_char c b = Inr b1 \<Longrightarrow> line_step line (b, w) (b1, v)"
| elsewhere: "line v = line w \<Longrightarrow> pkt_count b1 = pkt_count b \<Longrightarrow>
    uart_is_connected b1 = uart_is_connected b \<Longrightarrow> line_step line (b, w) (b1, v)"

inductive_cases line_stepE: "line_step line s t"

text \<open>A delay lets the interrupt take a byte if one has come.\<close>

definition host_line :: "'w host \<Rightarrow> ('w \<Rightarrow> bytes) \<Rightarrow> bool" where
  "host_line H line \<longleftrightarrow>
     (\<forall>s. (line_step line)\<^sup>*\<^sup>* s (sysinit H s)) \<and>
     (\<forall>cfg s. (line_step line)\<^sup>*\<^sup>* s (set_hs_cfg H cfg s)) \<and>
     (\<forall>s. (line_step line)\<^sup>*\<^sup>* s (snd (ble_gatts_count_cfg H s))) \<and>
     (\<forall>s. (line_step line)\<^sup>*\<^sup>* s (snd (ble_gatts_add_svcs H s))) \<and>
     (\<forall>s. (line_step line)\<^sup>*\<^sup>* s (conf_load H s)) \<and>
     (\<forall>n s. (line_step line)\<^sup>*\<^sup>* s (task_delay H n s) \<and>
        (\<forall>c cs b. line (snd s) = c # cs \<longrightarrow> ble_phy_uart_rx_char c (fst s) = Inr b \<longrightarrow>
           length (line (snd (task_delay H n s))) < length (line (snd s))))"

text \<open>The first two bytes of a mapper, of which \<open>k\<close> have been taken.\<close>

definition greeted :: "('w \<Rightarrow> bytes) \<Rightarrow> nat \<Rightarrow> 'w radio \<Rightarrow> bool" where
  "greeted line k s \<longleftrightarrow> k \<le> 2 \<and> line (snd s) = drop k [0xCC, 0] \<and> pkt_count (fst s) = of_nat k \<and>
     (uart_is_connected (fst s) \<longleftrightarrow> k = 2)"

lemma greeted_step: "line_step line s t \<Longrightarrow> greeted line k s \<Longrightarrow> \<exists>j. greeted line j t"
proof (induction rule: line_step.induct)
  case (interrupt w c v b b1)
  from interrupt(1,3) consider "k = 0" "c = 0xCC" "line v = [0]" | "k = 1" "line v = []"
    unfolding greeted_def by (cases k; cases "k - 1") auto
  then show ?case
  proof cases
    case 1
    with interrupt(2,3) have "greeted line 1 (b1, v)"
      by (auto simp: greeted_def ble_phy_uart_rx_char_def Let_def)
    then show ?thesis ..
  next
    case 2
    with interrupt(2,3) have "greeted line 2 (b1, v)"
      by (auto simp: greeted_def ble_phy_uart_rx_char_def Let_def)
    then show ?thesis ..
  qed
next
  case (elsewhere v w b1 b)
  then have "greeted line k (b1, v)" by (simp add: greeted_def)
  then show ?case ..
qed

lemma greeted_steps: "(line_step line)\<^sup>*\<^sup>* s t \<Longrightarrow> \<exists>k. greeted line k s \<Longrightarrow> \<exists>j. greeted line j t"
  by (induction rule: rtranclp_induct) (blast dest: greeted_step)+

text \<open>On a silent line nobody has connected.\<close>

definition silent :: "('w \<Rightarrow> bytes) \<Rightarrow> 'w radio \<Rightarrow> bool" where
  "silent line s \<longleftrightarrow> line (snd s) = [] \<and> \<not> uart_is_connected (fst s)"

lemma silent_steps: "(line_step line)\<^sup>*\<^sup>* s t \<Longrightarrow> silent line s \<Longrightarrow> silent line t"
  by (induction rule: rtranclp_induct) (auto simp: silent_def elim: line_step.cases)

lemma wait_uart_ends:
  assumes "host_line H line"
  shows "\<exists>k. greeted line k s \<Longrightarrow> \<exists>t. wait_uart H s = Some t \<and> greeted line 2 t"
proof (induction "length (line (snd s))" arbitrary: s rule: less_induct)
  case less
  then obtain k where k: "greeted line k s" by blast
  show ?case
  proof (cases "uart_is_connected (fst s)")
    case True
    with k have "greeted line 2 s" by (auto simp: greeted_def)
    with True show ?thesis by (subst wait_uart.simps) simp
  next
    case False
    with k obtain c cs where c: "line (snd s) = c # cs" "k = 0 \<and> c = 0xCC \<or> k = 1"
      by (auto simp: greeted_def numeral_2_eq_2 le_Suc_eq)
    then have "\<exists>b. ble_phy_uart_rx_char c (fst s) = Inr b"
      using k by (auto simp: greeted_def ble_phy_uart_rx_char_def Let_def)
    with c(1) have "length (line (snd (task_delay H 100 s))) < length (line (snd s))"
      "(line_step line)\<^sup>*\<^sup>* s (task_delay H 100 s)"
      using assms unfolding host_line_def by blast+
    with less.hyps greeted_steps k obtain t
      where "wait_uart H (task_delay H 100 s) = Some t" "greeted line 2 t" by blast
    with False show ?thesis by (subst wait_uart.simps) simp
  qed
qed

lemma wait_uart_silent_aux:
  "wait_uart H s = Some t \<Longrightarrow> host_line H line \<Longrightarrow> silent line s \<Longrightarrow> False"
proof (induction H s t rule: wait_uart.raw_induct [rotated, consumes 1])
  case (1 loop H s t)
  then have "\<not> uart_is_connected (fst s)" "silent line (task_delay H 100 s)"
    unfolding host_line_def silent_def by (blast, metis silent_def silent_steps)
  with 1 show ?case by simp
qed

section \<open>What the driver writes first\<close>

text \<open>A world that keeps the bytes written to the serial port, \<open>wr\<close>.\<close>

definition writes_logged :: "'w env \<Rightarrow> ('w \<Rightarrow> bytes) \<Rightarrow> bool" where
  "writes_logged X wr \<longleftrightarrow>
     (\<forall>port baud w v. ser_new X port baud w = Ret () v \<longrightarrow> wr v = wr w) \<and>
     (\<forall>bs w v. ser_write X bs w = Ret () v \<longrightarrow> wr v = wr w @ bs)"

lemma nrf_init_writes:
  assumes "writes_logged X wr" and "nrf_init X port baud dbg pcap cmd s = Ret () t"
  shows "wr (outside t) = wr (outside s) @ [0xCC, 0]"
  using assms
  by (auto simp: nrf_init_def set_log_tx_def one_byte_def ret_simps outM_eq_Ret writes_logged_def
      NRF52_CMD_CONFIG_LOG_TX_def)

text \<open>C23: The mapper starts the target. With what the driver's constructor has written on the line, the
  application comes to its event loop, connected, and has taken exactly these two bytes, however
  the interrupts fall between the calls; with nothing on the line it waits for ever.\<close>

theorem app_starts:
  assumes "writes_logged X wr" and "nrf_init X port baud dbg pcap cmd s = Ret () t"
    and "wr (outside s) = []" and "host_line H line"
    and "\<And>s. fst (ble_gatts_count_cfg H s) = 0" and "\<And>s. fst (ble_gatts_add_svcs H s) = 0"
  shows "(line w = wr (outside t) \<longrightarrow> (\<exists>b v. mynewt_main H (bridge0, w) = Some (Inr (b, v)) \<and>
      uart_is_connected b \<and> pkt_count b = 2 \<and> line v = [])) \<and>
    (line w = [] \<longrightarrow> mynewt_main H (bridge0, w) = None)"
proof -
  define s1 where "s1 = set_hs_cfg H app_cfg (sysinit H (bridge0, w))"
  define s2 where "s2 = snd (ble_gatts_add_svcs H (snd (ble_gatts_count_cfg H s1)))"
  have main: "mynewt_main H (bridge0, w) = map_option Inr (wait_uart H (conf_load H s2))"
    using assms(5,6) by (simp add: mynewt_main_def gatt_svr_init_def split_beta s1_def [symmetric] s2_def)
  have steps: "(line_step line)\<^sup>*\<^sup>* (bridge0, w) (conf_load H s2)"
    using assms(4) unfolding host_line_def s1_def s2_def by (meson rtranclp_trans)
  have "\<exists>b v. mynewt_main H (bridge0, w) = Some (Inr (b, v)) \<and>
      uart_is_connected b \<and> pkt_count b = 2 \<and> line v = []" if "line w = wr (outside t)"
  proof -
    have "line w = [0xCC, 0]" using that nrf_init_writes [OF assms(1,2)] assms(3) by simp
    then have "greeted line 0 (bridge0, w)" by (simp add: greeted_def bridge0_def)
    then obtain u where "wait_uart H (conf_load H s2) = Some u" "greeted line 2 u"
      using wait_uart_ends [OF assms(4)] greeted_steps [OF steps] by blast
    with main show ?thesis by (cases u) (simp add: greeted_def)
  qed
  moreover have "mynewt_main H (bridge0, w) = None" if "line w = []"
  proof -
    have "silent line (bridge0, w)" using that by (simp add: silent_def bridge0_def)
    then have "silent line (conf_load H s2)" by (rule silent_steps [OF steps])
    then have "wait_uart H (conf_load H s2) = None"
      using wait_uart_silent_aux [OF _ assms(4)] by (metis not_Some_eq)
    with main show ?thesis by simp
  qed
  ultimately show ?thesis by blast
qed

text \<open>
  A host whose world is the line and the two flags, where a delay lets one byte through, for the
  witnesses.
\<close>

type_synonym sim_site = "bytes \<times> bool \<times> bool"

fun sim_delay :: "sim_site radio \<Rightarrow> sim_site radio" where
  "sim_delay (b, [], f) = (b, [], f)"
| "sim_delay (b, c # cs, f) =
     (case ble_phy_uart_rx_char c b of Inl e \<Rightarrow> (b, c # cs, f) | Inr b1 \<Rightarrow> (b1, cs, f))"

definition sim_host :: "sim_site host" where
  "sim_host =
     \<lparr>sysinit = (\<lambda>s. s), set_hs_cfg = (\<lambda>c s. s), ble_gatts_count_cfg = Pair 0, ble_gatts_add_svcs = Pair 0,
      conf_load = (\<lambda>s. s), task_delay = (\<lambda>n. sim_delay), ble_hs_util_ensure_addr = Pair 0,
      ble_hs_id_infer_auto = (\<lambda>s. (0, 0, s)), ble_svc_gap_device_name = (\<lambda>s. ''nimble''),
      ble_gap_adv_set_fields = (\<lambda>f. Pair 0), ble_gap_adv_start = (\<lambda>ty (b, l, a, k). (0, b, l, True, k)),
      ble_gap_conn_find = (\<lambda>h s. (0, [], s)), ble_store_util_delete_peer = (\<lambda>p s. s),
      ble_sm_inject_io = (\<lambda>h a. Pair 0), os_mbuf_append = (\<lambda>bs. Pair 0)\<rparr>"

lemma sim_delay_line:
  "(line_step fst)\<^sup>*\<^sup>* s (sim_delay s) \<and>
   (\<forall>c cs b. fst (snd s) = c # cs \<longrightarrow> ble_phy_uart_rx_char c (fst s) = Inr b \<longrightarrow>
      length (fst (snd (sim_delay s))) < length (fst (snd s)))"
proof (induction s rule: sim_delay.induct)
  case (2 b c cs f)
  show ?case
  proof (cases "ble_phy_uart_rx_char c b")
    case (Inr b1)
    then have "line_step fst (b, c # cs, f) (b1, cs, f)" by (intro line_step.interrupt) simp_all
    with Inr show ?thesis by simp
  qed simp
qed simp

lemma sim_host_line: "host_line sim_host fst"
  using sim_delay_line by (simp add: host_line_def sim_host_def)

theorem app_starts_witness:
  "\<exists>b v. mynewt_main sim_host (bridge0, [0xCC, 0], False, False) = Some (Inr (b, v)) \<and>
     uart_is_connected b \<and> pkt_count b = 2 \<and> fst v = []"
proof -
  let ?wr = "\<lambda>w. concat (sim_tx w)"
  have wr: "writes_logged sim_env ?wr" by (simp add: writes_logged_def sim_env_def)
  obtain t where t: "nrf_init sim_env [] 115200 False False None (new_sul sim0) = Ret () t"
    by (simp add: nrf_init_def set_log_tx_def one_byte_def monad_simps outM_def sim_env_def new_sul_def)
  have none: "?wr (outside (new_sul sim0)) = []"
    by (simp add: new_sul_def dstate.defs sul.defs nrf_class_def sim0_def)
  have "[0xCC, 0] = ?wr (outside t)" using nrf_init_writes [OF wr t] none by simp
  then show ?thesis
    using app_starts [OF wr t none sim_host_line, of "([0xCC, 0], False, False)"]
    by (simp add: sim_host_def)
qed

section \<open>When the target can be found\<close>

text \<open>
  NimBLE's host as documented, with \<open>advg\<close> and \<open>linked\<close> for advertising and having a connection:
  \<open>ble_gap_adv_start\<close> starts the advertising if it returns 0 and changes nothing if it fails, the
  other calls of the application leave both alone, and each of them may fail.
\<close>

definition host_ok :: "'w host \<Rightarrow> ('w radio \<Rightarrow> bool) \<Rightarrow> ('w radio \<Rightarrow> bool) \<Rightarrow> bool" where
  "host_ok H advg linked \<longleftrightarrow>
     (\<forall>s rc ty t. ble_hs_id_infer_auto H s = (rc, ty, t) \<longrightarrow> advg t = advg s \<and> linked t = linked s) \<and>
     (\<forall>f s rc t. ble_gap_adv_set_fields H f s = (rc, t) \<longrightarrow> advg t = advg s \<and> linked t = linked s) \<and>
     (\<forall>ty s rc t. ble_gap_adv_start H ty s = (rc, t) \<longrightarrow>
        (rc = 0 \<longrightarrow> advg t) \<and> (rc \<noteq> 0 \<longrightarrow> advg t = advg s) \<and> linked t = linked s) \<and>
     (\<forall>h s rc p t. ble_gap_conn_find H h s = (rc, p, t) \<longrightarrow> advg t = advg s \<and> linked t = linked s) \<and>
     (\<forall>p s. advg (ble_store_util_delete_peer H p s) = advg s \<and> linked (ble_store_util_delete_peer H p s) = linked s) \<and>
     (\<forall>h x s rc t. ble_sm_inject_io H h x s = (rc, t) \<longrightarrow> advg t = advg s \<and> linked t = linked s) \<and>
     (\<forall>s rc t. ble_hs_util_ensure_addr H s = (rc, t) \<longrightarrow> advg t = advg s \<and> linked t = linked s)"

text \<open>
  What the host has done by itself when it reports an event: a connection attempt, whether it
  succeeds or not, has ended the advertising; a disconnection has ended the connection; the end of
  the advertising is reported as such. All else leaves both as they are.
\<close>

fun host_moves ::
  "('w radio \<Rightarrow> bool) \<Rightarrow> ('w radio \<Rightarrow> bool) \<Rightarrow> gap_event \<Rightarrow> 'w radio \<Rightarrow> 'w radio \<Rightarrow> bool"
where
  "host_moves advg linked (Connect status handle) s t \<longleftrightarrow> advg s \<and> \<not> advg t \<and> (linked t \<longleftrightarrow> status = 0)"
| "host_moves advg linked Disconnect s t \<longleftrightarrow> linked s \<and> \<not> linked t \<and> advg t = advg s"
| "host_moves advg linked AdvComplete s t \<longleftrightarrow> advg s \<and> \<not> advg t \<and> linked t = linked s"
| "host_moves advg linked e s t \<longleftrightarrow> advg t = advg s \<and> linked t = linked s"

text \<open>Whether the three calls of \<open>bleprph_advertise\<close> succeed.\<close>

definition advertise_ok :: "'w host \<Rightarrow> 'w radio \<Rightarrow> bool" where
  "advertise_ok H s =
     (case ble_hs_id_infer_auto H s of (rc, own_addr_type, s1) \<Rightarrow> rc = 0 \<and>
        (case ble_gap_adv_set_fields H
            \<lparr>adv_flags = [''BLE_HS_ADV_F_DISC_GEN'', ''BLE_HS_ADV_F_BREDR_UNSUP''],
             adv_name = ble_svc_gap_device_name H s1,
             adv_name_len = of_nat (length (ble_svc_gap_device_name H s1)), adv_name_is_complete = True\<rparr> s1 of
           (rc, s2) \<Rightarrow> rc = 0 \<and> fst (ble_gap_adv_start H own_addr_type s2) = 0))"

text \<open>
  The history of the application: synchronisations of the host, which come when there is neither
  advertising nor a connection (at the start, and after the host has been reset), and events; each
  with whether advertising would start then.
\<close>

datatype app_event = Synced bool | Handled gap_event bool

inductive app_run ::
  "'w host \<Rightarrow> ('w radio \<Rightarrow> bool) \<Rightarrow> ('w radio \<Rightarrow> bool) \<Rightarrow> app_event list \<Rightarrow> 'w radio \<Rightarrow> bool"
  for H :: "'w host" and advg linked :: "'w radio \<Rightarrow> bool"
where
  start: "\<not> advg s \<Longrightarrow> \<not> linked s \<Longrightarrow> app_run H advg linked [] s"
| synced: "app_run H advg linked es s \<Longrightarrow> \<not> advg s \<Longrightarrow> \<not> linked s \<Longrightarrow> \<not> advg t \<Longrightarrow> \<not> linked t \<Longrightarrow>
    ble_hs_util_ensure_addr H t = (0, v) \<Longrightarrow> bleprph_on_sync H t = Inr u \<Longrightarrow>
    app_run H advg linked (es @ [Synced (advertise_ok H v)]) u"
| handled: "app_run H advg linked es s \<Longrightarrow> host_moves advg linked e s t \<Longrightarrow>
    bleprph_gap_event H e t = Inr (r, u) \<Longrightarrow>
    app_run H advg linked (es @ [Handled e (advertise_ok H t)]) u"

text \<open>What the history says, without the host: the phase after each entry.\<close>

datatype app_phase = Advertising | Connected | Lost

definition advertised :: "bool \<Rightarrow> app_phase" where
  "advertised started = (if started then Advertising else Lost)"

fun phase_after :: "app_event \<Rightarrow> app_phase \<Rightarrow> app_phase" where
  "phase_after (Synced started) p = advertised started"
| "phase_after (Handled (Connect status handle) started) p =
     (if status = 0 then Connected else advertised started)"
| "phase_after (Handled Disconnect started) p = advertised started"
| "phase_after (Handled AdvComplete started) p = Lost"
| "phase_after (Handled _ started) p = p"

definition phase_of :: "app_event list \<Rightarrow> app_phase" where
  "phase_of es = fold phase_after es Lost"

definition in_phase :: "('w radio \<Rightarrow> bool) \<Rightarrow> ('w radio \<Rightarrow> bool) \<Rightarrow> app_phase \<Rightarrow> 'w radio \<Rightarrow> bool" where
  "in_phase advg linked p s \<longleftrightarrow> (advg s \<longleftrightarrow> p = Advertising) \<and> (linked s \<longleftrightarrow> p = Connected)"

lemma host_okD:
  assumes "host_ok H advg linked"
  shows "\<And>s rc ty t. ble_hs_id_infer_auto H s = (rc, ty, t) \<Longrightarrow> advg t = advg s \<and> linked t = linked s"
    and "\<And>f s rc t. ble_gap_adv_set_fields H f s = (rc, t) \<Longrightarrow> advg t = advg s \<and> linked t = linked s"
    and "\<And>ty s rc t. ble_gap_adv_start H ty s = (rc, t) \<Longrightarrow>
        (rc = 0 \<longrightarrow> advg t) \<and> (rc \<noteq> 0 \<longrightarrow> advg t = advg s) \<and> linked t = linked s"
    and "\<And>h s rc p t. ble_gap_conn_find H h s = (rc, p, t) \<Longrightarrow> advg t = advg s \<and> linked t = linked s"
    and "\<And>p s. advg (ble_store_util_delete_peer H p s) = advg s \<and> linked (ble_store_util_delete_peer H p s) = linked s"
    and "\<And>h x s rc t. ble_sm_inject_io H h x s = (rc, t) \<Longrightarrow> advg t = advg s \<and> linked t = linked s"
    and "\<And>s rc t. ble_hs_util_ensure_addr H s = (rc, t) \<Longrightarrow> advg t = advg s \<and> linked t = linked s"
  using assms unfolding host_ok_def by (simp_all only: simp_thms) (elim conjE, blast)

text \<open>Where there is neither, \<open>bleprph_advertise\<close> starts the advertising if its calls succeed.\<close>

lemma advertise_phase:
  assumes ok: "host_ok H advg linked" and s: "\<not> advg s" "\<not> linked s"
  shows "in_phase advg linked (advertised (advertise_ok H s)) (bleprph_advertise H s)"
proof -
  obtain rc ty s1 where 1: "ble_hs_id_infer_auto H s = (rc, ty, s1)" by (metis surj_pair)
  note s1 = host_okD(1) [OF ok 1]
  let ?f = "\<lparr>adv_flags = [''BLE_HS_ADV_F_DISC_GEN'', ''BLE_HS_ADV_F_BREDR_UNSUP''],
    adv_name = ble_svc_gap_device_name H s1, adv_name_len = of_nat (length (ble_svc_gap_device_name H s1)),
    adv_name_is_complete = True\<rparr>"
  obtain rc2 s2 where 2: "ble_gap_adv_set_fields H ?f s1 = (rc2, s2)" by (metis surj_pair)
  note s2 = host_okD(2) [OF ok 2]
  obtain rc3 s3 where 3: "ble_gap_adv_start H ty s2 = (rc3, s3)" by (metis surj_pair)
  note s3 = host_okD(3) [OF ok 3]
  have "advertise_ok H s \<longleftrightarrow> rc = 0 \<and> rc2 = 0 \<and> rc3 = 0"
    using 1 2 3 by (simp add: advertise_ok_def)
  with 1 2 3 s s1 s2 s3 show ?thesis
    by (auto simp: bleprph_advertise_def Let_def in_phase_def advertised_def)
qed

lemma find_conn_keeps:
  "host_ok H advg linked \<Longrightarrow> find_conn H h s = Inr (p, t) \<Longrightarrow> advg t = advg s \<and> linked t = linked s"
  by (cases "ble_gap_conn_find H h s")
     (auto simp: find_conn_def split: if_splits dest: host_okD(4))

lemma event_phase:
  assumes ok: "host_ok H advg linked" and moved: "host_moves advg linked e s t"
    and p: "in_phase advg linked p s" and ev: "bleprph_gap_event H e t = Inr (r, u)"
  shows "in_phase advg linked (phase_after (Handled e (advertise_ok H t)) p) u"
proof (cases e)
  case (Connect status handle)
  then show ?thesis
    using moved ev advertise_phase [OF ok, of t] find_conn_keeps [OF ok, of handle t]
    by (auto simp: bleprph_gap_event_def in_phase_def split: if_splits sum.splits)
next
  case Disconnect
  then have "\<not> advg t" "\<not> linked t" using moved p by (auto simp: in_phase_def)
  with Disconnect ev advertise_phase [OF ok, of t] show ?thesis by (auto simp: bleprph_gap_event_def)
next
  case (RepeatPairing handle)
  then obtain q v where v: "find_conn H handle t = Inr (q, v)" "u = ble_store_util_delete_peer H q v"
    using ev by (auto simp: bleprph_gap_event_def split: sum.splits)
  have "advg u = advg v" "linked u = linked v" using host_okD(5) [OF ok, of q v] v(2) by simp_all
  with find_conn_keeps [OF ok v(1)] RepeatPairing moved p show ?thesis by (simp add: in_phase_def)
next
  case (PasskeyAction numcmp handle)
  have "advg (snd (ble_sm_inject_io H handle True t)) = advg t \<and>
      linked (snd (ble_sm_inject_io H handle True t)) = linked t"
    using host_okD(6) [OF ok, of handle True t] by (metis surjective_pairing)
  with PasskeyAction moved p ev show ?thesis
    by (auto simp: bleprph_gap_event_def in_phase_def split: if_splits)
next
  case (ConnUpdate handle)
  then show ?thesis
    using moved p ev find_conn_keeps [OF ok, of handle t]
    by (auto simp: bleprph_gap_event_def in_phase_def split: sum.splits)
next
  case (EncChange handle)
  then show ?thesis
    using moved p ev find_conn_keeps [OF ok, of handle t]
    by (auto simp: bleprph_gap_event_def in_phase_def split: sum.splits)
qed (use moved p ev in \<open>auto simp: bleprph_gap_event_def in_phase_def\<close>)

lemma run_phase:
  assumes ok: "host_ok H advg linked"
  shows "app_run H advg linked es s \<Longrightarrow> in_phase advg linked (phase_of es) s"
proof (induction rule: app_run.induct)
  case (synced es s t v u)
  have "\<not> advg v" "\<not> linked v" using host_okD(7) [OF ok synced(6)] synced(4,5) by simp_all
  from advertise_phase [OF ok this] synced(6,7) show ?case
    by (simp add: phase_of_def bleprph_on_sync_def)
next
  case (handled es s e t r u)
  with event_phase [OF ok handled(2,4,3)] show ?case by (simp add: phase_of_def)
qed (simp add: phase_of_def in_phase_def)

text \<open>C24: When the target can be found. Whatever events the host reports and whichever calls fail, the
  history decides it: the application is advertising after a synchronisation, a disconnection or a
  failed connection if its three calls to start advertising succeed; it has a connection from a
  connection event to the next disconnection; and it has neither, and cannot be found, after a
  failed start, and after the end of an advertising, which it does not start again. From
  there no event brings it back, only the next synchronisation of the host.\<close>

theorem found_by_history:
  assumes "host_ok H advg linked" and "app_run H advg linked es s"
  shows "(advg s \<longleftrightarrow> phase_of es = Advertising) \<and> (linked s \<longleftrightarrow> phase_of es = Connected) \<and>
    (phase_of es = Lost \<longrightarrow> (\<forall>e t r u. host_moves advg linked e s t \<longrightarrow>
       bleprph_gap_event H e t = Inr (r, u) \<longrightarrow> \<not> advg u \<and> \<not> linked u))"
proof -
  have p: "in_phase advg linked (phase_of es) s" by (rule run_phase [OF assms])
  have "\<not> advg u \<and> \<not> linked u"
    if "phase_of es = Lost" "host_moves advg linked e s t" "bleprph_gap_event H e t = Inr (r, u)" for e t r u
  proof -
    have "phase_after (Handled e (advertise_ok H t)) Lost = Lost"
      using that p by (cases e) (simp_all add: in_phase_def)
    with event_phase [OF assms(1) that(2) p that(3)] that(1) show ?thesis by (simp add: in_phase_def)
  qed
  with p show ?thesis by (auto simp: in_phase_def)
qed

theorem found_by_history_witness:
  "\<exists>s. app_run sim_host (\<lambda>s. fst (snd (snd s))) (\<lambda>s. snd (snd (snd s)))
      [Synced True, Handled (Connect 0 1) True, Handled Disconnect True, Handled AdvComplete True] s \<and>
     \<not> fst (snd (snd s)) \<and> \<not> snd (snd (snd s))"
proof -
  let ?adv = "\<lambda>s :: sim_site radio. fst (snd (snd s))"
  let ?link = "\<lambda>s :: sim_site radio. snd (snd (snd s))"
  have ok: "host_ok sim_host ?adv ?link"
    by (simp add: host_ok_def sim_host_def split_beta)
  have start: "advertise_ok sim_host s" for s by (cases s) (simp add: advertise_ok_def sim_host_def)
  let ?s = "\<lambda>a k. (bridge0, [], a, k) :: sim_site radio"
  have e0: "bleprph_on_sync sim_host (?s False False) = Inr (?s True False)"
      "ble_hs_util_ensure_addr sim_host (?s False False) = (0, ?s False False)"
    by (simp_all add: bleprph_on_sync_def bleprph_advertise_def sim_host_def Let_def)
  have e1: "bleprph_gap_event sim_host (Connect 0 1) (?s False True) = Inr (Zero, ?s False True)"
    by (simp add: bleprph_gap_event_def find_conn_def sim_host_def)
  have e2: "bleprph_gap_event sim_host Disconnect (?s False False) = Inr (Zero, ?s True False)"
    by (simp add: bleprph_gap_event_def bleprph_advertise_def sim_host_def Let_def)
  have e3: "bleprph_gap_event sim_host AdvComplete (?s False False) = Inr (Zero, ?s False False)"
    by (simp add: bleprph_gap_event_def)
  have "app_run sim_host ?adv ?link [] (?s False False)" by (rule app_run.start) simp_all
  from app_run.synced [OF this _ _ _ _ e0(2,1)]
  have r0: "app_run sim_host ?adv ?link [Synced True] (?s True False)" by (simp add: start)
  from app_run.handled [OF r0 _ e1]
  have r1: "app_run sim_host ?adv ?link [Synced True, Handled (Connect 0 1) True] (?s False True)"
    by (simp add: start)
  from app_run.handled [OF r1 _ e2]
  have r2: "app_run sim_host ?adv ?link [Synced True, Handled (Connect 0 1) True, Handled Disconnect True]
      (?s True False)"
    by (simp add: start)
  from app_run.handled [OF r2 _ e3]
  have run: "app_run sim_host ?adv ?link
      [Synced True, Handled (Connect 0 1) True, Handled Disconnect True, Handled AdvComplete True] (?s False False)"
    by (simp add: start)
  have "phase_of [Synced True, Handled (Connect 0 1) True, Handled Disconnect True, Handled AdvComplete True] = Lost"
    by (simp add: phase_of_def)
  with found_by_history [OF ok run] run show ?thesis by (intro exI [of _ "?s False False"]) simp
qed

section \<open>The generator stops\<close>

text \<open>A generator whose callback stops it before \<open>m\<close> runs out comes back stopped.\<close>

lemma rng_loop_ends:
  assumes "\<And>v w w1. rnd w = (v, w1) \<Longrightarrow> m w1 \<le> m w"
    and "\<And>v w. fst (cb v (True, w)) \<Longrightarrow> m (snd (cb v (True, w))) < (m w :: nat)"
  shows "\<exists>t. rng_loop rnd cb s = Some t \<and> \<not> fst t"
proof (induction "m (snd s)" arbitrary: s rule: less_induct)
  case less
  show ?case
  proof (cases "fst s")
    case True
    obtain v w where w: "rnd (snd s) = (v, w)" by (metis surj_pair)
    let ?t = "cb (word_of_int v) (True, w)"
    have "\<exists>t. rng_loop rnd cb ?t = Some t \<and> \<not> fst t"
    proof (cases "fst ?t")
      case True
      then have "m (snd ?t) < m (snd s)" using assms(1) [OF w] assms(2) by (meson order_less_le_trans)
      then show ?thesis by (rule less)
    qed (subst rng_loop.simps, simp)
    with True w show ?thesis by (subst rng_loop.simps) simp
  qed (subst rng_loop.simps, simp)
qed

lemma rng_start_ends:
  assumes "\<And>v w w1. rnd w = (v, w1) \<Longrightarrow> m w1 \<le> m w"
    and "\<And>v w. fst (cb v (True, w)) \<Longrightarrow> m (snd (cb v (True, w))) < (m w :: nat)"
  shows "\<exists>t. ble_hw_rng_start rnd (Some cb) s = Some t \<and> \<not> fst t"
  using rng_loop_ends [of rnd m cb "(True, snd s)", OF assms] by (simp add: ble_hw_rng_start_def)

end
