(* ===== verification/Lbs.thy ===== *)
theory Lbs
  imports PyLib
begin

text \<open>
  The target on the nRF52840 (experiments/targets/nRF52840/src/main.c and lbs.c): the LED Button
  Service, the application's callbacks, and \<open>main\<close>. Zephyr and the board are not in the repository;
  the calls to them are the parameter \<open>board\<close>, on a state \<open>'h\<close> of everything outside these two files.
  Logging is left out.
\<close>

section \<open>State and surroundings\<close>

datatype led = DK_LED1 | DK_LED2 | DK_LED3

abbreviation "RUN_STATUS_LED \<equiv> DK_LED1"
abbreviation "CON_STATUS_LED \<equiv> DK_LED2"
abbreviation "USER_LED \<equiv> DK_LED3"

datatype att_error = BT_ATT_ERR_INVALID_ATTRIBUTE_LEN | BT_ATT_ERR_INVALID_OFFSET | BT_ATT_ERR_VALUE_NOT_ALLOWED

text \<open>\<open>bt_gatt_attr_read\<close> gets the client's length and offset and the value, and gives what it copies.\<close>

record 'h board =
  dk_leds_init :: "'h \<Rightarrow> int \<times> 'h"
  dk_buttons_init :: "'h \<Rightarrow> int \<times> 'h"
  bt_conn_cb_register :: "'h \<Rightarrow> 'h"
  bt_enable :: "'h \<Rightarrow> int \<times> 'h"
  bt_le_adv_start :: "'h \<Rightarrow> int \<times> 'h"
  dk_set_led :: "led \<Rightarrow> int \<Rightarrow> 'h \<Rightarrow> 'h"
  dk_set_led_on :: "led \<Rightarrow> 'h \<Rightarrow> 'h"
  dk_set_led_off :: "led \<Rightarrow> 'h \<Rightarrow> 'h"
  bt_gatt_notify :: "bytes \<Rightarrow> 'h \<Rightarrow> int \<times> 'h"
  bt_gatt_attr_read :: "16 word \<Rightarrow> 16 word \<Rightarrow> bytes \<Rightarrow> 'h \<Rightarrow> (att_error + bytes) \<times> 'h"
  k_sleep :: "nat \<Rightarrow> 'h \<Rightarrow> 'h"
  DK_BTN1_MSK :: "32 word"
  EACCES :: int

text \<open>
  The static variables of both files. Of \<open>lbs_cb\<close> it counts which pointers are set: the only callbacks
  are \<open>app_led_cb\<close> and \<open>app_button_cb\<close>.
\<close>

record 'h lbs =
  notify_enabled :: bool
  button_state :: bool
  led_cb :: bool
  button_cb :: bool
  app_button_state :: bool
  hw :: 'h

definition lbs0 :: "'h \<Rightarrow> 'h lbs" where
  "lbs0 h = \<lparr>notify_enabled = False, button_state = False, led_cb = False, button_cb = False,
             app_button_state = False, hw = h\<rparr>"

section \<open>The service\<close>

definition lbslc_ccc_cfg_changed :: "16 word \<Rightarrow> 'h lbs \<Rightarrow> 'h lbs" where
  "lbslc_ccc_cfg_changed value s = s\<lparr>notify_enabled := value = 0x0001\<rparr>"

definition app_led_cb :: "'h board \<Rightarrow> bool \<Rightarrow> 'h lbs \<Rightarrow> 'h lbs" where
  "app_led_cb B led_state s = s\<lparr>hw := dk_set_led B USER_LED (of_bool led_state) (hw s)\<rparr>"

definition app_button_cb :: "'h lbs \<Rightarrow> bool" where
  "app_button_cb s = app_button_state s"

definition write_led ::
  "'h board \<Rightarrow> bytes \<Rightarrow> 16 word \<Rightarrow> 16 word \<Rightarrow> 'h lbs \<Rightarrow> (att_error + 16 word) \<times> 'h lbs"
where
  "write_led B buf len offset s =
     (if len \<noteq> 1 then (Inl BT_ATT_ERR_INVALID_ATTRIBUTE_LEN, s)
      else if offset \<noteq> 0 then (Inl BT_ATT_ERR_INVALID_OFFSET, s)
      else if led_cb s
      then let val = buf ! 0 in
           if val = 0x00 \<or> val = 0x01 then (Inr len, app_led_cb B (val \<noteq> 0) s)
           else (Inl BT_ATT_ERR_VALUE_NOT_ALLOWED, s)
      else (Inr len, s))"

definition read_button ::
  "'h board \<Rightarrow> 16 word \<Rightarrow> 16 word \<Rightarrow> 'h lbs \<Rightarrow> (att_error + bytes) \<times> 'h lbs"
where
  "read_button B len offset s =
     (if button_cb s
      then let s1 = s\<lparr>button_state := app_button_cb s\<rparr> in
           case bt_gatt_attr_read B len offset [of_bool (button_state s1)] (hw s1) of
             (r, h) \<Rightarrow> (r, s1\<lparr>hw := h\<rparr>)
      else (Inr [], s))"

definition bt_lbs_init :: "(bool \<times> bool) option \<Rightarrow> 'h lbs \<Rightarrow> int \<times> 'h lbs" where
  "bt_lbs_init callbacks s =
     (case callbacks of
        None \<Rightarrow> (0, s)
      | Some (led, button) \<Rightarrow> (0, s\<lparr>led_cb := led, button_cb := button\<rparr>))"

definition bt_lbs_send_button_state :: "'h board \<Rightarrow> bool \<Rightarrow> 'h lbs \<Rightarrow> int \<times> 'h lbs" where
  "bt_lbs_send_button_state B state s =
     (if \<not> notify_enabled s then (- EACCES B, s)
      else case bt_gatt_notify B [of_bool state] (hw s) of (rc, h) \<Rightarrow> (rc, s\<lparr>hw := h\<rparr>))"

section \<open>The application\<close>

definition on_connected :: "'h board \<Rightarrow> byte \<Rightarrow> 'h lbs \<Rightarrow> 'h lbs" where
  "on_connected B err s =
     (if err \<noteq> 0 then s else s\<lparr>hw := dk_set_led_on B CON_STATUS_LED (hw s)\<rparr>)"

definition on_disconnected :: "'h board \<Rightarrow> 'h lbs \<Rightarrow> 'h lbs" where
  "on_disconnected B s = s\<lparr>hw := dk_set_led_off B CON_STATUS_LED (hw s)\<rparr>"

definition button_changed :: "'h board \<Rightarrow> 32 word \<Rightarrow> 32 word \<Rightarrow> 'h lbs \<Rightarrow> 'h lbs" where
  "button_changed B state has_changed s =
     (if has_changed AND DK_BTN1_MSK B \<noteq> 0
      then let user_button_state = state AND DK_BTN1_MSK B;
               s1 = snd (bt_lbs_send_button_state B (user_button_state \<noteq> 0) s)
           in s1\<lparr>app_button_state := user_button_state \<noteq> 0\<rparr>
      else s)"

text \<open>
  \<open>main\<close> up to its loop: the result it returns early with, or the state in which the loop is entered.
  Then a turn of the loop, for as long as \<open>blink_status\<close> fits an \<open>int\<close> (68 years).
\<close>

definition main_start :: "'h board \<Rightarrow> 'h lbs \<Rightarrow> (int \<times> 'h lbs) + 'h lbs" where
  "main_start B s =
     (case dk_leds_init B (hw s) of (err, h) \<Rightarrow>
      let s1 = s\<lparr>hw := h\<rparr> in
      if err \<noteq> 0 then Inl (-1, s1) else
      case dk_buttons_init B (hw s1) of (err, h) \<Rightarrow>
      let s2 = s1\<lparr>hw := h\<rparr> in
      if err \<noteq> 0 then Inl (-1, s2) else
      case bt_enable B (bt_conn_cb_register B (hw s2)) of (err, h) \<Rightarrow>
      let s3 = s2\<lparr>hw := h\<rparr> in
      if err \<noteq> 0 then Inl (-1, s3) else
      case bt_lbs_init (Some (True, True)) s3 of (err, s4) \<Rightarrow>
      if err \<noteq> 0 then Inl (-1, s4) else
      case bt_le_adv_start B (hw s4) of (err, h) \<Rightarrow>
      let s5 = s4\<lparr>hw := h\<rparr> in
      if err \<noteq> 0 then Inl (-1, s5) else Inr s5)"

definition main_turn :: "'h board \<Rightarrow> int \<times> 'h lbs \<Rightarrow> int \<times> 'h lbs" where
  "main_turn B bs =
     (let n = fst bs + 1
      in (n, snd bs\<lparr>hw := k_sleep B 1000 (dk_set_led B RUN_STATUS_LED (n mod 2) (hw (snd bs)))\<rparr>))"

section \<open>Events\<close>

text \<open>What the stack and the button library call, in any order. A write carries its buffer.\<close>

datatype event =
    Connected byte
  | Disconnected
  | Ccc "16 word"
  | Write bytes "16 word" "16 word"
  | Read "16 word" "16 word"
  | Button "32 word" "32 word"

fun handle :: "'h board \<Rightarrow> 'h lbs \<Rightarrow> event \<Rightarrow> 'h lbs" where
  "handle B s (Connected err) = on_connected B err s"
| "handle B s Disconnected = on_disconnected B s"
| "handle B s (Ccc v) = lbslc_ccc_cfg_changed v s"
| "handle B s (Write buf len offset) = snd (write_led B buf len offset s)"
| "handle B s (Read len offset) = snd (read_button B len offset s)"
| "handle B s (Button state changed) = button_changed B state changed s"

section \<open>What a history amounts to\<close>

text \<open>
  The specification, read off the events alone, the latest first: whether notifications are wanted
  (\<open>n\<close> at first), whether the button is pressed (\<open>p\<close> at first), and what was done to the board.
\<close>

fun wanted :: "bool \<Rightarrow> event list \<Rightarrow> bool" where
  "wanted n [] = n"
| "wanted n (Ccc v # es) = (v = 1)"
| "wanted n (_ # es) = wanted n es"

fun pressed :: "'h board \<Rightarrow> bool \<Rightarrow> event list \<Rightarrow> bool" where
  "pressed B p [] = p"
| "pressed B p (Button state changed # es) =
     (if changed AND DK_BTN1_MSK B \<noteq> 0 then state AND DK_BTN1_MSK B \<noteq> 0 else pressed B p es)"
| "pressed B p (_ # es) = pressed B p es"

fun effect :: "'h board \<Rightarrow> bool \<Rightarrow> bool \<Rightarrow> event \<Rightarrow> event list \<Rightarrow> 'h \<Rightarrow> 'h" where
  "effect B n p (Connected err) es h = (if err = 0 then dk_set_led_on B CON_STATUS_LED h else h)"
| "effect B n p Disconnected es h = dk_set_led_off B CON_STATUS_LED h"
| "effect B n p (Ccc v) es h = h"
| "effect B n p (Write buf len offset) es h =
     (if len = 1 \<and> offset = 0 \<and> buf ! 0 \<in> {0, 1} then dk_set_led B USER_LED (uint (buf ! 0)) h else h)"
| "effect B n p (Read len offset) es h =
     snd (bt_gatt_attr_read B len offset [of_bool (pressed B p es)] h)"
| "effect B n p (Button state changed) es h =
     (if changed AND DK_BTN1_MSK B \<noteq> 0 \<and> wanted n es
      then snd (bt_gatt_notify B [of_bool (state AND DK_BTN1_MSK B \<noteq> 0)] h) else h)"

fun effects :: "'h board \<Rightarrow> bool \<Rightarrow> bool \<Rightarrow> event list \<Rightarrow> 'h \<Rightarrow> 'h" where
  "effects B n p [] h = h"
| "effects B n p (e # es) h = effect B n p e es (effects B n p es h)"

text \<open>\<open>bt_gatt_attr_read\<close> as Zephyr documents it: the part of the value from the offset on that fits.\<close>

definition attr_read_ok :: "'h board \<Rightarrow> bool" where
  "attr_read_ok B \<longleftrightarrow>
     (\<forall>len offset value h. fst (bt_gatt_attr_read B len offset value h) =
        (if unat offset > length value then Inl BT_ATT_ERR_INVALID_OFFSET
         else Inr (take (unat len) (drop (unat offset) value))))"

text \<open>One event, against the specification.\<close>

lemma handle_effect:
  assumes "led_cb s" "button_cb s"
    and "notify_enabled s = wanted n es" and "app_button_state s = pressed B p es"
  shows "handle B s e = s\<lparr>notify_enabled := wanted n (e # es), app_button_state := pressed B p (e # es),
    button_state := button_state (handle B s e), hw := effect B n p e es (hw s)\<rparr>"
proof (cases e)
  case (Write buf len offset)
  have "of_bool (buf ! 0 \<noteq> 0) = uint (buf ! 0)" if "buf ! 0 \<in> {0, 1}" using that by auto
  with Write assms show ?thesis by (auto simp: write_led_def app_led_cb_def Let_def)
next
  case (Button state changed)
  with assms show ?thesis
    by (cases "bt_gatt_notify B [of_bool (state AND DK_BTN1_MSK B \<noteq> 0)] (hw s)")
       (simp add: button_changed_def bt_lbs_send_button_state_def Let_def)
qed (use assms in \<open>auto simp: on_connected_def on_disconnected_def lbslc_ccc_cfg_changed_def
        read_button_def app_button_cb_def Let_def split: prod.split\<close>)

lemma run_history:
  assumes "led_cb s" "button_cb s"
  shows "let t = foldl (handle B) s es in
    led_cb t \<and> button_cb t \<and> notify_enabled t = wanted (notify_enabled s) (rev es) \<and>
    app_button_state t = pressed B (app_button_state s) (rev es) \<and>
    hw t = effects B (notify_enabled s) (app_button_state s) (rev es) (hw s)"
proof (induction es rule: rev_induct)
  case Nil
  with assms show ?case by (simp add: Let_def)
next
  case (snoc e es)
  let ?t = "foldl (handle B) s es"
  have t: "led_cb ?t" "button_cb ?t" "notify_enabled ?t = wanted (notify_enabled s) (rev es)"
      "app_button_state ?t = pressed B (app_button_state s) (rev es)"
      "hw ?t = effects B (notify_enabled s) (app_button_state s) (rev es) (hw s)"
    using snoc by (simp_all add: Let_def)
  obtain b where b: "handle B ?t e = ?t\<lparr>notify_enabled := wanted (notify_enabled s) (e # rev es),
      app_button_state := pressed B (app_button_state s) (e # rev es), button_state := b,
      hw := effect B (notify_enabled s) (app_button_state s) e (rev es) (hw ?t)\<rparr>"
    using handle_effect [OF t(1-4)] by blast
  show ?case using t by (simp add: Let_def b)
qed

lemma main_start_ready:
  "main_start B s = Inr t \<Longrightarrow>
   led_cb t \<and> button_cb t \<and> notify_enabled t = notify_enabled s \<and> app_button_state t = app_button_state s"
  by (auto simp: main_start_def bt_lbs_init_def Let_def split: prod.splits if_splits)

text \<open>C25: The target does what its history asks for. Once \<open>main\<close> has come to its loop, whatever the
  stack and the buttons call in whatever order: notifications are on exactly if the last write of
  the client's configuration was 1; the LED, the connection light and the notifications sent are
  those the events ask for, a bad write (length, offset or value) changing nothing; and a client
  that reads the button at offset 0 gets the state of the last press or release, never an older
  one.\<close>

theorem lbs_history:
  assumes "main_start B (lbs0 h) = Inr s" and "attr_read_ok B" and "1 \<le> len"
  shows "let t = foldl (handle B) s es in
    notify_enabled t = wanted False (rev es) \<and>
    hw t = effects B False False (rev es) (hw s) \<and>
    fst (read_button B len 0 t) = Inr [of_bool (pressed B False (rev es))]"
proof -
  have s: "led_cb s" "button_cb s" "\<not> notify_enabled s" "\<not> app_button_state s"
    using main_start_ready [OF assms(1)] by (simp_all add: lbs0_def)
  let ?t = "foldl (handle B) s es"
  have t: "button_cb ?t" "notify_enabled ?t = wanted False (rev es)"
      "app_button_state ?t = pressed B False (rev es)" "hw ?t = effects B False False (rev es) (hw s)"
    using run_history [OF s(1,2), of B es] s(3,4) by (simp_all add: Let_def)
  have "1 \<le> unat len" using assms(3) by (simp add: unat_gt_0 Suc_le_eq word_le_nat_alt)
  then have "take (unat len) [x] = [x]" for x :: byte by (cases "unat len") simp_all
  then have "fst (read_button B len 0 ?t) = Inr [of_bool (pressed B False (rev es))]"
    using assms(2) t(1,3)
    by (simp add: read_button_def attr_read_ok_def app_button_cb_def Let_def split_beta)
  with t show ?thesis by (simp add: Let_def)
qed

text \<open>A board that lists the lights switched and the notifications sent.\<close>

definition sim_board :: "((led \<times> int) list \<times> bytes list) board" where
  "sim_board =
     \<lparr>dk_leds_init = Pair 0, dk_buttons_init = Pair 0, bt_conn_cb_register = (\<lambda>h. h),
      bt_enable = Pair 0, bt_le_adv_start = Pair 0,
      dk_set_led = (\<lambda>l v (ls, ns). (ls @ [(l, v)], ns)),
      dk_set_led_on = (\<lambda>l (ls, ns). (ls @ [(l, 1)], ns)),
      dk_set_led_off = (\<lambda>l (ls, ns). (ls @ [(l, 0)], ns)),
      bt_gatt_notify = (\<lambda>v (ls, ns). (0, ls, ns @ [v])),
      bt_gatt_attr_read = (\<lambda>len offset value h.
        (if unat offset > length value then Inl BT_ATT_ERR_INVALID_OFFSET
         else Inr (take (unat len) (drop (unat offset) value)), h)),
      k_sleep = (\<lambda>n h. h), DK_BTN1_MSK = 1, EACCES = 13\<rparr>"

theorem lbs_history_witness:
  "\<exists>s. main_start sim_board (lbs0 ([], [])) = Inr s \<and>
     (let t = foldl (handle sim_board) s [Connected 0, Ccc 1, Button 1 1, Write [1] 1 0, Write [7] 1 0]
      in notify_enabled t \<and> hw t = ([(DK_LED2, 1), (DK_LED3, 1)], [[1]]) \<and>
         fst (read_button sim_board 5 0 t) = Inr [1])"
proof -
  let ?es = "[Connected 0, Ccc 1, Button 1 1, Write [1] 1 0, Write [7] 1 0]"
  obtain s where s: "main_start sim_board (lbs0 ([], [])) = Inr s" "hw s = ([], [])"
    by (simp add: main_start_def bt_lbs_init_def lbs0_def sim_board_def Let_def)
  have "attr_read_ok sim_board" by (simp add: attr_read_ok_def sim_board_def)
  from lbs_history [OF s(1) this, of 5 ?es]
  have "let t = foldl (handle sim_board) s ?es in
    notify_enabled t = wanted False (rev ?es) \<and>
    hw t = effects sim_board False False (rev ?es) ([], []) \<and>
    fst (read_button sim_board 5 0 t) = Inr [of_bool (pressed sim_board False (rev ?es))]"
    using s(2) by simp
  moreover have "wanted False (rev ?es)" "pressed sim_board False (rev ?es)"
    "effects sim_board False False (rev ?es) ([], []) = ([(DK_LED2, 1), (DK_LED3, 1)], [[1]])"
    by code_simp+
  ultimately show ?thesis using s(1) unfolding Let_def by auto
qed

end
