(* ===== verification/Mbuf.thy ===== *)
theory Mbuf
  imports Bridge
begin

text \<open>
  \<open>ble_phy_rxpdu_copy\<close> (psf\_bridge/src/ble\_phy.c): a received PDU is spread over a chain of the
  operating system's memory buffers, in words of four bytes as far as they go. The chain is
  NimBLE's; of a buffer the code uses its size, the length of its packet header, and its data.
  All arithmetic is on 16 bits.
\<close>

section \<open>The chain\<close>

text \<open>
  \<open>om_data\<close> is the memory from \<open>m->om_data\<close> to the end of the buffer, so its length says what may be
  written; \<open>om_ble_hdr\<close> is the radio's header in the packet header of the first buffer, whose type \<open>'h\<close>
  is NimBLE's.
\<close>

record 'h mbuf =
  omp_databuf_len :: "16 word"
  om_pkthdr_len :: byte
  om_len :: "16 word"
  om_data :: bytes
  om_ble_hdr :: 'h

text \<open>
  \<open>memcpy(m->om_data + pos, src, n)\<close>, and \<open>n / 4\<close> words \<open>*dst++ = *src++\<close>: reading behind the PDU or
  writing behind the buffer has no defined behaviour.
\<close>

definition put_data :: "nat \<Rightarrow> nat \<Rightarrow> bytes \<Rightarrow> bytes \<Rightarrow> bridge_error + bytes" where
  "put_data pos n src old =
     (if n \<le> length src \<and> pos + n \<le> length old
      then Inr (take pos old @ take n src @ drop (pos + n) old)
      else Inl UndefinedBehaviour)"

text \<open>\<open>copylen = min(mb_bytes, rem_bytes) & 0xFFFC\<close>\<close>

definition word_len :: "16 word \<Rightarrow> 16 word \<Rightarrow> 16 word" where
  "word_len mb_bytes rem_bytes = min mb_bytes rem_bytes AND 0xFFFC"

section \<open>The copy\<close>

definition copy_words :: "16 word \<Rightarrow> bytes \<Rightarrow> 'h mbuf \<Rightarrow> bridge_error + 'h mbuf" where
  "copy_words copylen src m =
     map_sum id (\<lambda>d. m\<lparr>om_len := copylen, om_data := d\<rparr>) (put_data 0 (unat copylen) src (om_data m))"

text \<open>The loop: \<open>m\<close> is the current buffer, which has \<open>mb_bytes\<close> left, \<open>ms\<close> what \<open>SLIST_NEXT\<close> leads to.\<close>

fun copy_rest ::
  "16 word \<Rightarrow> 16 word \<Rightarrow> bytes \<Rightarrow> 'h mbuf \<Rightarrow> 'h mbuf list \<Rightarrow> bridge_error + 'h mbuf list"
where
  "copy_rest rem_bytes mb_bytes src m ms =
     (if rem_bytes = 0 then Inr (m # ms)
      else if rem_bytes \<le> mb_bytes
      then map_sum id (\<lambda>d. m\<lparr>om_len := om_len m + rem_bytes, om_data := d\<rparr> # ms)
             (put_data (unat (om_len m)) (unat rem_bytes) src (om_data m))
      else case ms of
             [] \<Rightarrow> Inl AssertFailed
           | m1 # ms1 \<Rightarrow>
               let copylen = word_len (omp_databuf_len m1) rem_bytes in
               case copy_words copylen src m1 of
                 Inl e \<Rightarrow> Inl e
               | Inr m2 \<Rightarrow>
                   map_sum id (Cons m)
                     (copy_rest (rem_bytes - copylen) (omp_databuf_len m1 - copylen)
                        (drop (unat copylen) src) m2 ms1))"

declare copy_rest.simps [simp del]

text \<open>\<open>memcpy(ble_hdr, &rx_hdr, sizeof(struct ble_mbuf_hdr))\<close> into the first buffer's packet header.\<close>

fun copy_ble_hdr :: "'h \<Rightarrow> 'h mbuf list \<Rightarrow> 'h mbuf list" where
  "copy_ble_hdr rx_hdr (m # ms) = m\<lparr>om_ble_hdr := rx_hdr\<rparr> # ms"
| "copy_ble_hdr rx_hdr [] = []"

text \<open>\<open>omp_len\<close> is the length in the packet header of the first buffer, \<open>dptr\<close> the received PDU.\<close>

definition ble_phy_rxpdu_copy ::
  "'h \<Rightarrow> 16 word \<Rightarrow> bytes \<Rightarrow> 'h mbuf \<Rightarrow> 'h mbuf list \<Rightarrow> bridge_error + 'h mbuf list"
where
  "ble_phy_rxpdu_copy rx_hdr omp_len dptr rxpdu ms =
     (let mb_bytes = omp_databuf_len rxpdu - ucast (om_pkthdr_len rxpdu) - 4;
          copylen = word_len mb_bytes omp_len
      in case copy_words copylen dptr rxpdu of
           Inl e \<Rightarrow> Inl e
         | Inr m \<Rightarrow>
             map_sum id (copy_ble_hdr rx_hdr)
               (copy_rest (omp_len - copylen) (mb_bytes - copylen) (drop (unat copylen) dptr) m ms))"

section \<open>What the chain then holds\<close>

definition chain_data :: "'h mbuf list \<Rightarrow> bytes" where
  "chain_data ms = concat (map (\<lambda>m. take (unat (om_len m)) (om_data m)) ms)"

lemma word_len_le: "word_len mb rem \<le> mb" "word_len mb rem \<le> rem"
  using word_and_le2 [of "min mb rem" "0xFFFC"] min.cobounded1 [of mb rem] min.cobounded2 [of mb rem]
  unfolding word_len_def by (blast intro: order_trans)+

lemma unat_sub_le: "(a :: 16 word) \<le> b \<Longrightarrow> unat (b - a) = unat b - unat a"
  by (simp add: unat_sub)

lemma put_data_Inr:
  assumes "put_data pos n src old = Inr d"
  shows "take (pos + n) d = take pos old @ take n src" "length d = length old" "n \<le> length src"
    "pos + n \<le> length old"
  using assms by (auto simp: put_data_def split: if_splits)

lemma copy_words_Inr:
  "copy_words n src m = Inr m2 \<Longrightarrow>
   m2 = m\<lparr>om_len := n, om_data := om_data m2\<rparr> \<and> put_data 0 (unat n) src (om_data m) = Inr (om_data m2)"
  by (cases "put_data 0 (unat n) src (om_data m)") (auto simp: copy_words_def)

lemma copy_words_inside:
  "unat n \<le> length src \<Longrightarrow> unat n \<le> length (om_data m) \<Longrightarrow> \<exists>m2. copy_words n src m = Inr m2"
  by (simp add: copy_words_def put_data_def)

text \<open>One turn of the loop that goes on to the next buffer.\<close>

lemma copy_rest_next:
  assumes "rem \<noteq> 0" "\<not> rem \<le> mb" and "copy_words (word_len (omp_databuf_len m1) rem) src m1 = Inr m2"
  shows "copy_rest rem mb src m (m1 # ms1) =
    map_sum id (Cons m) (copy_rest (rem - word_len (omp_databuf_len m1) rem)
      (omp_databuf_len m1 - word_len (omp_databuf_len m1) rem)
      (drop (unat (word_len (omp_databuf_len m1) rem)) src) m2 ms1)"
  using assms by (subst copy_rest.simps) (simp add: Let_def)

lemma word_len_sub:
  "unat (rem - word_len mb rem) = unat rem - unat (word_len mb rem)"
  "unat (mb - word_len mb rem) = unat mb - unat (word_len mb rem)"
  "unat (word_len mb rem) \<le> unat rem" "unat (word_len mb rem) \<le> unat mb"
  using word_len_le [of mb rem] by (simp_all add: unat_sub_le word_le_nat_alt)

lemma copy_rest_not_Nil: "copy_rest rem mb src m ms = Inr out \<Longrightarrow> out \<noteq> []"
  by (subst (asm) copy_rest.simps)
     (auto simp: Let_def map_sum_def split: if_splits list.splits sum.splits)

definition empty_bufs :: "'h mbuf list \<Rightarrow> bool" where
  "empty_bufs ms \<longleftrightarrow> list_all (\<lambda>m. om_len m = 0) ms"

lemma copy_rest_data:
  "copy_rest rem mb src m ms = Inr out \<Longrightarrow> unat (om_len m) \<le> length (om_data m) \<Longrightarrow>
   unat (om_len m) + unat mb < 2 ^ 16 \<Longrightarrow> empty_bufs ms \<Longrightarrow>
   chain_data out = take (unat (om_len m)) (om_data m) @ take (unat rem) src"
proof (induction ms arbitrary: rem mb src m out)
  case Nil
  show ?case
  proof (cases "rem = 0")
    case False
    with Nil obtain d where d: "rem \<le> mb" "put_data (unat (om_len m)) (unat rem) src (om_data m) = Inr d"
        "out = [m\<lparr>om_len := om_len m + rem, om_data := d\<rparr>]"
      by (cases "put_data (unat (om_len m)) (unat rem) src (om_data m)")
        (auto simp: copy_rest.simps [of rem] split: if_splits)
    have "unat (om_len m + rem) = unat (om_len m) + unat rem"
      using Nil(3) d(1) by (simp add: unat_word_ariths word_le_nat_alt)
    with put_data_Inr [OF d(2)] d(3) show ?thesis by (simp add: chain_data_def)
  qed (use Nil in \<open>auto simp: copy_rest.simps [of 0] chain_data_def\<close>)
next
  case (Cons m1 ms1)
  have fresh: "chain_data (m1 # ms1) = []"
    using Cons.prems(4) by (induction "m1 # ms1" arbitrary: m1 ms1) (auto simp: chain_data_def empty_bufs_def list_all_iff)
  consider "rem = 0" | "rem \<noteq> 0" "rem \<le> mb" | "rem \<noteq> 0" "\<not> rem \<le> mb" by blast
  then show ?case
  proof cases
    case 1
    with Cons.prems(1) fresh show ?thesis by (auto simp: copy_rest.simps [of 0] chain_data_def)
  next
    case 2
    with Cons.prems(1) obtain d where d: "put_data (unat (om_len m)) (unat rem) src (om_data m) = Inr d"
        "out = m\<lparr>om_len := om_len m + rem, om_data := d\<rparr> # m1 # ms1"
      by (cases "put_data (unat (om_len m)) (unat rem) src (om_data m)")
        (auto simp: copy_rest.simps [of rem])
    have "unat (om_len m + rem) = unat (om_len m) + unat rem"
      using Cons.prems(3) 2 by (simp add: unat_word_ariths word_le_nat_alt)
    with put_data_Inr [OF d(1)] d(2) fresh show ?thesis by (simp add: chain_data_def)
  next
    case 3
    define n where "n = word_len (omp_databuf_len m1) rem"
    note sub = word_len_sub [where mb = "omp_databuf_len m1" and rem = rem, folded n_def]
    obtain m2 where m2: "copy_words n src m1 = Inr m2"
      using Cons.prems(1) 3 by (cases "copy_words n src m1") (auto simp: copy_rest.simps [of rem] n_def)
    from Cons.prems(1) copy_rest_next [OF 3, of m1 src m2 m ms1] m2 obtain rest
      where out: "out = m # rest" and rest:
        "copy_rest (rem - n) (omp_databuf_len m1 - n) (drop (unat n) src) m2 ms1 = Inr rest"
      by (cases "copy_rest (rem - n) (omp_databuf_len m1 - n) (drop (unat n) src) m2 ms1")
        (auto simp: n_def)
    from copy_words_Inr [OF m2] obtain d
      where d: "m2 = m1\<lparr>om_len := n, om_data := d\<rparr>" "put_data 0 (unat n) src (om_data m1) = Inr d" by blast
    note p = put_data_Inr [OF d(2)]
    have "chain_data rest = take (unat (om_len m2)) (om_data m2) @ take (unat (rem - n)) (drop (unat n) src)"
      using Cons.IH [OF rest] Cons.prems(4) sub p d(1) unat_16_less [of "omp_databuf_len m1"]
      by (simp add: empty_bufs_def)
    also have "\<dots> = take (unat rem) src"
      using p(1) sub d(1) by (simp flip: take_add)
    finally show ?thesis by (simp add: out chain_data_def)
  qed
qed

text \<open>No write is outside while each buffer is at least as long as it says.\<close>

definition sized :: "'h mbuf list \<Rightarrow> bool" where
  "sized ms \<longleftrightarrow> list_all (\<lambda>m. unat (omp_databuf_len m) \<le> length (om_data m)) ms"

lemma copy_rest_inside:
  "unat rem \<le> length src \<Longrightarrow> unat (om_len m) + min (unat mb) (unat rem) \<le> length (om_data m) \<Longrightarrow>
   sized ms \<Longrightarrow> copy_rest rem mb src m ms \<noteq> Inl UndefinedBehaviour"
proof (induction ms arbitrary: rem mb src m)
  case Nil
  then show ?case
    by (auto simp: copy_rest.simps [of rem] put_data_def word_le_nat_alt min_absorb2)
next
  case (Cons m1 ms1)
  show ?case
  proof (cases "rem = 0 \<or> rem \<le> mb")
    case True
    with Cons.prems show ?thesis
      by (auto simp: copy_rest.simps [of rem] put_data_def word_le_nat_alt min_absorb2)
  next
    case False
    define n where "n = word_len (omp_databuf_len m1) rem"
    note sub = word_len_sub [where mb = "omp_databuf_len m1" and rem = rem, folded n_def]
    have size: "unat (omp_databuf_len m1) \<le> length (om_data m1)" "sized ms1"
      using Cons.prems(3) by (simp_all add: sized_def)
    obtain m2 where m2: "copy_words n src m1 = Inr m2"
      using copy_words_inside [of n src m1] sub size Cons.prems(1) by fastforce
    then have "om_len m2 = n" "length (om_data m2) = length (om_data m1)"
      using copy_words_Inr [OF m2] put_data_Inr(2) by (metis mbuf.select_convs(3) mbuf.surjective mbuf.update_convs(3,4))+
    then have "copy_rest (rem - n) (omp_databuf_len m1 - n) (drop (unat n) src) m2 ms1 \<noteq> Inl UndefinedBehaviour"
      using sub size Cons.prems(1) by (intro Cons.IH) simp_all
    then show ?thesis
      using False copy_rest_next [of rem mb m1 src m2 m ms1] m2
      by (cases "copy_rest (rem - n) (omp_databuf_len m1 - n) (drop (unat n) src) m2 ms1")
        (auto simp: n_def)
  qed
qed

text \<open>How many whole words a number of bytes makes, and that the mask computes it.\<close>

definition whole_words :: "nat \<Rightarrow> nat" where
  "whole_words n = n div 4 * 4"

lemma unat_word_len: "unat (word_len mb rem) = whole_words (min (unat mb) (unat rem))"
proof -
  have mask: "n AND 65532 = n div 4 * 4" if "n < 65536" for n :: nat
  proof -
    have "take_bit 16 n = n" using that by (simp add: take_bit_nat_eq_self_iff)
    then have small: "bit n k \<Longrightarrow> k < 16" for k by (metis bit_take_bit_iff)
    have "n AND push_bit 2 (mask 14) = push_bit 2 (drop_bit 2 n)"
    proof (rule bit_eqI)
      show "bit (n AND push_bit 2 (mask 14)) k \<longleftrightarrow> bit (push_bit 2 (drop_bit 2 n)) k" for k
      proof (cases "2 \<le> k")
        case True
        then obtain j where "k = j + 2" by (metis le_add_diff_inverse2)
        with small [of k] show ?thesis
          by (auto simp: bit_and_iff bit_push_bit_iff bit_mask_iff bit_drop_bit_eq)
      qed (simp add: bit_and_iff bit_push_bit_iff)
    qed
    moreover have "push_bit 2 (mask 14) = (65532 :: nat)" by (simp add: mask_eq_exp_minus_1 push_bit_eq_mult)
    ultimately show ?thesis by (simp add: push_bit_eq_mult drop_bit_eq_div)
  qed
  have "unat (x AND 0xFFFC) = unat x AND 65532" for x :: "16 word"
    by (simp add: unsigned_and_eq)
  with mask [OF unat_16_less] show ?thesis
    by (simp add: word_len_def whole_words_def min_def word_le_nat_alt)
qed

lemma whole_words_le: "whole_words n \<le> n"
  by (simp add: whole_words_def)

text \<open>The chain is long enough if its whole words are.\<close>

definition words_of :: "'h mbuf list \<Rightarrow> nat" where
  "words_of ms = sum_list (map (\<lambda>m. whole_words (unat (omp_databuf_len m))) ms)"

lemma copy_rest_fits:
  "unat rem \<le> unat mb \<or> unat rem \<le> words_of ms \<Longrightarrow> copy_rest rem mb src m ms \<noteq> Inl AssertFailed"
proof (induction ms arbitrary: rem mb src m)
  case Nil
  then show ?case
    by (auto simp: copy_rest.simps [of rem] word_le_nat_alt unat_eq_0 put_data_def words_of_def)
next
  case (Cons m1 ms1)
  let ?d = "unat (omp_databuf_len m1)"
  show ?case
  proof (cases "rem = 0 \<or> rem \<le> mb")
    case False
    define n where "n = word_len (omp_databuf_len m1) rem"
    note sub = word_len_sub [where mb = "omp_databuf_len m1" and rem = rem, folded n_def]
    show ?thesis
    proof (cases "copy_words n src m1")
      case (Inl e)
      then have "e = UndefinedBehaviour" by (auto simp: copy_words_def put_data_def split: if_splits)
      with Inl False show ?thesis by (simp add: copy_rest.simps [of rem] n_def)
    next
      case (Inr m2)
      have "unat rem \<le> whole_words ?d + words_of ms1"
        using Cons.prems False by (simp add: word_le_nat_alt words_of_def)
      then have "unat (rem - n) \<le> unat (omp_databuf_len m1 - n) \<or> unat (rem - n) \<le> words_of ms1"
        using unat_word_len [of "omp_databuf_len m1" rem] sub
        by (cases "?d \<le> unat rem") (auto simp: n_def [symmetric])
      from Cons.IH [OF this, of "drop (unat n) src" m2] show ?thesis
        using False Inr copy_rest_next [of rem mb m1 src m2 m ms1]
        by (cases "copy_rest (rem - n) (omp_databuf_len m1 - n) (drop (unat n) src) m2 ms1")
          (auto simp: n_def)
    qed
  qed (auto simp: copy_rest.simps put_data_def)
qed

section \<open>The whole copy\<close>

text \<open>\<open>ble_phy_rxpdu_copy\<close> with \<open>mb\<close> for the room the code computes for the first buffer.\<close>

definition copy_pdu ::
  "'h \<Rightarrow> 16 word \<Rightarrow> 16 word \<Rightarrow> bytes \<Rightarrow> 'h mbuf \<Rightarrow> 'h mbuf list \<Rightarrow> bridge_error + 'h mbuf list"
where
  "copy_pdu rx_hdr mb len src m ms =
     (case copy_words (word_len mb len) src m of
        Inl e \<Rightarrow> Inl e
      | Inr m1 \<Rightarrow> map_sum id (copy_ble_hdr rx_hdr)
          (copy_rest (len - word_len mb len) (mb - word_len mb len) (drop (unat (word_len mb len)) src) m1 ms))"

lemma copy_words_Inl: "copy_words n src m = Inl e \<Longrightarrow> e = UndefinedBehaviour"
  by (auto simp: copy_words_def put_data_def split: if_splits)

text \<open>If the first copy succeeds, the rest starts from a buffer with the words in it.\<close>

lemma copy_pdu_first:
  assumes "copy_words (word_len mb len) src m = Inr m1" and "n = word_len mb len"
  shows "copy_pdu rx_hdr mb len src m ms =
      map_sum id (copy_ble_hdr rx_hdr) (copy_rest (len - n) (mb - n) (drop (unat n) src) m1 ms)"
    and "om_len m1 = n" "length (om_data m1) = length (om_data m)"
    and "take (unat n) (om_data m1) = take (unat n) src" "unat n \<le> length (om_data m)"
proof -
  have "put_data 0 (unat n) src (om_data m) = Inr (om_data m1)" "om_len m1 = n"
    using copy_words_Inr [OF assms(1)] assms(2) by (metis mbuf.select_convs(3) mbuf.surjective mbuf.update_convs(3,4))+
  with put_data_Inr [OF this(1)] assms
  show "copy_pdu rx_hdr mb len src m ms =
      map_sum id (copy_ble_hdr rx_hdr) (copy_rest (len - n) (mb - n) (drop (unat n) src) m1 ms)"
    and "om_len m1 = n" "length (om_data m1) = length (om_data m)"
    and "take (unat n) (om_data m1) = take (unat n) src" "unat n \<le> length (om_data m)"
    by (simp_all add: copy_pdu_def)
qed

lemma copy_pdu_inside:
  assumes "unat len \<le> length src" and "sized ms" and le: "min (unat mb) (unat len) \<le> length (om_data m)"
  shows "copy_pdu rx_hdr mb len src m ms \<noteq> Inl UndefinedBehaviour"
proof -
  define n where "n = word_len mb len"
  note sub = word_len_sub [where mb = mb and rem = len, folded n_def]
  obtain m1 where m1: "copy_words n src m = Inr m1"
    using copy_words_inside [of n src m] sub assms(1) le by fastforce
  note first = copy_pdu_first [OF m1 [unfolded n_def] n_def]
  have "unat n + min (unat (mb - n)) (unat (len - n)) = min (unat mb) (unat len)" using sub by simp
  then have "copy_rest (len - n) (mb - n) (drop (unat n) src) m1 ms \<noteq> Inl UndefinedBehaviour"
    using le assms(1,2) sub first(2,3) by (intro copy_rest_inside) simp_all
  then show ?thesis
    by (cases "copy_rest (len - n) (mb - n) (drop (unat n) src) m1 ms") (auto simp: first(1))
qed

lemma copy_pdu_outside:
  assumes "length (om_data m) < unat len" and "unat len \<le> unat mb"
  shows "copy_pdu rx_hdr mb len src m ms = Inl UndefinedBehaviour"
proof (cases "copy_words (word_len mb len) src m")
  case (Inl e)
  then show ?thesis using copy_words_Inl [OF Inl] by (simp add: copy_pdu_def)
next
  case (Inr m1)
  define n where "n = word_len mb len"
  note sub = word_len_sub [where mb = mb and rem = len, folded n_def]
  note first = copy_pdu_first [OF Inr n_def]
  have "len - n \<noteq> 0" "len - n \<le> mb - n"
    using sub first(5) assms by (auto simp: word_le_nat_alt unat_eq_0 [symmetric])
  then have "copy_rest (len - n) (mb - n) (drop (unat n) src) m1 ms = Inl UndefinedBehaviour"
    using sub first(2,3) assms(1) by (auto simp: copy_rest.simps [of "len - n"] put_data_def)
  with first(1) show ?thesis by simp
qed

lemma copy_pdu_aborts:
  assumes "copy_pdu rx_hdr mb len src m ms = Inl AssertFailed"
  shows "unat mb < unat len \<and> whole_words (unat mb) + words_of ms < unat len"
proof -
  define n where "n = word_len mb len"
  note sub = word_len_sub [where mb = mb and rem = len, folded n_def]
  obtain m1 where m1: "copy_words (word_len mb len) src m = Inr m1"
    using assms copy_words_Inl
    by (cases "copy_words (word_len mb len) src m") (fastforce simp: copy_pdu_def)+
  have "copy_rest (len - n) (mb - n) (drop (unat n) src) m1 ms = Inl AssertFailed"
    using assms copy_pdu_first(1) [OF m1 n_def]
    by (cases "copy_rest (len - n) (mb - n) (drop (unat n) src) m1 ms") simp_all
  then have "\<not> (unat (len - n) \<le> unat (mb - n) \<or> unat (len - n) \<le> words_of ms)"
    using copy_rest_fits by blast
  moreover have "unat n = whole_words (min (unat mb) (unat len))" unfolding n_def by (rule unat_word_len)
  ultimately show ?thesis using sub by (cases "unat mb \<le> unat len") auto
qed

lemma copy_pdu_whole:
  assumes "copy_pdu rx_hdr mb len src m ms = Inr out" and "empty_bufs ms"
  shows "chain_data out = take (unat len) src \<and> om_ble_hdr (hd out) = rx_hdr"
proof -
  define n where "n = word_len mb len"
  note sub = word_len_sub [where mb = mb and rem = len, folded n_def]
  obtain m1 where m1: "copy_words (word_len mb len) src m = Inr m1"
    using assms(1) by (cases "copy_words (word_len mb len) src m") (simp_all add: copy_pdu_def)
  note first = copy_pdu_first [OF m1 n_def]
  obtain bufs where bufs: "copy_rest (len - n) (mb - n) (drop (unat n) src) m1 ms = Inr bufs"
      "out = copy_ble_hdr rx_hdr bufs"
    using assms(1) first(1) by (cases "copy_rest (len - n) (mb - n) (drop (unat n) src) m1 ms") auto
  have "chain_data bufs = take (unat (om_len m1)) (om_data m1) @ take (unat (len - n)) (drop (unat n) src)"
    using first sub assms(2) unat_16_less [of mb] by (intro copy_rest_data [OF bufs(1)]) simp_all
  also have "\<dots> = take (unat len) src" using first(2,4) sub by (simp flip: take_add)
  finally show ?thesis using copy_rest_not_Nil [OF bufs(1)] bufs(2) by (cases bufs) (simp_all add: chain_data_def)
qed

text \<open>The room is what the buffer has, unless the subtraction wraps round.\<close>

lemma room_nat:
  assumes "unat (h :: byte) + 4 \<le> unat (d :: 16 word)"
  shows "unat (d - ucast h - 4) = unat d - (unat h + 4)"
proof -
  have "unat h < 256" using unsigned_less [of h] by simp
  then have c: "unat (ucast h + 4 :: 16 word) = unat h + 4"
    by (simp add: unat_word_ariths unsigned_ucast_eq take_bit_nat_eq_self)
  then have "ucast h + 4 \<le> d" using assms by (simp add: word_le_nat_alt)
  moreover have "d - ucast h - 4 = d - (ucast h + 4)" by simp
  ultimately show ?thesis using c by (simp only: unat_sub_le)
qed

section \<open>Property\<close>

text \<open>C35: A received PDU reaches the link layer whole. Copied to a chain of empty buffers with as much
  memory as they say, the PDU is what the buffers' data are together, and the radio's header is in
  the first one. The copy aborts only if the chain is too short: not if the PDU fits into the first
  buffer, and not if it fits into the whole words of all. It writes outside a buffer only if the
  first one is smaller than its packet header and four bytes, when the 16-bit difference
  wraps round; and then it does, for every PDU longer than the buffer's data (and not longer than
  the wrapped difference).\<close>

theorem rxpdu_copied:
  assumes "unat omp_len \<le> length dptr" and "list_all (\<lambda>m. om_len m = 0) ms"
    and "unat (omp_databuf_len rxpdu) - (unat (om_pkthdr_len rxpdu) + 4) \<le> length (om_data rxpdu)"
    and "list_all (\<lambda>m. unat (omp_databuf_len m) \<le> length (om_data m)) ms"
    and "room = unat (omp_databuf_len rxpdu - ucast (om_pkthdr_len rxpdu) - 4)"
    and "wraps \<longleftrightarrow> unat (omp_databuf_len rxpdu) < unat (om_pkthdr_len rxpdu) + 4"
  shows "(case ble_phy_rxpdu_copy rx_hdr omp_len dptr rxpdu ms of
      Inr out \<Rightarrow> chain_data out = take (unat omp_len) dptr \<and> om_ble_hdr (hd out) = rx_hdr
    | Inl AssertFailed \<Rightarrow> room < unat omp_len \<and>
        whole_words room + sum_list (map (\<lambda>m. whole_words (unat (omp_databuf_len m))) ms) < unat omp_len
    | Inl UndefinedBehaviour \<Rightarrow> wraps \<and> length (om_data rxpdu) < unat omp_len) \<and>
    (wraps \<and> length (om_data rxpdu) < unat omp_len \<and> unat omp_len \<le> room \<longrightarrow>
      ble_phy_rxpdu_copy rx_hdr omp_len dptr rxpdu ms = Inl UndefinedBehaviour)"
proof -
  let ?mb = "omp_databuf_len rxpdu - ucast (om_pkthdr_len rxpdu) - 4"
  have copy: "ble_phy_rxpdu_copy rx_hdr omp_len dptr rxpdu ms = copy_pdu rx_hdr ?mb omp_len dptr rxpdu ms"
    by (simp only: ble_phy_rxpdu_copy_def copy_pdu_def Let_def)
  have bufs: "sized ms" "empty_bufs ms" using assms(2,4) by (simp_all add: sized_def empty_bufs_def)
  have le: "min (unat ?mb) (unat omp_len) \<le> length (om_data rxpdu)"
    if "\<not> (wraps \<and> length (om_data rxpdu) < unat omp_len)"
    using that assms(3,6) room_nat [of "om_pkthdr_len rxpdu" "omp_databuf_len rxpdu"] by auto
  show ?thesis
  proof (cases "ble_phy_rxpdu_copy rx_hdr omp_len dptr rxpdu ms")
    case (Inl e)
    then show ?thesis
      using copy_pdu_inside [OF assms(1) bufs(1) le, of rx_hdr] copy_pdu_aborts [of rx_hdr ?mb omp_len dptr rxpdu ms]
        copy_pdu_outside [of rxpdu omp_len ?mb rx_hdr dptr ms]
      by (cases e) (auto simp: copy assms(5) words_of_def)
  next
    case (Inr out)
    then show ?thesis
      using copy_pdu_whole [OF _ bufs(2)] copy_pdu_outside [of rxpdu omp_len ?mb rx_hdr dptr ms]
      by (auto simp: copy assms(5))
  qed
qed

text \<open>A PDU of nine bytes over buffers of six, four and five bytes.\<close>

definition sim_mbuf :: "16 word \<Rightarrow> byte \<Rightarrow> nat \<Rightarrow> bool mbuf" where
  "sim_mbuf n h k =
     \<lparr>omp_databuf_len = n, om_pkthdr_len = h, om_len = 0, om_data = replicate k 0, om_ble_hdr = False\<rparr>"

theorem rxpdu_copied_witness:
  "(case ble_phy_rxpdu_copy True 9 [1, 2, 3, 4, 5, 6, 7, 8, 9] (sim_mbuf 18 8 6) [sim_mbuf 4 0 4, sim_mbuf 5 0 5] of
     Inr out \<Rightarrow> chain_data out = [1, 2, 3, 4, 5, 6, 7, 8, 9] \<and> om_ble_hdr (hd out)
   | Inl e \<Rightarrow> False) \<and>
   ble_phy_rxpdu_copy True 9 [1, 2, 3, 4, 5, 6, 7, 8, 9] (sim_mbuf 9 8 1) [] = Inl UndefinedBehaviour"
proof (rule conjI)
  have "(ucast (8 :: byte) :: 16 word) = 8" by simp
  then have room: "6 = unat (omp_databuf_len (sim_mbuf 18 8 6) - ucast (om_pkthdr_len (sim_mbuf 18 8 6)) - 4)"
    "65533 = unat (omp_databuf_len (sim_mbuf 9 8 1) - ucast (om_pkthdr_len (sim_mbuf 9 8 1)) - 4)"
    by (simp_all add: sim_mbuf_def)
  have "unat (9 :: 16 word) \<le> length [1, 2, 3, 4, 5, 6, 7, 8, 9 :: byte]"
    "list_all (\<lambda>m. om_len m = 0) [sim_mbuf 4 0 4, sim_mbuf 5 0 5]"
    "unat (omp_databuf_len (sim_mbuf 18 8 6)) - (unat (om_pkthdr_len (sim_mbuf 18 8 6)) + 4)
       \<le> length (om_data (sim_mbuf 18 8 6))"
    "list_all (\<lambda>m. unat (omp_databuf_len m) \<le> length (om_data m)) [sim_mbuf 4 0 4, sim_mbuf 5 0 5]"
    "False \<longleftrightarrow> unat (omp_databuf_len (sim_mbuf 18 8 6)) < unat (om_pkthdr_len (sim_mbuf 18 8 6)) + 4"
    by (simp_all add: sim_mbuf_def)
  from rxpdu_copied [OF this(1-4) room(1) this(5), of True]
  show "case ble_phy_rxpdu_copy True 9 [1, 2, 3, 4, 5, 6, 7, 8, 9] (sim_mbuf 18 8 6) [sim_mbuf 4 0 4, sim_mbuf 5 0 5] of
     Inr out \<Rightarrow> chain_data out = [1, 2, 3, 4, 5, 6, 7, 8, 9] \<and> om_ble_hdr (hd out)
   | Inl e \<Rightarrow> False"
    by (auto simp: sim_mbuf_def whole_words_def split: sum.splits bridge_error.splits)
  have "unat (9 :: 16 word) \<le> length [1, 2, 3, 4, 5, 6, 7, 8, 9 :: byte]"
    "list_all (\<lambda>m. om_len m = 0) ([] :: bool mbuf list)"
    "unat (omp_databuf_len (sim_mbuf 9 8 1)) - (unat (om_pkthdr_len (sim_mbuf 9 8 1)) + 4)
       \<le> length (om_data (sim_mbuf 9 8 1))"
    "list_all (\<lambda>m. unat (omp_databuf_len m) \<le> length (om_data m)) ([] :: bool mbuf list)"
    "True \<longleftrightarrow> unat (omp_databuf_len (sim_mbuf 9 8 1)) < unat (om_pkthdr_len (sim_mbuf 9 8 1)) + 4"
    by (simp_all add: sim_mbuf_def)
  from rxpdu_copied [OF this(1-4) room(2) this(5), of True]
  show "ble_phy_rxpdu_copy True 9 [1, 2, 3, 4, 5, 6, 7, 8, 9] (sim_mbuf 9 8 1) [] = Inl UndefinedBehaviour"
    by (simp add: sim_mbuf_def)
qed

end
