(* ===== verification/Gatt.thy ===== *)
theory Gatt
  imports PyLib "HOL-Library.AList"
begin

text \<open>
  The peripheral the mappers test on Linux: the GATT application of
  experiments/targets/LinuxBlueZ\_2, service.py and ble\_peripheral.py, as it appears on the
  D-Bus. Objects live in a store (lists addressed by position), because a characteristic and its
  service refer to each other and the constructor of one changes the counter of the other. Each
  call of \<open>dbus.service.Object.__init__\<close> is recorded with its path in \<open>exported\<close>.
\<close>

section \<open>Names and errors\<close>

definition DBUS_PROP_IFACE :: string where "DBUS_PROP_IFACE = ''org.freedesktop.DBus.Properties''"

definition GATT_SERVICE_IFACE :: string where "GATT_SERVICE_IFACE = ''org.bluez.GattService1''"

definition GATT_CHRC_IFACE :: string where "GATT_CHRC_IFACE = ''org.bluez.GattCharacteristic1''"

definition GATT_DESC_IFACE :: string where "GATT_DESC_IFACE = ''org.bluez.GattDescriptor1''"

datatype dbus_error =
    InvalidArgsException | NotSupportedException | NotPermittedException | PyError exn

text \<open>\<open>str(n)\<close> of an index.\<close>

definition digit :: "nat \<Rightarrow> char" where
  "digit n = char_of (48 + n)"

fun str_nat :: "nat \<Rightarrow> string" where
  "str_nat n = (if n < 10 then [digit n] else str_nat (n div 10) @ [digit (n mod 10)])"

declare str_nat.simps [simp del]

section \<open>Objects\<close>

text \<open>
  What the subclasses of ble\_peripheral.py override is kept as the kind of the object; the LED's
  \<open>val\<close> does not exist before the first write.
\<close>

datatype chrc_kind = PlainChrc | LBSButtonCharacteristic | LBSLEDCharacteristic "byte option"

datatype desc_kind = PlainDesc | LBSButtonDescriptor | LBSLEDDescriptor

record service =
  s_path :: string
  s_uuid :: string
  primary :: bool
  characteristics :: "nat list"
  s_next :: nat

record chrc =
  c_path :: string
  c_uuid :: string
  c_service :: nat
  c_flags :: "string list"
  descriptors :: "nat list"
  c_next :: nat
  c_kind :: chrc_kind

record descriptor =
  d_path :: string
  d_uuid :: string
  d_flags :: "string list"
  d_chrc :: nat
  d_kind :: desc_kind

record gatt =
  services :: "service list"
  chrcs :: "chrc list"
  descs :: "descriptor list"
  app_services :: "nat list"
  exported :: "string list"

text \<open>\<open>Application()\<close>, which exports itself at the root.\<close>

definition application :: gatt where
  "application = \<lparr>services = [], chrcs = [], descs = [], app_services = [], exported = [''/'']\<rparr>"

definition add_service :: "nat \<Rightarrow> gatt \<Rightarrow> gatt" where
  "add_service r g = g\<lparr>app_services := app_services g @ [r]\<rparr>"

section \<open>Services\<close>

definition SERVICE_PATH_BASE :: string where "SERVICE_PATH_BASE = ''/org/bluez/example/service''"

text \<open>A constructor returns the reference of the new object.\<close>

definition new_service :: "nat \<Rightarrow> string \<Rightarrow> bool \<Rightarrow> gatt \<Rightarrow> nat \<times> gatt" where
  "new_service index uuid prim g =
     (let path = SERVICE_PATH_BASE @ str_nat index
      in (length (services g),
          g\<lparr>services := services g @ [\<lparr>s_path = path, s_uuid = uuid, primary = prim,
                                        characteristics = [], s_next = 0\<rparr>],
            exported := exported g @ [path]\<rparr>))"

definition service_next_index :: "service \<Rightarrow> nat \<times> service" where
  "service_next_index s = (s_next s, s\<lparr>s_next := s_next s + 1\<rparr>)"

definition add_characteristic :: "nat \<Rightarrow> nat \<Rightarrow> gatt \<Rightarrow> gatt" where
  "add_characteristic r c g =
     g\<lparr>services := (services g)[r := (services g ! r)
          \<lparr>characteristics := characteristics (services g ! r) @ [c]\<rparr>]\<rparr>"

section \<open>Characteristics and descriptors\<close>

definition new_chrc ::
  "chrc_kind \<Rightarrow> string \<Rightarrow> string list \<Rightarrow> nat \<Rightarrow> gatt \<Rightarrow> nat \<times> gatt"
where
  "new_chrc kind uuid fl r g =
     (case service_next_index (services g ! r) of (index, s) \<Rightarrow>
        let path = s_path s @ ''/char'' @ str_nat index
        in (length (chrcs g),
            g\<lparr>services := (services g)[r := s],
              chrcs := chrcs g @ [\<lparr>c_path = path, c_uuid = uuid, c_service = r, c_flags = fl,
                                   descriptors = [], c_next = 0, c_kind = kind\<rparr>],
              exported := exported g @ [path]\<rparr>))"

definition chrc_next_index :: "chrc \<Rightarrow> nat \<times> chrc" where
  "chrc_next_index c = (c_next c, c\<lparr>c_next := c_next c + 1\<rparr>)"

definition add_descriptor :: "nat \<Rightarrow> nat \<Rightarrow> gatt \<Rightarrow> gatt" where
  "add_descriptor c d g =
     g\<lparr>chrcs := (chrcs g)[c := (chrcs g ! c)\<lparr>descriptors := descriptors (chrcs g ! c) @ [d]\<rparr>]\<rparr>"

definition new_desc ::
  "desc_kind \<Rightarrow> string \<Rightarrow> string list \<Rightarrow> nat \<Rightarrow> gatt \<Rightarrow> nat \<times> gatt"
where
  "new_desc kind uuid fl c g =
     (case chrc_next_index (chrcs g ! c) of (index, ch) \<Rightarrow>
        let path = c_path ch @ ''/desc'' @ str_nat index
        in (length (descs g),
            g\<lparr>chrcs := (chrcs g)[c := ch],
              descs := descs g @ [\<lparr>d_path = path, d_uuid = uuid, d_flags = fl, d_chrc = c,
                                   d_kind = kind\<rparr>],
              exported := exported g @ [path]\<rparr>))"

section \<open>Properties on the bus\<close>

datatype variant =
    PStr string | PBool bool | PStrs "string list" | PPath string | PPaths "string list"

type_synonym props = "(string \<times> variant) list"

definition get_characteristic_paths :: "gatt \<Rightarrow> nat \<Rightarrow> string list" where
  "get_characteristic_paths g r = map (\<lambda>c. c_path (chrcs g ! c)) (characteristics (services g ! r))"

definition get_descriptor_paths :: "gatt \<Rightarrow> nat \<Rightarrow> string list" where
  "get_descriptor_paths g c = map (\<lambda>d. d_path (descs g ! d)) (descriptors (chrcs g ! c))"

definition service_properties :: "gatt \<Rightarrow> nat \<Rightarrow> (string \<times> props) list" where
  "service_properties g r =
     (let s = services g ! r in
      [(GATT_SERVICE_IFACE,
        [(''UUID'', PStr (s_uuid s)), (''Primary'', PBool (primary s)),
         (''Characteristics'', PPaths (get_characteristic_paths g r))])])"

definition chrc_properties :: "gatt \<Rightarrow> nat \<Rightarrow> (string \<times> props) list" where
  "chrc_properties g c =
     (let ch = chrcs g ! c in
      [(GATT_CHRC_IFACE,
        [(''Service'', PPath (s_path (services g ! c_service ch))), (''UUID'', PStr (c_uuid ch)),
         (''Flags'', PStrs (c_flags ch)),
         (''Descriptors'', PPaths (get_descriptor_paths g c))])])"

definition desc_properties :: "gatt \<Rightarrow> nat \<Rightarrow> (string \<times> props) list" where
  "desc_properties g d =
     (let de = descs g ! d in
      [(GATT_DESC_IFACE,
        [(''Characteristic'', PPath (c_path (chrcs g ! d_chrc de))), (''UUID'', PStr (d_uuid de)),
         (''Flags'', PStrs (d_flags de))])])"

text \<open>\<open>GetAll\<close> of the three kinds of objects.\<close>

definition get_all :: "string \<Rightarrow> (string \<times> props) list \<Rightarrow> string \<Rightarrow> dbus_error + props" where
  "get_all own ps interface =
     (if interface \<noteq> own then Inl InvalidArgsException
      else case map_of ps own of Some p \<Rightarrow> Inr p | None \<Rightarrow> Inl (PyError (KeyError own)))"

definition service_GetAll :: "gatt \<Rightarrow> nat \<Rightarrow> string \<Rightarrow> dbus_error + props" where
  "service_GetAll g r = get_all GATT_SERVICE_IFACE (service_properties g r)"

definition chrc_GetAll :: "gatt \<Rightarrow> nat \<Rightarrow> string \<Rightarrow> dbus_error + props" where
  "chrc_GetAll g c = get_all GATT_CHRC_IFACE (chrc_properties g c)"

definition desc_GetAll :: "gatt \<Rightarrow> nat \<Rightarrow> string \<Rightarrow> dbus_error + props" where
  "desc_GetAll g d = get_all GATT_DESC_IFACE (desc_properties g d)"

text \<open>\<open>GetManagedObjects\<close>: a dictionary filled object by object, in this order.\<close>

definition managed_entries :: "gatt \<Rightarrow> (string \<times> (string \<times> props) list) list" where
  "managed_entries g =
     concat (map (\<lambda>r.
       (s_path (services g ! r), service_properties g r) #
       concat (map (\<lambda>c.
         (c_path (chrcs g ! c), chrc_properties g c) #
         map (\<lambda>d. (d_path (descs g ! d), desc_properties g d)) (descriptors (chrcs g ! c)))
       (characteristics (services g ! r)))) (app_services g))"

definition GetManagedObjects :: "gatt \<Rightarrow> (string \<times> (string \<times> props) list) list" where
  "GetManagedObjects g = fold (\<lambda>(k, v) response. AList.update k v response) (managed_entries g) []"

section \<open>Values\<close>

text \<open>
  The value methods without their \<open>options\<close>, which no implementation reads. \<open>dbus.Byte\<close> is a byte;
  a method returns a list of them or a single one.
\<close>

datatype reading = ByteArray bytes | SingleByte byte

definition encode_each :: "string \<Rightarrow> bytes" where
  "encode_each w = map of_char w"

text \<open>The methods of ble\_peripheral.py's classes, and the base classes' methods where they dispatch.\<close>

definition button_ReadValue :: "dbus_error + reading" where
  "button_ReadValue = Inr (ByteArray [0])"

definition led_ReadValue :: "byte option \<Rightarrow> dbus_error + reading" where
  "led_ReadValue v =
     (case v of None \<Rightarrow> Inl (PyError (AttributeError ''val'')) | Some i \<Rightarrow> Inr (SingleByte i))"

definition led_WriteValue :: "bytes \<Rightarrow> dbus_error + byte" where
  "led_WriteValue value = map_sum PyError id (py_index value 0)"

definition chrc_ReadValue :: "gatt \<Rightarrow> nat \<Rightarrow> dbus_error + reading" where
  "chrc_ReadValue g c =
     (case c_kind (chrcs g ! c) of
        PlainChrc \<Rightarrow> Inl NotSupportedException
      | LBSButtonCharacteristic \<Rightarrow> button_ReadValue
      | LBSLEDCharacteristic v \<Rightarrow> led_ReadValue v)"

definition chrc_WriteValue :: "gatt \<Rightarrow> nat \<Rightarrow> bytes \<Rightarrow> dbus_error + gatt" where
  "chrc_WriteValue g c value =
     (case c_kind (chrcs g ! c) of
        LBSLEDCharacteristic _ \<Rightarrow>
          map_sum id (\<lambda>i. g\<lparr>chrcs := (chrcs g)[c := (chrcs g ! c)
                                \<lparr>c_kind := LBSLEDCharacteristic (Some i)\<rparr>]\<rparr>) (led_WriteValue value)
      | _ \<Rightarrow> Inl NotSupportedException)"

definition chrc_StartNotify :: "gatt \<Rightarrow> nat \<Rightarrow> dbus_error + unit" where
  "chrc_StartNotify g c = Inl NotSupportedException"

definition chrc_StopNotify :: "gatt \<Rightarrow> nat \<Rightarrow> dbus_error + unit" where
  "chrc_StopNotify g c = Inl NotSupportedException"

definition button_desc_ReadValue :: "dbus_error + reading" where
  "button_desc_ReadValue = Inr (ByteArray (encode_each ''LBS Button''))"

definition led_desc_ReadValue :: "dbus_error + reading" where
  "led_desc_ReadValue = Inr (ByteArray (encode_each ''LBS LED''))"

definition desc_ReadValue :: "gatt \<Rightarrow> nat \<Rightarrow> dbus_error + reading" where
  "desc_ReadValue g d =
     (case d_kind (descs g ! d) of
        PlainDesc \<Rightarrow> Inl NotSupportedException
      | LBSButtonDescriptor \<Rightarrow> button_desc_ReadValue
      | LBSLEDDescriptor \<Rightarrow> led_desc_ReadValue)"

definition desc_WriteValue :: "gatt \<Rightarrow> nat \<Rightarrow> bytes \<Rightarrow> dbus_error + gatt" where
  "desc_WriteValue g d value = Inl NotSupportedException"

text \<open>
  \<open>CharacteristicUserDescriptionDescriptor\<close>: its constructor uses \<open>array\<close>, which service.py does
  not import. The value methods act on the object's two attributes.
\<close>

definition cud_init :: "string list \<Rightarrow> dbus_error + bool \<times> bytes" where
  "cud_init flags =
     (let writable = ''writable-auxiliaries'' \<in> set flags in Inl (PyError (NameError ''array'')))"

definition cud_ReadValue :: "bool \<times> bytes \<Rightarrow> bytes" where
  "cud_ReadValue o1 = snd o1"

definition cud_WriteValue :: "bool \<times> bytes \<Rightarrow> bytes \<Rightarrow> dbus_error + bool \<times> bytes" where
  "cud_WriteValue o1 value = (if \<not> fst o1 then Inl NotPermittedException else Inr (fst o1, value))"

section \<open>The LED/button application\<close>

definition LBS_UUID :: string where "LBS_UUID = ''00001523-1212-efde-1523-785feabcd123''"

definition BUTTON_UUID :: string where "BUTTON_UUID = ''00001524-1212-efde-1523-785feabcd123''"

definition LED_UUID :: string where "LED_UUID = ''00001524-1212-efde-1523-785feabcd123''"

definition new_button_desc :: "nat \<Rightarrow> gatt \<Rightarrow> nat \<times> gatt" where
  "new_button_desc c = new_desc LBSButtonDescriptor ''2901'' [''read''] c"

definition new_led_desc :: "nat \<Rightarrow> gatt \<Rightarrow> nat \<times> gatt" where
  "new_led_desc c = new_desc LBSLEDDescriptor ''2901'' [''read''] c"

definition new_button :: "nat \<Rightarrow> gatt \<Rightarrow> nat \<times> gatt" where
  "new_button r g =
     (case new_chrc LBSButtonCharacteristic BUTTON_UUID [''read''] r g of (c, g1) \<Rightarrow>
      case new_button_desc c g1 of (d, g2) \<Rightarrow>
        (c, add_descriptor c d g2))"

definition new_led :: "nat \<Rightarrow> gatt \<Rightarrow> nat \<times> gatt" where
  "new_led r g =
     (case new_chrc (LBSLEDCharacteristic None) LED_UUID [''read'', ''write''] r g of (c, g1) \<Rightarrow>
      case new_led_desc c g1 of (d, g2) \<Rightarrow>
        (c, add_descriptor c d g2))"

definition new_LEDButtonService :: "nat \<Rightarrow> gatt \<Rightarrow> nat \<times> gatt" where
  "new_LEDButtonService index g =
     (case new_service index LBS_UUID True g of (r, g1) \<Rightarrow>
      case new_button r g1 of (b, g2) \<Rightarrow>
      let g3 = add_characteristic r b g2 in
      case new_led r g3 of (l, g4) \<Rightarrow> (r, add_characteristic r l g4))"

definition lbs_app :: gatt where
  "lbs_app = (case new_LEDButtonService 0 application of (r, g) \<Rightarrow> add_service r g)"

section \<open>Decimal text\<close>

definition nat_of_str :: "string \<Rightarrow> nat" where
  "nat_of_str w = foldl (\<lambda>n c. 10 * n + (of_char c - 48)) 0 w"

lemma nat_of_str_snoc: "nat_of_str (w @ [c]) = 10 * nat_of_str w + (of_char c - 48)"
  by (simp add: nat_of_str_def)

lemma of_char_digit: "n < 10 \<Longrightarrow> (of_char (digit n) :: nat) = 48 + n"
  by (simp add: digit_def)

lemma nat_of_str_nat: "nat_of_str (str_nat n) = n"
proof (induction n rule: str_nat.induct)
  case (1 n)
  show ?case
  proof (cases "n < 10")
    case True
    then show ?thesis by (simp add: str_nat.simps [of n] nat_of_str_def of_char_digit)
  next
    case False
    with 1 show ?thesis by (simp add: str_nat.simps [of n] nat_of_str_snoc of_char_digit)
  qed
qed

interpretation decimal: codec str_nat nat_of_str "\<lambda>_. True"
  by unfold_locales (simp add: nat_of_str_nat)

lemma digit_not_slash: "n < 10 \<Longrightarrow> CHR ''/'' \<noteq> digit n"
proof
  assume "n < 10" and "CHR ''/'' = digit n"
  moreover have "(of_char (CHR ''/'') :: nat) = 47" by code_simp
  ultimately show False using of_char_digit [of n] by simp
qed

lemma str_nat_not_slash: "CHR ''/'' \<notin> set (str_nat n)"
proof (induction n rule: str_nat.induct)
  case (1 n)
  then show ?case
    by (cases "n < 10") (auto simp: str_nat.simps [of n] digit_not_slash)
qed

section \<open>Object paths\<close>

text \<open>
  What a path says about its object: the service's number, the characteristic's number in the
  service, the descriptor's number in the characteristic.
\<close>

datatype node = Root | ServiceNode nat | ChrcNode nat nat | DescNode nat nat nat

primrec path_of :: "node \<Rightarrow> string" where
  "path_of Root = ''/''"
| "path_of (ServiceNode i) = SERVICE_PATH_BASE @ str_nat i"
| "path_of (ChrcNode i j) = (SERVICE_PATH_BASE @ str_nat i) @ ''/char'' @ str_nat j"
| "path_of (DescNode i j k) =
     ((SERVICE_PATH_BASE @ str_nat i) @ ''/char'' @ str_nat j) @ ''/desc'' @ str_nat k"

definition node_of :: "string \<Rightarrow> node" where
  "node_of w =
     (case map nat_of_str (map2 drop [0, 0, 0, 0, 7, 4, 4] (py_split CHR ''/'' w)) of
        [_, _, _, _, i] \<Rightarrow> ServiceNode i
      | [_, _, _, _, i, j] \<Rightarrow> ChrcNode i j
      | [_, _, _, _, i, j, k] \<Rightarrow> DescNode i j k
      | _ \<Rightarrow> Root)"

lemma split_service:
  "py_split CHR ''/'' (SERVICE_PATH_BASE @ str_nat i @ w) =
     [[], ''org'', ''bluez'', ''example''] @ py_split CHR ''/'' (''service'' @ str_nat i @ w)"
  by (simp add: SERVICE_PATH_BASE_def split: list.split)

lemma split_last: "CHR ''/'' \<notin> set w \<Longrightarrow> py_split CHR ''/'' (w @ str_nat i) = [w @ str_nat i]"
  by (simp add: py_split_plain str_nat_not_slash)

lemma split_next:
  "CHR ''/'' \<notin> set w \<Longrightarrow>
   py_split CHR ''/'' (w @ str_nat i @ CHR ''/'' # v) = (w @ str_nat i) # py_split CHR ''/'' v"
  using py_split_append [of "CHR ''/''" "w @ str_nat i" v] by (simp add: str_nat_not_slash)

interpretation paths: codec path_of node_of "\<lambda>_. True"
proof
  fix x
  note strip = append_Cons append_Nil append_Nil2
  note splits = split_service [simplified strip]
    split_service [where w = "[]", simplified strip]
    split_last [of "''service''", simplified strip] split_next [of "''service''", simplified strip]
    split_last [of "''char''", simplified strip] split_next [of "''char''", simplified strip]
    split_last [of "''desc''", simplified strip]
  have "py_split CHR ''/'' ''/'' = [[], []]" by simp
  then show "node_of (path_of x) = x"
    by (cases x) (simp_all add: node_of_def splits nat_of_str_nat del: py_split.simps)
qed

lemmas path_of_inj [simp] = paths.enc_eq_iff [OF TrueI TrueI]


declare path_of.simps [simp del]

lemma service_path: "SERVICE_PATH_BASE @ str_nat i = path_of (ServiceNode i)"
  and chrc_path: "path_of (ServiceNode i) @ ''/char'' @ str_nat j = path_of (ChrcNode i j)"
  and desc_path: "path_of (ChrcNode i j) @ ''/desc'' @ str_nat k = path_of (DescNode i j k)"
  by (simp_all only: path_of.simps append_assoc)

end
