(* ===== verification/GattObjects.thy ===== *)
theory GattObjects
  imports Gatt "HOL-Library.Multiset"
begin

text \<open>
  What the GATT application of Gatt guarantees: the paths of its objects are distinct exactly if the
  program gives its services different numbers (an invariant of the constructors and methods,
  resting on the contract of the two index counters), GetManagedObjects reports the attached
  objects and no others, and the values of the LED/button peripheral.
\<close>

section \<open>Index supplies\<close>

text \<open>
  \<open>get_next_index\<close> of a service and of a characteristic: each call hands out the counter and
  moves it on. What a client needs of it is that an index it gets was never given before.
\<close>

locale index_supply =
  fixes take_index :: "'o \<Rightarrow> nat \<times> 'o" and counter :: "'o \<Rightarrow> nat"
  assumes taken: "fst (take_index x) = counter x"
    and moved: "counter (snd (take_index x)) = Suc (counter x)"
begin

lemma fresh: "\<forall>j \<in> J. j < counter x \<Longrightarrow> fst (take_index x) \<notin> J"
  by (auto simp: taken)

lemma still_below:
  "\<forall>j \<in> J. j < counter x \<Longrightarrow> j \<in> insert (fst (take_index x)) J \<Longrightarrow> j < counter (snd (take_index x))"
  by (auto simp: taken moved)

end

interpretation chrc_ids: index_supply service_next_index s_next
  by unfold_locales (simp_all add: service_next_index_def)

interpretation desc_ids: index_supply chrc_next_index c_next
  by unfold_locales (simp_all add: chrc_next_index_def)

section \<open>Building an application\<close>

text \<open>
  Everything a program can do to the application: construct objects below objects that exist,
  attach them, and answer writes (\<open>builds\<close>), and construct services, with the numbers it
  chooses; \<open>built is g\<close> says that \<open>is\<close> are the numbers given to the services of \<open>g\<close>, in order.
\<close>

inductive builds :: "gatt \<Rightarrow> gatt \<Rightarrow> bool" where
  chrc: "r < length (services g) \<Longrightarrow> builds g (snd (new_chrc kind u fl r g))"
| desc: "c < length (chrcs g) \<Longrightarrow> builds g (snd (new_desc dkind u fl c g))"
| register: "r < length (services g) \<Longrightarrow> builds g (add_service r g)"
| attach_chrc: "r < length (services g) \<Longrightarrow> c < length (chrcs g) \<Longrightarrow>
    builds g (add_characteristic r c g)"
| attach_desc: "c < length (chrcs g) \<Longrightarrow> d < length (descs g) \<Longrightarrow> builds g (add_descriptor c d g)"
| write_value: "c < length (chrcs g) \<Longrightarrow> chrc_WriteValue g c v = Inr g' \<Longrightarrow> builds g g'"

inductive built :: "nat list \<Rightarrow> gatt \<Rightarrow> bool" where
  start: "built [] application"
| service: "built is g \<Longrightarrow> built (is @ [i]) (snd (new_service i u b g))"
| step: "built is g \<Longrightarrow> builds g h \<Longrightarrow> built is h"

text \<open>The objects carry paths of their kind that are exported, below their counters.\<close>

definition service_ok :: "string set \<Rightarrow> service \<Rightarrow> bool" where
  "service_ok E s \<longleftrightarrow> (\<exists>i. s_path s = path_of (ServiceNode i) \<and> s_path s \<in> E \<and>
     (\<forall>j \<in> {j. path_of (ChrcNode i j) \<in> E}. j < s_next s))"

definition chrc_ok :: "string set \<Rightarrow> chrc \<Rightarrow> bool" where
  "chrc_ok E c \<longleftrightarrow> (\<exists>i j. c_path c = path_of (ChrcNode i j) \<and> c_path c \<in> E \<and>
     (\<forall>k \<in> {k. path_of (DescNode i j k) \<in> E}. k < c_next c))"

definition desc_ok :: "string set \<Rightarrow> descriptor \<Rightarrow> bool" where
  "desc_ok E d \<longleftrightarrow> (\<exists>i j k. d_path d = path_of (DescNode i j k) \<and> d_path d \<in> E)"

definition tree_closed :: "string set \<Rightarrow> bool" where
  "tree_closed E \<longleftrightarrow> (\<forall>i j. path_of (ChrcNode i j) \<in> E \<longrightarrow> path_of (ServiceNode i) \<in> E) \<and>
     (\<forall>i j k. path_of (DescNode i j k) \<in> E \<longrightarrow> path_of (ChrcNode i j) \<in> E)"

definition paths_ok :: "gatt \<Rightarrow> bool" where
  "paths_ok g \<longleftrightarrow> distinct (exported g) \<and> tree_closed (set (exported g)) \<and>
     distinct (map s_path (services g)) \<and> distinct (map c_path (chrcs g)) \<and>
     distinct (map d_path (descs g)) \<and>
     (\<forall>r < length (services g). service_ok (set (exported g)) (services g ! r)) \<and>
     (\<forall>c < length (chrcs g). chrc_ok (set (exported g)) (chrcs g ! c)) \<and>
     (\<forall>d < length (descs g). desc_ok (set (exported g)) (descs g ! d)) \<and>
     (\<forall>i. path_of (ServiceNode i) \<in> set (exported g) \<longrightarrow>
        path_of (ServiceNode i) \<in> set (map s_path (services g)))"

definition refs_ok :: "gatt \<Rightarrow> bool" where
  "refs_ok g \<longleftrightarrow> (\<forall>r \<in> set (app_services g). r < length (services g)) \<and>
     (\<forall>r < length (services g). \<forall>c \<in> set (characteristics (services g ! r)). c < length (chrcs g)) \<and>
     (\<forall>c < length (chrcs g). \<forall>d \<in> set (descriptors (chrcs g ! c)). d < length (descs g))"

lemma map_update_same: "f y = f (xs ! r) \<Longrightarrow> map f (xs[r := y]) = map f xs"
  by (metis list_update_id map_update)

lemma nth_map_distinct:
  "distinct (map f xs) \<Longrightarrow> r < length xs \<Longrightarrow> q < length xs \<Longrightarrow> f (xs ! r) = f (xs ! q) \<longleftrightarrow> r = q"
  by (metis length_map nth_eq_iff_index_eq nth_map)


lemma service_ok_insert:
  "service_ok E s \<Longrightarrow> (\<And>i j. x = ChrcNode i j \<Longrightarrow> s_path s \<noteq> path_of (ServiceNode i)) \<Longrightarrow>
   service_ok (insert (path_of x) E) s"
  unfolding service_ok_def by fastforce

lemma chrc_ok_insert:
  "chrc_ok E c \<Longrightarrow> (\<And>i j k. x = DescNode i j k \<Longrightarrow> c_path c \<noteq> path_of (ChrcNode i j)) \<Longrightarrow>
   chrc_ok (insert (path_of x) E) c"
  unfolding chrc_ok_def by fastforce

lemma desc_ok_insert: "desc_ok E d \<Longrightarrow> desc_ok (insert p E) d"
  unfolding desc_ok_def by blast

lemma paths_in_exported:
  "paths_ok g \<Longrightarrow> set (map s_path (services g)) \<subseteq> set (exported g)"
  "paths_ok g \<Longrightarrow> set (map c_path (chrcs g)) \<subseteq> set (exported g)"
  "paths_ok g \<Longrightarrow> set (map d_path (descs g)) \<subseteq> set (exported g)"
  unfolding paths_ok_def service_ok_def chrc_ok_def desc_ok_def
  by (auto simp: in_set_conv_nth)

lemma paths_ok_new_service:
  assumes ok: "paths_ok g" and new: "path_of (ServiceNode i) \<notin> set (exported g)"
  shows "paths_ok (snd (new_service i u b g))"
proof -
  let ?E = "set (exported g)"
  have closed: "path_of (ChrcNode i j) \<notin> ?E" for j
    using ok new by (auto simp: paths_ok_def tree_closed_def)
  have "path_of (ServiceNode i) \<notin> set (map s_path (services g))"
    using paths_in_exported [OF ok] new by blast
  then show ?thesis
    using ok new closed
    by (auto simp: paths_ok_def new_service_def service_path Let_def tree_closed_def nth_append less_Suc_eq
          intro: service_ok_insert chrc_ok_insert desc_ok_insert)
       (auto simp: service_ok_def)
qed

lemma paths_ok_new_chrc:
  assumes ok: "paths_ok g" and r: "r < length (services g)"
  shows "paths_ok (snd (new_chrc kind u fl r g))"
proof -
  let ?E = "set (exported g)" and ?s = "services g ! r"
  obtain i where i: "s_path ?s = path_of (ServiceNode i)" "s_path ?s \<in> ?E"
      and below: "\<forall>j \<in> {j. path_of (ChrcNode i j) \<in> ?E}. j < s_next ?s"
    using ok r by (auto simp: paths_ok_def service_ok_def)
  let ?j = "fst (service_next_index ?s)" and ?s' = "snd (service_next_index ?s)"
  let ?p = "path_of (ChrcNode i ?j)"
  have new: "?p \<notin> ?E" using chrc_ids.fresh [OF below] by simp
  have no_desc: "path_of (DescNode i ?j k) \<notin> ?E" for k
    using ok new unfolding paths_ok_def tree_closed_def by blast
  have s': "s_path ?s' = s_path ?s" by (simp add: service_next_index_def)
  have services': "map s_path ((services g)[r := ?s']) = map s_path (services g)"
    using s' by (rule map_update_same)
  have s_ok: "service_ok (insert ?p ?E) ((services g)[r := ?s'] ! q)"
    if q: "q < length (services g)" for q
  proof (cases "q = r")
    case True
    have "{j. path_of (ChrcNode i j) \<in> insert ?p ?E} \<subseteq> insert ?j {j. path_of (ChrcNode i j) \<in> ?E}"
      by auto
    then have "\<forall>j \<in> {j. path_of (ChrcNode i j) \<in> insert ?p ?E}. j < s_next ?s'"
      using chrc_ids.still_below [OF below] by blast
    with True q i s' show ?thesis unfolding service_ok_def by (intro exI [of _ i]) simp
  next
    case False
    then have "s_path (services g ! q) \<noteq> s_path ?s"
      using ok r q by (simp add: paths_ok_def nth_map_distinct)
    with False ok q i show ?thesis by (auto simp: paths_ok_def intro: service_ok_insert)
  qed
  let ?c = "\<lparr>c_path = ?p, c_uuid = u, c_service = r, c_flags = fl, descriptors = [],
             c_next = 0, c_kind = kind\<rparr>"
  have h: "snd (new_chrc kind u fl r g) =
      g\<lparr>services := (services g)[r := ?s'], chrcs := chrcs g @ [?c], exported := exported g @ [?p]\<rparr>"
    by (simp add: new_chrc_def case_prod_beta Let_def s' i(1) flip: chrc_path)
  have "chrc_ok (insert ?p ?E) ?c" using no_desc by (auto simp: chrc_ok_def)
  moreover have "?p \<notin> set (map c_path (chrcs g))" using paths_in_exported [OF ok] new by blast
  ultimately show ?thesis
    using ok new i s_ok services' unfolding paths_ok_def h
    by (auto simp: tree_closed_def nth_append less_Suc_eq intro: chrc_ok_insert desc_ok_insert)
qed

lemma paths_ok_new_desc:
  assumes ok: "paths_ok g" and c: "c < length (chrcs g)"
  shows "paths_ok (snd (new_desc kind u fl c g))"
proof -
  let ?E = "set (exported g)" and ?c = "chrcs g ! c"
  obtain i j where ij: "c_path ?c = path_of (ChrcNode i j)" "c_path ?c \<in> ?E"
      and below: "\<forall>k \<in> {k. path_of (DescNode i j k) \<in> ?E}. k < c_next ?c"
    using ok c by (auto simp: paths_ok_def chrc_ok_def)
  let ?k = "fst (chrc_next_index ?c)" and ?c' = "snd (chrc_next_index ?c)"
  let ?p = "path_of (DescNode i j ?k)"
  have new: "?p \<notin> ?E" using desc_ids.fresh [OF below] by simp
  have c': "c_path ?c' = c_path ?c" by (simp add: chrc_next_index_def)
  have chrcs': "map c_path ((chrcs g)[c := ?c']) = map c_path (chrcs g)"
    using c' by (rule map_update_same)
  have c_ok: "chrc_ok (insert ?p ?E) ((chrcs g)[c := ?c'] ! q)" if q: "q < length (chrcs g)" for q
  proof (cases "q = c")
    case True
    have "{k. path_of (DescNode i j k) \<in> insert ?p ?E} \<subseteq>
        insert ?k {k. path_of (DescNode i j k) \<in> ?E}" by auto
    then have "\<forall>k \<in> {k. path_of (DescNode i j k) \<in> insert ?p ?E}. k < c_next ?c'"
      using desc_ids.still_below [OF below] by blast
    with True q ij c' show ?thesis
      unfolding chrc_ok_def by (intro exI [of _ i] exI [of _ j]) simp
  next
    case False
    then have "c_path (chrcs g ! q) \<noteq> c_path ?c"
      using ok c q by (simp add: paths_ok_def nth_map_distinct)
    with False ok q ij show ?thesis by (auto simp: paths_ok_def intro: chrc_ok_insert)
  qed
  let ?d = "\<lparr>d_path = ?p, d_uuid = u, d_flags = fl, d_chrc = c, d_kind = kind\<rparr>"
  have h: "snd (new_desc kind u fl c g) =
      g\<lparr>chrcs := (chrcs g)[c := ?c'], descs := descs g @ [?d], exported := exported g @ [?p]\<rparr>"
    by (simp add: new_desc_def case_prod_beta Let_def c' ij(1) flip: desc_path)
  have "desc_ok (insert ?p ?E) ?d" by (auto simp: desc_ok_def)
  moreover have "?p \<notin> set (map d_path (descs g))" using paths_in_exported [OF ok] new by blast
  ultimately show ?thesis
    using ok new ij c_ok chrcs' unfolding paths_ok_def h
    by (auto simp: tree_closed_def nth_append less_Suc_eq intro: service_ok_insert desc_ok_insert)
qed

text \<open>The other operations leave the paths and the counters as they are.\<close>

lemma service_ok_cong: "s_path t = s_path s \<Longrightarrow> s_next t = s_next s \<Longrightarrow> service_ok E t = service_ok E s"
  by (simp add: service_ok_def)

lemma chrc_ok_cong: "c_path t = c_path s \<Longrightarrow> c_next t = c_next s \<Longrightarrow> chrc_ok E t = chrc_ok E s"
  by (simp add: chrc_ok_def)

lemma paths_ok_update_service:
  assumes "paths_ok g" and "s_path s = s_path (services g ! r)" and "s_next s = s_next (services g ! r)"
  shows "paths_ok (g\<lparr>services := (services g)[r := s]\<rparr>)"
  using assms service_ok_cong [OF assms(2,3)] unfolding paths_ok_def
  by (cases "r < length (services g)") (auto simp: map_update_same nth_list_update)

lemma paths_ok_update_chrc:
  assumes "paths_ok g" and "c_path s = c_path (chrcs g ! r)" and "c_next s = c_next (chrcs g ! r)"
  shows "paths_ok (g\<lparr>chrcs := (chrcs g)[r := s]\<rparr>)"
  using assms chrc_ok_cong [OF assms(2,3)] unfolding paths_ok_def
  by (cases "r < length (chrcs g)") (auto simp: map_update_same nth_list_update)

lemma write_value_cases:
  assumes "chrc_WriteValue g c v = Inr h"
  obtains b where "h = g\<lparr>chrcs := (chrcs g)[c := (chrcs g ! c)\<lparr>c_kind := LBSLEDCharacteristic (Some b)\<rparr>]\<rparr>"
    "v \<noteq> []" "b = hd v"
  using assms unfolding chrc_WriteValue_def
  by (auto split: chrc_kind.splits if_splits simp: led_WriteValue_def py_index_def hd_conv_nth)

lemma builds_paths_ok: "builds g h \<Longrightarrow> paths_ok g \<Longrightarrow> paths_ok h"
proof (induction rule: builds.induct)
  case (write_value c g v g')
  then show ?case by (auto elim!: write_value_cases intro!: paths_ok_update_chrc)
next
  case (register r g)
  then show ?case by (simp add: add_service_def paths_ok_def)
qed (auto simp: paths_ok_new_service paths_ok_new_chrc paths_ok_new_desc add_characteristic_def
       add_descriptor_def intro!: paths_ok_update_service paths_ok_update_chrc)

lemma refs_ok_new_service: "refs_ok g \<Longrightarrow> refs_ok (snd (new_service i u b g))"
  by (auto simp: refs_ok_def new_service_def Let_def nth_append less_Suc_eq)

lemma builds_refs_ok: "builds g h \<Longrightarrow> refs_ok g \<Longrightarrow> refs_ok h"
proof (induction rule: builds.induct)
  case (chrc r g kind u fl)
  then show ?case
    by (auto simp: refs_ok_def new_chrc_def case_prod_beta Let_def service_next_index_def
          nth_append nth_list_update less_Suc_eq)
next
  case (desc c g dkind u fl)
  then show ?case
    by (auto simp: refs_ok_def new_desc_def case_prod_beta Let_def chrc_next_index_def
          nth_append nth_list_update less_Suc_eq)
next
  case (write_value c g v g')
  then show ?case by (auto elim!: write_value_cases simp: refs_ok_def nth_list_update split: if_splits)
qed (auto simp: refs_ok_def add_service_def add_characteristic_def add_descriptor_def
       nth_list_update)

lemma distinct_mset_subset:
  assumes "mset xs \<subseteq># mset ys" and "distinct ys"
  shows "distinct xs"
proof -
  have "count (mset xs) a \<le> 1" for a
    using mset_subset_eq_count [OF assms(1), of a] assms(2)
    by (cases "a \<in> set ys") (auto simp: distinct_count_atmost_1 count_mset_0_iff [THEN iffD2])
  then show ?thesis
    unfolding distinct_count_atmost_1 by (metis One_nat_def Suc_leI count_mset_0_iff le_antisym not_gr_zero)
qed

text \<open>The services carry the paths of their numbers, and each was exported.\<close>

definition service_paths :: "nat list \<Rightarrow> gatt \<Rightarrow> bool" where
  "service_paths is g \<longleftrightarrow> map s_path (services g) = map (\<lambda>i. path_of (ServiceNode i)) is \<and>
     mset (map s_path (services g)) \<subseteq># mset (exported g)"

lemma builds_services:
  "builds g h \<Longrightarrow> map s_path (services h) = map s_path (services g) \<and> mset (exported g) \<subseteq># mset (exported h)"
proof (induction rule: builds.induct)
  case (write_value c g v g')
  then show ?case by (auto elim!: write_value_cases)
qed (auto simp: new_chrc_def new_desc_def case_prod_beta Let_def service_next_index_def chrc_next_index_def
       add_service_def add_characteristic_def add_descriptor_def map_update_same)

lemma built_services: "built is g \<Longrightarrow> service_paths is g \<and> refs_ok g"
proof (induction rule: built.induct)
  case start
  then show ?case by (simp add: service_paths_def application_def refs_ok_def)
next
  case (service "is" g i u b)
  then have "mset (map (\<lambda>i. path_of (ServiceNode i)) is) \<subseteq># mset (exported g)"
    by (metis service_paths_def)
  with service show ?case
    by (simp add: service_paths_def refs_ok_new_service)
       (simp add: new_service_def service_path Let_def)
next
  case (step "is" g h)
  then show ?case
    using builds_services [of g h] builds_refs_ok [of g h] unfolding service_paths_def
    by (metis subset_mset.trans)
qed

lemma built_ok: "built is g \<Longrightarrow> distinct is \<Longrightarrow> paths_ok g \<and> refs_ok g"
proof (induction rule: built.induct)
  case start
  have "path_of x \<noteq> ''/''" if "x \<noteq> Root" for x
    using that path_of_inj [of x Root] by (simp add: path_of.simps(1))
  then show ?case
    by (auto simp: application_def paths_ok_def refs_ok_def tree_closed_def)
next
  case (service "is" g i u b)
  then have ok: "paths_ok g" "refs_ok g" and "i \<notin> set is" by simp_all
  moreover have "map s_path (services g) = map (\<lambda>i. path_of (ServiceNode i)) is"
    using built_services [OF service.hyps] by (simp add: service_paths_def)
  ultimately have "path_of (ServiceNode i) \<notin> set (exported g)" by (auto simp: paths_ok_def)
  with ok show ?case by (simp add: paths_ok_new_service refs_ok_new_service)
qed (auto simp: builds_paths_ok builds_refs_ok)

text \<open>The hypothesis of the properties below.\<close>

definition well_built :: "gatt \<Rightarrow> bool" where
  "well_built g \<longleftrightarrow> (\<exists>is. built is g \<and> distinct is)"

lemma well_built_ok: "well_built g \<Longrightarrow> paths_ok g \<and> refs_ok g"
  using built_ok by (auto simp: well_built_def)

lemma distinct_paths:
  assumes "built is g"
  shows "distinct (exported g) \<longleftrightarrow> distinct is"
proof
  assume "distinct (exported g)"
  moreover have S: "service_paths is g" using built_services [OF assms] by simp
  ultimately have "distinct (map s_path (services g))"
    using distinct_mset_subset unfolding service_paths_def by blast
  with S show "distinct is" by (simp add: service_paths_def distinct_map)
next
  assume "distinct is"
  with built_ok [OF assms] show "distinct (exported g)" by (simp add: paths_ok_def)
qed

section \<open>The objects the application reports\<close>

text \<open>A dictionary filled entry by entry holds, for each key, the value all its entries agree on.\<close>

lemma map_of_fold_update:
  "map_of (fold (\<lambda>(k, v) m. AList.update k v m) es acc) = map_of acc ++ map_of (rev es)"
  by (induction es arbitrary: acc) (auto simp: update_conv' fun_eq_iff map_add_def split: option.split)

lemma map_of_agree:
  assumes "(p, v) \<in> set es" and "\<And>w. (p, w) \<in> set es \<Longrightarrow> w = v"
  shows "map_of es p = Some v"
  using assms by (metis map_of_SomeD map_of_eq_None_iff not_None_eq fst_conv image_eqI)

lemma map_of_managed:
  assumes "(p, v) \<in> set (managed_entries g)"
    and "\<And>w. (p, w) \<in> set (managed_entries g) \<Longrightarrow> w = v"
  shows "map_of (GetManagedObjects g) p = Some v"
proof -
  have "map_of (rev (managed_entries g)) p = Some v"
    by (rule map_of_agree) (auto intro: assms)
  then show ?thesis by (simp add: GetManagedObjects_def map_of_fold_update)
qed

text \<open>Every entry is one of an object of the store, under its own path.\<close>

definition store_entries :: "gatt \<Rightarrow> (string \<times> (string \<times> props) list) set" where
  "store_entries g =
     {(s_path (services g ! r), service_properties g r) | r. r < length (services g)} \<union>
     {(c_path (chrcs g ! c), chrc_properties g c) | c. c < length (chrcs g)} \<union>
     {(d_path (descs g ! d), desc_properties g d) | d. d < length (descs g)}"

lemma managed_in_store: "refs_ok g \<Longrightarrow> set (managed_entries g) \<subseteq> store_entries g"
  by (auto simp: managed_entries_def store_entries_def refs_ok_def; blast)

lemma kinds_differ:
  assumes "paths_ok g"
  shows "r < length (services g) \<Longrightarrow> c < length (chrcs g) \<Longrightarrow>
      s_path (services g ! r) \<noteq> c_path (chrcs g ! c)"
    and "r < length (services g) \<Longrightarrow> d < length (descs g) \<Longrightarrow>
      s_path (services g ! r) \<noteq> d_path (descs g ! d)"
    and "c < length (chrcs g) \<Longrightarrow> d < length (descs g) \<Longrightarrow>
      c_path (chrcs g ! c) \<noteq> d_path (descs g ! d)"
  using assms unfolding paths_ok_def service_ok_def chrc_ok_def desc_ok_def by fastforce+

lemma store_unique:
  assumes ok: "paths_ok g" and "(p, v) \<in> store_entries g" and "(p, w) \<in> store_entries g"
  shows "w = v"
proof -
  have "r = q" if "s_path (services g ! r) = s_path (services g ! q)"
      "r < length (services g)" "q < length (services g)" for r q
    using ok that nth_map_distinct [of s_path] by (auto simp: paths_ok_def)
  moreover have "r = q" if "c_path (chrcs g ! r) = c_path (chrcs g ! q)"
      "r < length (chrcs g)" "q < length (chrcs g)" for r q
    using ok that nth_map_distinct [of c_path] by (auto simp: paths_ok_def)
  moreover have "r = q" if "d_path (descs g ! r) = d_path (descs g ! q)"
      "r < length (descs g)" "q < length (descs g)" for r q
    using ok that nth_map_distinct [of d_path] by (auto simp: paths_ok_def)
  ultimately show ?thesis
    using assms(2,3) kinds_differ [OF ok] unfolding store_entries_def
    by (elim UnE CollectE exE conjE) (simp, metis)+
qed

lemma managed_lookup:
  assumes "well_built g" and "(p, v) \<in> set (managed_entries g)"
  shows "map_of (GetManagedObjects g) p = Some v"
  using map_of_managed [OF assms(2)] well_built_ok [OF assms(1)] managed_in_store store_unique assms(2)
  by (meson subsetD)

lemma managed_keys: "fst ` set (GetManagedObjects g) = fst ` set (managed_entries g)"
proof -
  have "dom (map_of (GetManagedObjects g)) = dom (map_of (rev (managed_entries g)))"
    by (simp add: GetManagedObjects_def map_of_fold_update)
  then show ?thesis by (simp add: dom_map_of_conv_image_fst)
qed

lemma root_not_in_store: "paths_ok g \<Longrightarrow> (p, v) \<in> store_entries g \<Longrightarrow> p \<in> set (exported g) \<and> p \<noteq> ''/''"
  using path_of_inj [of Root] path_of.simps(1)
  by (fastforce simp: store_entries_def paths_ok_def service_ok_def chrc_ok_def desc_ok_def)

text \<open>The attached objects: services of the application, characteristics attached to one of them,
  descriptors attached to one of those.\<close>

definition attached_chrcs :: "gatt \<Rightarrow> nat set" where
  "attached_chrcs g = (\<Union>r \<in> set (app_services g). set (characteristics (services g ! r)))"

definition attached_descs :: "gatt \<Rightarrow> nat set" where
  "attached_descs g = (\<Union>c \<in> attached_chrcs g. set (descriptors (chrcs g ! c)))"

lemma managed_paths:
  "fst ` set (managed_entries g) =
     (\<lambda>r. s_path (services g ! r)) ` set (app_services g) \<union>
     (\<lambda>c. c_path (chrcs g ! c)) ` attached_chrcs g \<union> (\<lambda>d. d_path (descs g ! d)) ` attached_descs g"
  by (simp add: managed_entries_def attached_chrcs_def attached_descs_def image_Un image_UN image_image)
     blast

lemma managed_reports:
  assumes "well_built g"
  shows "r \<in> set (app_services g) \<Longrightarrow>
      map_of (GetManagedObjects g) (s_path (services g ! r)) = Some (service_properties g r)"
    and "c \<in> attached_chrcs g \<Longrightarrow>
      map_of (GetManagedObjects g) (c_path (chrcs g ! c)) = Some (chrc_properties g c)"
    and "d \<in> attached_descs g \<Longrightarrow>
      map_of (GetManagedObjects g) (d_path (descs g ! d)) = Some (desc_properties g d)"
  by (force intro!: managed_lookup [OF assms] simp: managed_entries_def attached_chrcs_def attached_descs_def)+

text \<open>An object that is not attached has a path of its own, so it is not reported.\<close>

lemma attached_in_store:
  assumes "refs_ok g"
  shows "r \<in> set (app_services g) \<Longrightarrow> r < length (services g)"
    and "c \<in> attached_chrcs g \<Longrightarrow> c < length (chrcs g)"
    and "d \<in> attached_descs g \<Longrightarrow> d < length (descs g)"
  using assms by (auto simp: refs_ok_def attached_chrcs_def attached_descs_def) blast+

lemma unattached_unreported:
  assumes "well_built g"
  shows "map_of (GetManagedObjects g) ''/'' = None"
    and "r < length (services g) \<Longrightarrow> r \<notin> set (app_services g) \<Longrightarrow>
      map_of (GetManagedObjects g) (s_path (services g ! r)) = None"
    and "c < length (chrcs g) \<Longrightarrow> c \<notin> attached_chrcs g \<Longrightarrow>
      map_of (GetManagedObjects g) (c_path (chrcs g ! c)) = None"
    and "d < length (descs g) \<Longrightarrow> d \<notin> attached_descs g \<Longrightarrow>
      map_of (GetManagedObjects g) (d_path (descs g ! d)) = None"
proof -
  have ok: "paths_ok g" "refs_ok g" using well_built_ok [OF assms] by simp_all
  note in_store = attached_in_store [OF ok(2)]
  have none: "map_of (GetManagedObjects g) p = None" if "p \<notin> fst ` set (managed_entries g)" for p
    using that managed_keys [of g] by (simp add: map_of_eq_None_iff)
  note differ = kinds_differ [OF ok(1)]
  have same: "distinct (map s_path (services g))" "distinct (map c_path (chrcs g))"
      "distinct (map d_path (descs g))"
    using ok(1) by (simp_all add: paths_ok_def)
  show "map_of (GetManagedObjects g) ''/'' = None"
  proof (rule none, rule notI)
    assume "''/'' \<in> fst ` set (managed_entries g)"
    then obtain v where "(''/'', v) \<in> store_entries g"
      using managed_in_store [OF ok(2)] by (auto elim!: imageE)
    then show False using root_not_in_store [OF ok(1)] by blast
  qed
  have unreported: "map_of (GetManagedObjects g) p = None"
    if "\<And>q. q \<in> set (app_services g) \<Longrightarrow> s_path (services g ! q) \<noteq> p"
      "\<And>q. q \<in> attached_chrcs g \<Longrightarrow> c_path (chrcs g ! q) \<noteq> p"
      "\<And>q. q \<in> attached_descs g \<Longrightarrow> d_path (descs g ! q) \<noteq> p" for p
    using that by (intro none) (unfold managed_paths, blast)
  show "map_of (GetManagedObjects g) (s_path (services g ! r)) = None"
    if r: "r < length (services g)" "r \<notin> set (app_services g)"
  proof (rule unreported)
    show "s_path (services g ! q) \<noteq> s_path (services g ! r)" if "q \<in> set (app_services g)" for q
      using nth_map_distinct [OF same(1) in_store(1) [OF that] r(1)] that r(2) by blast
  qed (use differ r in_store in metis)+
  show "map_of (GetManagedObjects g) (c_path (chrcs g ! c)) = None"
    if c: "c < length (chrcs g)" "c \<notin> attached_chrcs g"
  proof (rule unreported)
    show "c_path (chrcs g ! q) \<noteq> c_path (chrcs g ! c)" if "q \<in> attached_chrcs g" for q
      using nth_map_distinct [OF same(2) in_store(2) [OF that] c(1)] that c(2) by blast
  qed (use differ c in_store in metis)+
  show "map_of (GetManagedObjects g) (d_path (descs g ! d)) = None"
    if d: "d < length (descs g)" "d \<notin> attached_descs g"
  proof (rule unreported)
    show "d_path (descs g ! q) \<noteq> d_path (descs g ! d)" if "q \<in> attached_descs g" for q
      using nth_map_distinct [OF same(3) in_store(3) [OF that] d(1)] that d(2) by blast
  qed (use differ d in_store in metis)+
qed

lemma managed_distinct: "distinct (map fst (GetManagedObjects g))"
proof -
  have "distinct (map fst (fold (\<lambda>(k, v) m. AList.update k v m) es acc))"
    if "distinct (map fst acc)" for es :: "(string \<times> (string \<times> props) list) list" and acc
    using that by (induction es arbitrary: acc) (auto simp: distinct_update)
  then show ?thesis by (simp add: GetManagedObjects_def)
qed

section \<open>The LED/button peripheral\<close>

text \<open>The constructors, as steps that give a reference to a new object.\<close>

lemma built_service:
  "new_service i u b g = (r, h) \<Longrightarrow> built is g \<Longrightarrow>
   built (is @ [i]) h \<and> r < length (services h) \<and> r = length (services g)"
  using built.service [of "is" g i u b] by (auto simp: new_service_def Let_def)

lemma built_chrc:
  "new_chrc kind u fl r g = (c, h) \<Longrightarrow> built is g \<Longrightarrow> r < length (services g) \<Longrightarrow>
   built is h \<and> length (services h) = length (services g) \<and> length (chrcs h) = Suc c"
  using built.step [OF _ builds.chrc, of "is" g r kind u fl]
  by (auto simp: new_chrc_def Let_def split: prod.splits)

lemma built_desc:
  "new_desc kind u fl c g = (d, h) \<Longrightarrow> built is g \<Longrightarrow> c < length (chrcs g) \<Longrightarrow>
   built is h \<and> length (services h) = length (services g) \<and> length (chrcs h) = length (chrcs g) \<and>
   length (descs h) = Suc d"
  using built.step [OF _ builds.desc, of "is" g c kind u fl]
  by (auto simp: new_desc_def Let_def split: prod.splits)

lemma built_add_descriptor:
  "built is g \<Longrightarrow> c < length (chrcs g) \<Longrightarrow> d < length (descs g) \<Longrightarrow>
   built is (add_descriptor c d g) \<and> length (services (add_descriptor c d g)) = length (services g) \<and>
   length (chrcs (add_descriptor c d g)) = length (chrcs g)"
  using built.step [OF _ builds.attach_desc, of "is" g c d] by (simp add: add_descriptor_def)

lemma built_add_characteristic:
  "built is g \<Longrightarrow> r < length (services g) \<Longrightarrow> c < length (chrcs g) \<Longrightarrow>
   built is (add_characteristic r c g) \<and>
   length (services (add_characteristic r c g)) = length (services g)"
  using built.step [OF _ builds.attach_chrc, of "is" g r c] by (simp add: add_characteristic_def)

lemma built_button:
  assumes "new_button r g = (c, h)" and "built is g" and "r < length (services g)"
  shows "built is h \<and> length (services h) = length (services g) \<and> c < length (chrcs h)"
  using assms unfolding new_button_def new_button_desc_def
  by (auto split: prod.splits dest!: built_chrc built_desc simp: built_add_descriptor)

lemma built_led:
  assumes "new_led r g = (c, h)" and "built is g" and "r < length (services g)"
  shows "built is h \<and> length (services h) = length (services g) \<and> c < length (chrcs h)"
  using assms unfolding new_led_def new_led_desc_def
  by (auto split: prod.splits dest!: built_chrc built_desc simp: built_add_descriptor)

lemma built_LEDButtonService:
  assumes new: "new_LEDButtonService i g = (r, h)" and g: "built is g"
  shows "built (is @ [i]) h \<and> r < length (services h)"
proof -
  obtain g1 b g2 l g4 where g1: "new_service i LBS_UUID True g = (r, g1)" and g2: "new_button r g1 = (b, g2)"
    and g4: "new_led r (add_characteristic r b g2) = (l, g4)" and h: "h = add_characteristic r l g4"
    using new by (auto simp: new_LEDButtonService_def Let_def split: prod.splits)
  note 1 = built_service [OF g1 g]
  note 2 = built_button [OF g2, of "is @ [i]"]
  note 3 = built_add_characteristic [of "is @ [i]" g2 r b]
  note 4 = built_led [OF g4, of "is @ [i]"]
  note 5 = built_add_characteristic [of "is @ [i]" g4 r l]
  from 1 2 3 4 5 show ?thesis by (simp add: h)
qed

lemma built_lbs_app: "built [0] lbs_app"
  using built_LEDButtonService [of 0 application _ _ "[]"] built.start
  by (auto simp: lbs_app_def split: prod.splits intro: built.step builds.register)

lemma well_built_lbs_app: "well_built lbs_app"
  using built_lbs_app by (auto simp: well_built_def)

lemma desc_path_flat:
  "path_of (ServiceNode i) @ ''/char'' @ str_nat j @ ''/desc'' @ str_nat k = path_of (DescNode i j k)"
  by (simp only: path_of.simps append_assoc)

lemmas node_paths = service_path chrc_path [simplified] desc_path [simplified] desc_path_flat [simplified]

lemma lbs_app_eq:
  "lbs_app =
     \<lparr>services = [\<lparr>s_path = path_of (ServiceNode 0), s_uuid = LBS_UUID, primary = True,
                    characteristics = [0, 1], s_next = 2\<rparr>],
      chrcs = [\<lparr>c_path = path_of (ChrcNode 0 0), c_uuid = BUTTON_UUID, c_service = 0,
                 c_flags = [''read''], descriptors = [0], c_next = 1, c_kind = LBSButtonCharacteristic\<rparr>,
               \<lparr>c_path = path_of (ChrcNode 0 1), c_uuid = LED_UUID, c_service = 0,
                 c_flags = [''read'', ''write''], descriptors = [1], c_next = 1,
                 c_kind = LBSLEDCharacteristic None\<rparr>],
      descs = [\<lparr>d_path = path_of (DescNode 0 0 0), d_uuid = ''2901'', d_flags = [''read''],
                 d_chrc = 0, d_kind = LBSButtonDescriptor\<rparr>,
               \<lparr>d_path = path_of (DescNode 0 1 0), d_uuid = ''2901'', d_flags = [''read''],
                 d_chrc = 1, d_kind = LBSLEDDescriptor\<rparr>],
      app_services = [0],
      exported = map path_of [Root, ServiceNode 0, ChrcNode 0 0, DescNode 0 0 0, ChrcNode 0 1,
                   DescNode 0 1 0]\<rparr>"
  by (simp add: lbs_app_def new_LEDButtonService_def new_service_def new_button_def new_led_def new_button_desc_def new_led_desc_def
      new_chrc_def new_desc_def add_characteristic_def add_descriptor_def add_service_def
      service_next_index_def chrc_next_index_def application_def path_of.simps(1) node_paths
      Let_def eval_nat_numeral)

section \<open>Properties\<close>

text \<open>C36: Two objects of an application are exported under the same path exactly if the program has
  given the same number to two services (what D-Bus does with the second one is not modelled).
  Whatever else it constructs, attaches and writes, the numbers that services and characteristics
  hand out keep the paths apart.\<close>

theorem exported_distinct: "built is g \<Longrightarrow> distinct (exported g) \<longleftrightarrow> distinct is"
  by (rule distinct_paths)

theorem exported_distinct_witness:
  "distinct (exported lbs_app) \<and>
   \<not> distinct (exported (snd (new_service 0 LBS_UUID True lbs_app)))"
proof -
  have "built [0, 0] (snd (new_service 0 LBS_UUID True lbs_app))"
    using built.service [OF built_lbs_app] by simp
  from exported_distinct [OF this] exported_distinct [OF built_lbs_app] show ?thesis by simp
qed

text \<open>C37: In an application whose services have different numbers, GetManagedObjects reports exactly the
  attached objects, each once: every service of the application, every characteristic attached
  to one and every descriptor attached to one of those, each with its current properties; under
  no other path anything is reported, so neither an object that is not attached nor the application itself.\<close>

theorem managed_objects_report:
  assumes "built is g" and "distinct is"
  shows "(\<forall>r \<in> set (app_services g).
      map_of (GetManagedObjects g) (s_path (services g ! r)) = Some (service_properties g r) \<and>
      (\<forall>c \<in> set (characteristics (services g ! r)).
        map_of (GetManagedObjects g) (c_path (chrcs g ! c)) = Some (chrc_properties g c) \<and>
        (\<forall>d \<in> set (descriptors (chrcs g ! c)).
          map_of (GetManagedObjects g) (d_path (descs g ! d)) = Some (desc_properties g d)))) \<and>
    fst ` set (GetManagedObjects g) =
      (\<lambda>r. s_path (services g ! r)) ` set (app_services g) \<union>
      (\<lambda>c. c_path (chrcs g ! c)) ` attached_chrcs g \<union> (\<lambda>d. d_path (descs g ! d)) ` attached_descs g \<and>
    distinct (map fst (GetManagedObjects g)) \<and>
    map_of (GetManagedObjects g) ''/'' = None \<and>
    (\<forall>r < length (services g). r \<notin> set (app_services g) \<longrightarrow>
      map_of (GetManagedObjects g) (s_path (services g ! r)) = None) \<and>
    (\<forall>c < length (chrcs g). c \<notin> attached_chrcs g \<longrightarrow>
      map_of (GetManagedObjects g) (c_path (chrcs g ! c)) = None) \<and>
    (\<forall>d < length (descs g). d \<notin> attached_descs g \<longrightarrow>
      map_of (GetManagedObjects g) (d_path (descs g ! d)) = None)"
proof -
  have g: "well_built g" using assms by (auto simp: well_built_def)
  have below: "c \<in> attached_chrcs g" if "r \<in> set (app_services g)" "c \<in> set (characteristics (services g ! r))" for r c
    using that by (auto simp: attached_chrcs_def)
  have below2: "d \<in> attached_descs g" if "c \<in> attached_chrcs g" "d \<in> set (descriptors (chrcs g ! c))" for c d
    using that by (auto simp: attached_descs_def)
  show ?thesis
  proof (intro conjI ballI allI impI)
    show "map_of (GetManagedObjects g) (d_path (descs g ! d)) = Some (desc_properties g d)"
      if "r \<in> set (app_services g)" "c \<in> set (characteristics (services g ! r))"
        "d \<in> set (descriptors (chrcs g ! c))" for r c d
      by (rule managed_reports(3) [OF g below2 [OF below [OF that(1,2)] that(3)]])
    show "fst ` set (GetManagedObjects g) =
      (\<lambda>r. s_path (services g ! r)) ` set (app_services g) \<union>
      (\<lambda>c. c_path (chrcs g ! c)) ` attached_chrcs g \<union> (\<lambda>d. d_path (descs g ! d)) ` attached_descs g"
      by (rule trans [OF managed_keys managed_paths])
  qed (rule managed_reports(1) [OF g] managed_reports(2) [OF g below] managed_distinct
        unattached_unreported [OF g]; assumption)+
qed

theorem managed_objects_report_witness:
  "map_of (GetManagedObjects lbs_app) (s_path (services lbs_app ! 0)) =
     Some (service_properties lbs_app 0) \<and> map_of (GetManagedObjects lbs_app) ''/'' = None"
proof -
  have "0 \<in> set (app_services lbs_app)" "distinct [0 :: nat]" by (simp_all add: lbs_app_eq)
  with managed_objects_report [OF built_lbs_app] show ?thesis by blast
qed

text \<open>The LED/button peripheral reports exactly the five objects below its root, in the order
  in which they were exported: the service, and its two characteristics with their descriptions.
  Both characteristics carry the same UUID.\<close>

theorem lbs_objects:
  "map fst (GetManagedObjects lbs_app) = tl (exported lbs_app) \<and>
   exported lbs_app = map path_of [Root, ServiceNode 0, ChrcNode 0 0, DescNode 0 0 0,
     ChrcNode 0 1, DescNode 0 1 0] \<and>
   map c_uuid (chrcs lbs_app) = [BUTTON_UUID, BUTTON_UUID]"
  by (simp add: lbs_app_eq GetManagedObjects_def managed_entries_def BUTTON_UUID_def LED_UUID_def)

text \<open>The LED's value. Reading it raises an AttributeError until it has been written; a write
  that carries a byte is answered by later reads of this characteristic, and changes no
  other's and nothing BlueZ is told about the objects; a write without data raises an IndexError.\<close>

theorem led_value:
  assumes "c < length (chrcs g)" and "c_kind (chrcs g ! c) = LBSLEDCharacteristic v"
  shows "(v = None \<longrightarrow> chrc_ReadValue g c = Inl (PyError (AttributeError ''val''))) \<and>
    chrc_WriteValue g c [] = Inl (PyError IndexError) \<and>
    (\<exists>h. chrc_WriteValue g c (b # bs) = Inr h \<and>
      chrc_ReadValue h c = Inr (SingleByte b) \<and>
      (\<forall>q. q \<noteq> c \<longrightarrow> chrc_ReadValue h q = chrc_ReadValue g q) \<and>
      GetManagedObjects h = GetManagedObjects g)"
proof -
  define h where "h = g\<lparr>chrcs := (chrcs g)[c := (chrcs g ! c)
      \<lparr>c_kind := LBSLEDCharacteristic (Some b)\<rparr>]\<rparr>"
  have ch: "chrcs h ! q =
      (if q = c then (chrcs g ! c)\<lparr>c_kind := LBSLEDCharacteristic (Some b)\<rparr> else chrcs g ! q)" for q
    using assms(1) by (simp add: h_def)
  have fields: "c_path (chrcs h ! q) = c_path (chrcs g ! q)"
    "c_uuid (chrcs h ! q) = c_uuid (chrcs g ! q)" "c_service (chrcs h ! q) = c_service (chrcs g ! q)"
    "c_flags (chrcs h ! q) = c_flags (chrcs g ! q)"
    "descriptors (chrcs h ! q) = descriptors (chrcs g ! q)" for q
    by (simp_all add: ch)
  have rest: "services h = services g" "descs h = descs g" "app_services h = app_services g"
    by (simp_all add: h_def)
  have "service_properties h = service_properties g" "chrc_properties h = chrc_properties g"
    "desc_properties h = desc_properties g"
    by (simp_all add: fun_eq_iff service_properties_def chrc_properties_def desc_properties_def
        get_characteristic_paths_def get_descriptor_paths_def fields rest Let_def)
  then have "GetManagedObjects h = GetManagedObjects g"
    by (simp add: GetManagedObjects_def managed_entries_def fields rest)
  moreover have "chrc_WriteValue g c (b # bs) = Inr h"
    using assms(2) by (simp add: chrc_WriteValue_def led_WriteValue_def py_index_def h_def)
  moreover have "chrc_ReadValue h c = Inr (SingleByte b)"
    and "\<forall>q. q \<noteq> c \<longrightarrow> chrc_ReadValue h q = chrc_ReadValue g q"
    by (simp_all add: chrc_ReadValue_def led_ReadValue_def ch)
  ultimately show ?thesis
    using assms(2) by (auto simp: chrc_ReadValue_def chrc_WriteValue_def led_ReadValue_def led_WriteValue_def
        py_index_def)
qed

theorem led_value_witness:
  "chrc_ReadValue lbs_app 1 = Inl (PyError (AttributeError ''val'')) \<and>
   (\<exists>h. chrc_WriteValue lbs_app 1 [1, 0] = Inr h \<and> chrc_ReadValue h 1 = Inr (SingleByte 1))"
proof -
  have "1 < length (chrcs lbs_app)" "c_kind (chrcs lbs_app ! 1) = LBSLEDCharacteristic None"
    by (simp_all add: lbs_app_eq)
  from led_value [OF this, of 1 "[0]"] show ?thesis by blast
qed

definition reported :: "gatt \<Rightarrow> string \<Rightarrow> string \<Rightarrow> props option" where
  "reported g path interface =
     (case map_of (GetManagedObjects g) path of
        None \<Rightarrow> None | Some ps \<Rightarrow> map_of ps interface)"

text \<open>C38: The two views of an object agree: in an application whose services have different numbers,
  what GetAll answers for the own interface of an attached service, characteristic or descriptor is
  what GetManagedObjects reports under its path and this interface. For every other interface
  GetAll raises InvalidArgs.\<close>

theorem get_all_agrees:
  assumes "built is g" and "distinct is"
  shows "(r \<in> set (app_services g) \<longrightarrow> (case service_GetAll g r i of
            Inl e \<Rightarrow> e = InvalidArgsException \<and> i \<noteq> GATT_SERVICE_IFACE
          | Inr p \<Rightarrow> reported g (s_path (services g ! r)) i = Some p)) \<and>
    (c \<in> attached_chrcs g \<longrightarrow> (case chrc_GetAll g c i of
            Inl e \<Rightarrow> e = InvalidArgsException \<and> i \<noteq> GATT_CHRC_IFACE
          | Inr p \<Rightarrow> reported g (c_path (chrcs g ! c)) i = Some p)) \<and>
    (d \<in> attached_descs g \<longrightarrow> (case desc_GetAll g d i of
            Inl e \<Rightarrow> e = InvalidArgsException \<and> i \<noteq> GATT_DESC_IFACE
          | Inr p \<Rightarrow> reported g (d_path (descs g ! d)) i = Some p))"
proof -
  have g: "well_built g" using assms by (auto simp: well_built_def)
  show ?thesis
    using managed_reports [OF g]
    by (auto simp: reported_def service_GetAll_def chrc_GetAll_def desc_GetAll_def get_all_def
        service_properties_def chrc_properties_def desc_properties_def Let_def)
qed

theorem get_all_agrees_witness:
  "(case chrc_GetAll lbs_app 1 GATT_CHRC_IFACE of
      Inl e \<Rightarrow> False
    | Inr p \<Rightarrow> reported lbs_app (c_path (chrcs lbs_app ! 1)) GATT_CHRC_IFACE = Some p) \<and>
   (\<exists>p. desc_GetAll lbs_app 1 GATT_DESC_IFACE = Inr p)"
proof -
  have "distinct [0 :: nat]" "1 \<in> attached_chrcs lbs_app" "1 \<in> attached_descs lbs_app"
    by (simp_all add: lbs_app_eq attached_chrcs_def attached_descs_def)
  with get_all_agrees [OF built_lbs_app, of 0 GATT_CHRC_IFACE 1 1]
    get_all_agrees [OF built_lbs_app, of 0 GATT_DESC_IFACE 1 1] show ?thesis
    by (auto split: sum.splits)
qed

end
