(* ===== verification/Advert.thy ===== *)
theory Advert
  imports Gatt
begin

text \<open>
  The advertisement of the Linux peripheral (advertisement.py), the search for an adapter
  (bletools.py), and the start of ble\_peripheral.py, which registers application and advertisement.
\<close>

section \<open>The adapter\<close>

definition LE_ADVERTISING_MANAGER_IFACE :: string where
  "LE_ADVERTISING_MANAGER_IFACE = ''org.bluez.LEAdvertisingManager1''"

text \<open>\<open>find_adapter\<close> of bletools.py, on the objects BlueZ answers with.\<close>

fun find_adapter :: "(string \<times> string list) list \<Rightarrow> string option" where
  "find_adapter [] = None"
| "find_adapter ((o1, props) # objects) =
     (if LE_ADVERTISING_MANAGER_IFACE \<in> set props then Some o1 else find_adapter objects)"

text \<open>\<open>power_adapter\<close> calls a method the class does not have.\<close>

definition power_adapter :: "exn + unit" where
  "power_adapter = Inl (AttributeError ''get_adapter'')"

section \<open>Advertisements\<close>

definition LE_ADVERTISEMENT_IFACE :: string where
  "LE_ADVERTISEMENT_IFACE = ''org.bluez.LEAdvertisement1''"

definition ADV_PATH_BASE :: string where "ADV_PATH_BASE = ''/org/bluez/example/advertisement''"

record advertisement =
  a_path :: string
  ad_type :: string
  local_name :: "string option"
  service_uuids :: "string list option"
  solicit_uuids :: "string list option"
  manufacturer_data :: "(int \<times> bytes) list option"
  service_data :: "(string \<times> bytes) list option"
  include_tx_power :: "bool option"

datatype ad_value =
    AdStr string | AdStrs "string list" | AdCodes "(int \<times> bytes) list"
  | AdData "(string \<times> bytes) list" | AdBool bool

definition new_advertisement :: "nat \<Rightarrow> string \<Rightarrow> advertisement" where
  "new_advertisement index advertising_type =
     \<lparr>a_path = ADV_PATH_BASE @ str_nat index, ad_type = advertising_type, local_name = None,
      service_uuids = None, solicit_uuids = None, manufacturer_data = None, service_data = None,
      include_tx_power = None\<rparr>"

text \<open>\<open>if x is not None: properties[k] = f(x)\<close>.\<close>

definition put_opt :: "string \<Rightarrow> ('b \<Rightarrow> ad_value) \<Rightarrow> 'b option \<Rightarrow>
    (string \<times> ad_value) list \<Rightarrow> (string \<times> ad_value) list" where
  "put_opt k f x ps = (case x of None \<Rightarrow> ps | Some v \<Rightarrow> AList.update k (f v) ps)"

definition ad_properties :: "advertisement \<Rightarrow> (string \<times> (string \<times> ad_value) list) list" where
  "ad_properties a =
     (let p0 = [(''Type'', AdStr (ad_type a))];
          p1 = put_opt ''LocalName'' AdStr (local_name a) p0;
          p2 = put_opt ''ServiceUUIDs'' AdStrs (service_uuids a) p1;
          p3 = put_opt ''SolicitUUIDs'' AdStrs (solicit_uuids a) p2;
          p4 = put_opt ''ManufacturerData'' AdCodes (manufacturer_data a) p3;
          p5 = put_opt ''ServiceData'' AdData (service_data a) p4;
          p6 = put_opt ''IncludeTxPower'' AdBool (include_tx_power a) p5;
          p7 = put_opt ''LocalName'' AdStr (local_name a) p6
      in [(LE_ADVERTISEMENT_IFACE, p7)])"

text \<open>\<open>if not x: x = []\<close>, then the appended or assigned element.\<close>

definition or_empty :: "'a list option \<Rightarrow> 'a list" where
  "or_empty x = (case x of None \<Rightarrow> [] | Some xs \<Rightarrow> xs)"

definition add_service_uuid :: "string \<Rightarrow> advertisement \<Rightarrow> advertisement" where
  "add_service_uuid uuid a = a\<lparr>service_uuids := Some (or_empty (service_uuids a) @ [uuid])\<rparr>"

definition add_solicit_uuid :: "string \<Rightarrow> advertisement \<Rightarrow> advertisement" where
  "add_solicit_uuid uuid a = a\<lparr>solicit_uuids := Some (or_empty (solicit_uuids a) @ [uuid])\<rparr>"

definition add_manufacturer_data :: "int \<Rightarrow> bytes \<Rightarrow> advertisement \<Rightarrow> advertisement" where
  "add_manufacturer_data manuf_code data a =
     a\<lparr>manufacturer_data := Some (AList.update manuf_code data (or_empty (manufacturer_data a)))\<rparr>"

definition add_service_data :: "string \<Rightarrow> bytes \<Rightarrow> advertisement \<Rightarrow> advertisement" where
  "add_service_data uuid data a =
     a\<lparr>service_data := Some (AList.update uuid data (or_empty (service_data a)))\<rparr>"

definition add_local_name :: "string \<Rightarrow> advertisement \<Rightarrow> advertisement" where
  "add_local_name name a = a\<lparr>local_name := Some name\<rparr>"

text \<open>advertisement.py does not import \<open>InvalidArgsException\<close>, which its \<open>GetAll\<close> raises.\<close>

definition ad_GetAll :: "advertisement \<Rightarrow> string \<Rightarrow> exn + (string \<times> ad_value) list" where
  "ad_GetAll a interface =
     (if interface \<noteq> LE_ADVERTISEMENT_IFACE then Inl (NameError ''InvalidArgsException'')
      else case map_of (ad_properties a) LE_ADVERTISEMENT_IFACE of
        Some ps \<Rightarrow> Inr ps | None \<Rightarrow> Inl (KeyError LE_ADVERTISEMENT_IFACE))"

section \<open>The start of the peripheral\<close>

definition LBSAdvertisement :: "nat \<Rightarrow> advertisement" where
  "LBSAdvertisement index =
     (add_local_name ''LBS'' (new_advertisement index ''peripheral''))\<lparr>include_tx_power := Some True\<rparr>"

text \<open>
  A registration is a call on the adapter found, carrying the object's path. What D-Bus does with
  no adapter is not modelled: the call then has no receiver.
\<close>

datatype bus_call = RegisterApplication "string option" string | RegisterAdvertisement "string option" string

definition register_application :: "(string \<times> string list) list \<Rightarrow> bus_call" where
  "register_application objects = RegisterApplication (find_adapter objects) ''/''"

definition register_advertisement :: "(string \<times> string list) list \<Rightarrow> advertisement \<Rightarrow> bus_call" where
  "register_advertisement objects a = RegisterAdvertisement (find_adapter objects) (a_path a)"

definition peripheral_start ::
  "(string \<times> string list) list \<Rightarrow> (string \<times> string list) list \<Rightarrow> gatt \<times> advertisement \<times> bus_call list"
where
  "peripheral_start objects objects' =
     (let app = lbs_app; adv = LBSAdvertisement 0
      in (app, adv, [register_application objects, register_advertisement objects' adv]))"

section \<open>Properties\<close>

text \<open>The first object, in BlueZ's order, that can advertise; None exactly when there is none.\<close>

lemma find_adapter_first:
  "find_adapter objects = (case dropWhile (\<lambda>(_, ifs). LE_ADVERTISING_MANAGER_IFACE \<notin> set ifs) objects of
     [] \<Rightarrow> None | (a, _) # _ \<Rightarrow> Some a)"
  by (induction objects rule: find_adapter.induct) auto


lemma put_opt_Some: "put_opt k f (Some v) ps = AList.update k (f v) ps"
  and put_opt_None: "put_opt k f None ps = ps"
  by (simp_all add: put_opt_def)

lemma map_of_put_opt:
  "map_of (put_opt k f x ps) =
     (\<lambda>k'. if k' = k then (case x of None \<Rightarrow> map_of ps k | Some v \<Rightarrow> Some (f v)) else map_of ps k')"
  by (auto simp: put_opt_def update_conv' fun_eq_iff split: option.split)

lemma distinct_put_opt [simp]: "distinct (map fst ps) \<Longrightarrow> distinct (map fst (put_opt k f x ps))"
  by (simp add: put_opt_def distinct_update split: option.split)

lemma or_empty_Some [simp]: "or_empty (Some xs) = xs"
  by (simp add: or_empty_def)

text \<open>C39: An advertisement's properties are exactly these: the type always, each other attribute exactly
  when it has been set, under its own key and no other, and no key twice. For any other interface
  GetAll does not answer InvalidArgs but fails with a NameError.\<close>

theorem ad_properties_spec:
  "(\<exists>ps. ad_GetAll a LE_ADVERTISEMENT_IFACE = Inr ps \<and> distinct (map fst ps) \<and>
     (\<forall>k. map_of ps k =
        (if k = ''Type'' then Some (AdStr (ad_type a))
         else if k = ''LocalName'' then map_option AdStr (local_name a)
         else if k = ''ServiceUUIDs'' then map_option AdStrs (service_uuids a)
         else if k = ''SolicitUUIDs'' then map_option AdStrs (solicit_uuids a)
         else if k = ''ManufacturerData'' then map_option AdCodes (manufacturer_data a)
         else if k = ''ServiceData'' then map_option AdData (service_data a)
         else if k = ''IncludeTxPower'' then map_option AdBool (include_tx_power a)
         else None))) \<and>
   (i \<noteq> LE_ADVERTISEMENT_IFACE \<longrightarrow> ad_GetAll a i = Inl (NameError ''InvalidArgsException''))"
proof (intro conjI exI impI allI)
  show "ad_GetAll a LE_ADVERTISEMENT_IFACE = Inr (snd (hd (ad_properties a)))"
    by (simp add: ad_GetAll_def ad_properties_def Let_def)
  show "distinct (map fst (snd (hd (ad_properties a))))"
    by (simp add: ad_properties_def Let_def)
qed (auto simp: ad_GetAll_def ad_properties_def Let_def map_of_put_opt split: option.split)

theorem ad_properties_spec_witness:
  "ad_GetAll (LBSAdvertisement 0) DBUS_PROP_IFACE = Inl (NameError ''InvalidArgsException'')"
proof -
  have "DBUS_PROP_IFACE \<noteq> LE_ADVERTISEMENT_IFACE"
    by (simp add: DBUS_PROP_IFACE_def LE_ADVERTISEMENT_IFACE_def)
  with ad_properties_spec [of "LBSAdvertisement 0" DBUS_PROP_IFACE] show ?thesis by blast
qed

text \<open>What is added to an advertisement is what it advertises: service and solicited UUIDs in the
  order they were added, behind those there before, and for each manufacturer code and service the
  data added last. With nothing added an attribute stays as it was.\<close>

theorem ad_added:
  "service_uuids (fold add_service_uuid us a) =
     (if us = [] then service_uuids a else Some (or_empty (service_uuids a) @ us)) \<and>
   solicit_uuids (fold add_solicit_uuid us a) =
     (if us = [] then solicit_uuids a else Some (or_empty (solicit_uuids a) @ us)) \<and>
   map_of (or_empty (manufacturer_data (fold (\<lambda>(c, d). add_manufacturer_data c d) ms a))) =
     map_of (or_empty (manufacturer_data a)) ++ map_of (rev ms) \<and>
   map_of (or_empty (service_data (fold (\<lambda>(u, d). add_service_data u d) ds a))) =
     map_of (or_empty (service_data a)) ++ map_of (rev ds)"
proof (intro conjI)
  show "service_uuids (fold add_service_uuid us a) =
      (if us = [] then service_uuids a else Some (or_empty (service_uuids a) @ us))"
    by (induction us arbitrary: a) (auto simp: add_service_uuid_def or_empty_def)
  show "solicit_uuids (fold add_solicit_uuid us a) =
      (if us = [] then solicit_uuids a else Some (or_empty (solicit_uuids a) @ us))"
    by (induction us arbitrary: a) (auto simp: add_solicit_uuid_def or_empty_def)
  show "map_of (or_empty (manufacturer_data (fold (\<lambda>(c, d). add_manufacturer_data c d) ms a))) =
      map_of (or_empty (manufacturer_data a)) ++ map_of (rev ms)"
    by (induction ms arbitrary: a)
       (auto simp: add_manufacturer_data_def update_conv')
  show "map_of (or_empty (service_data (fold (\<lambda>(u, d). add_service_data u d) ds a))) =
      map_of (or_empty (service_data a)) ++ map_of (rev ds)"
    by (induction ds arbitrary: a) (auto simp: add_service_data_def update_conv')
qed

end
