(* ===== verification/Peripheral.thy ===== *)
theory Peripheral
  imports PyLib
begin

text \<open>
  The Linux peripheral built on the \<open>bluez\_peripheral\<close> package
  (\<open>src/experiments/targets/LinuxBlueZ/ble\_peripheral.py\<close>): its one service, and \<open>main\<close>, which
  registers it, starts the advertisement and then serves for ever. The package and the bus are
  parameters.
\<close>

section \<open>The service\<close>

datatype char_flag = ENCRYPT_READ

record 'opt char_def =
  ch_uuid :: string
  ch_flag :: char_flag
  ch_get :: "'opt \<Rightarrow> bytes"

record 'opt service_def =
  sv_uuid :: string
  sv_primary :: bool
  sv_chars :: "'opt char_def list"

definition button_characteristic :: "'opt \<Rightarrow> bytes" where
  "button_characteristic options = [0]"

text \<open>The class: the arguments of \<open>super().__init__\<close> and the decorated method.\<close>

definition LBSService :: "'opt service_def" where
  "LBSService =
     \<lparr>sv_uuid = ''00001523-1212-efde-1523-785feabcd123'', sv_primary = True,
      sv_chars = [\<lparr>ch_uuid = ''00001524-1212-efde-1523-785feabcd123'', ch_flag = ENCRYPT_READ,
                   ch_get = button_characteristic\<rparr>]\<rparr>"

text \<open>\<open>Advertisement(name, uuids, appearance, timeout)\<close>\<close>

record advert =
  av_name :: string
  av_uuids :: "string list"
  av_appearance :: int
  av_timeout :: int

section \<open>The package\<close>

text \<open>What \<open>main\<close> calls: \<open>get_message_bus\<close>, \<open>Service.register\<close>, \<open>NoIoAgent().register\<close>,
  \<open>Adapter.get_first\<close>, \<open>Advertisement.register\<close>, \<open>asyncio.sleep\<close> and \<open>wait_for_disconnect\<close>.\<close>

record ('w, 'bus, 'ad, 'opt) bluez =
  get_message_bus :: "('w, 'bus) comp"
  service_register :: "'opt service_def \<Rightarrow> 'bus \<Rightarrow> ('w, unit) comp"
  agent_register :: "'bus \<Rightarrow> ('w, unit) comp"
  adapter_get_first :: "'bus \<Rightarrow> ('w, 'ad) comp"
  advert_register :: "advert \<Rightarrow> 'bus \<Rightarrow> 'ad \<Rightarrow> ('w, unit) comp"
  asyncio_sleep :: "rat \<Rightarrow> ('w, unit) comp"
  wait_for_disconnect :: "'bus \<Rightarrow> ('w, unit) comp"

section \<open>The program\<close>

text \<open>\<open>while True: await asyncio.sleep(5)\<close>; the fuel bounds the turns.\<close>

fun serve :: "('w, 'bus, 'ad, 'opt) bluez \<Rightarrow> nat \<Rightarrow> ('w, unit) comp" where
  "serve B 0 = (\<lambda>w. NoRet)"
| "serve B (Suc n) = thenM (asyncio_sleep B 5) (serve B n)"

definition start_up :: "('w, 'bus, 'ad, 'opt) bluez \<Rightarrow> ('w, 'bus) comp" where
  "start_up B =
     bindM (get_message_bus B) (\<lambda>bus.
     thenM (service_register B LBSService bus)
     (thenM (agent_register B bus)
     (bindM (adapter_get_first B bus) (\<lambda>adapter.
     thenM (advert_register B \<lparr>av_name = ''LBS'',
              av_uuids = [''00001523-1212-efde-1523-785feabcd123''],
              av_appearance = 0x0080, av_timeout = 0\<rparr> bus adapter)
     (unitM bus)))))"

definition main :: "('w, 'bus, 'ad, 'opt) bluez \<Rightarrow> nat \<Rightarrow> ('w, unit) comp" where
  "main B fuel = bindM (start_up B) (\<lambda>bus. thenM (serve B fuel) (wait_for_disconnect B bus))"

section \<open>The loop never ends of itself\<close>

lemma serve_no_Ret: "serve B n w \<noteq> Ret u w'"
  by (induction n arbitrary: w) (simp_all add: thenM_eq_Ret)

lemma serve_sleeping:
  assumes "\<And>w. \<exists>w'. asyncio_sleep B 5 w = Ret () w'"
  shows "serve B n w = NoRet"
proof (induction n arbitrary: w)
  case (Suc n)
  obtain w' where "asyncio_sleep B 5 w = Ret () w'" using assms by blast
  with Suc show ?case by (simp add: thenM_def bindM_def)
qed simp

section \<open>Property\<close>

text \<open>The bus is never waited for. Once the service, the agent and the advertisement are registered,
  \<open>main\<close> sleeps for ever: no number of turns ends it, and what \<open>wait_for_disconnect\<close> would do,
  the last line of \<open>main\<close>, has no influence. Where the start fails, \<open>main\<close> raises what the
  failing call raised.\<close>

theorem main_serves:
  assumes "\<And>w. \<exists>w'. asyncio_sleep B 5 w = Ret () w'"
  shows "main B n w = (case start_up B w of Ret bus w' \<Rightarrow> NoRet | Raise e w' \<Rightarrow> Raise e w' | NoRet \<Rightarrow> NoRet) \<and>
    main (B\<lparr>wait_for_disconnect := f\<rparr>) n w = main B n w"
proof -
  have start: "start_up (B\<lparr>wait_for_disconnect := f\<rparr>) = start_up B" by (simp add: start_up_def)
  have sleep: "\<exists>w'. asyncio_sleep (B\<lparr>wait_for_disconnect := f\<rparr>) 5 w = Ret () w'" for w
    using assms by simp
  show ?thesis
    by (cases "start_up B w")
       (simp_all add: main_def start bindM_def thenM_def serve_sleeping [OF assms]
         serve_sleeping [OF sleep])
qed

text \<open>A bus that writes down what is asked of it.\<close>

definition trace_bus :: "(string list, unit, unit, unit) bluez" where
  "trace_bus =
     \<lparr>get_message_bus = Ret (),
      service_register = (\<lambda>s b w. Ret () (w @ [''service '' @ sv_uuid s])),
      agent_register = (\<lambda>b w. Ret () (w @ [''agent''])),
      adapter_get_first = (\<lambda>b. Ret ()),
      advert_register = (\<lambda>a b ad w. Ret () (w @ [''advert '' @ av_name a])),
      asyncio_sleep = (\<lambda>t. Ret ()),
      wait_for_disconnect = (\<lambda>b. Ret ())\<rparr>"

theorem main_serves_witness:
  "start_up trace_bus [] =
     Ret () [''service 00001523-1212-efde-1523-785feabcd123'', ''agent'', ''advert LBS''] \<and>
   main trace_bus 7 [] = NoRet"
proof -
  have s: "start_up trace_bus [] =
     Ret () [''service 00001523-1212-efde-1523-785feabcd123'', ''agent'', ''advert LBS'']"
    by (simp add: start_up_def trace_bus_def LBSService_def thenM_def bindM_def unitM_def)
  then show ?thesis using main_serves [of trace_bus 7 "[]"] by (simp add: trace_bus_def)
qed

text \<open>Advertising comes last. Suppose that registering the service makes \<open>ready\<close> true of the
  world, that registering the agent makes \<open>paired\<close> true, and that no later call takes either back.
  Then the advertisement is only ever registered where both hold: refusing it anywhere else
  changes nothing. A central that sees the peripheral can find the service and pair.\<close>

theorem advert_last:
  assumes "\<And>b w w'. service_register B LBSService b w = Ret () w' \<Longrightarrow> ready w'"
    and "\<And>b w w'. agent_register B b w = Ret () w' \<Longrightarrow> ready w \<Longrightarrow> ready w' \<and> paired w'"
    and "\<And>b a w w'. adapter_get_first B b w = Ret a w' \<Longrightarrow> ready w \<and> paired w \<Longrightarrow> ready w' \<and> paired w'"
  shows "main (B\<lparr>advert_register := \<lambda>ad b a w.
      if ready w \<and> paired w then advert_register B ad b a w else Raise e w\<rparr>) n w = main B n w"
proof -
  let ?B = "B\<lparr>advert_register := \<lambda>ad b a w.
      if ready w \<and> paired w then advert_register B ad b a w else Raise e w\<rparr>"
  have "start_up ?B w = start_up B w"
    using assms
    by (auto simp: start_up_def bindM_def thenM_def split: res.split)
  moreover have "serve ?B n = serve B n" by (induction n) simp_all
  ultimately show ?thesis by (simp add: main_def bindM_def)
qed

theorem advert_last_witness:
  "\<forall>w. main (trace_bus\<lparr>advert_register := \<lambda>ad b a w.
      if ''service 00001523-1212-efde-1523-785feabcd123'' \<in> set w \<and> ''agent'' \<in> set w
      then advert_register trace_bus ad b a w else Raise ValueError w\<rparr>) 3 w = main trace_bus 3 w"
  by (rule allI, rule advert_last) (auto simp: trace_bus_def LBSService_def)

end
