(* ===== verification/Spec2Isabelle.thy ===== *)
theory Spec2Isabelle
  imports FrontEnd TestApp Lbs Mbuf GattObjects Advert Peripheral
begin

text \<open>
  A development beside ble-fuzzer, which learns the state machine of a Bluetooth Low Energy
  peripheral. The learner calls \<open>pre\<close>, \<open>step\<close> and \<open>post\<close> of SulBLE.java, which passes each call as a piece of
  source text to a mapper (Python, py/). The mapper turns each input symbol into packets, talks to
  the peripheral through a serial dongle, and turns the packets that come back into an output symbol.
  The peripherals under test are in the repository too (experiments/targets/).

  \<^bold>\<open>Parts and theories.\<close>
  \<^item> Prelude, PyLib: computations that pass the state, raise, or do not return; the relational rules
    for invariants; what the code uses of Python (slices, \<open>struct\<close>, hexadecimal text, \<open>split\<close>,
    \<open>join\<close>), with \<open>codec\<close>, the contract of encoders and decoders.
  \<^item> Packets, World: packets as stacks of layers with fields; the record \<open>env\<close> of everything outside
    the repository (clock, random numbers, pyserial, scapy, AES, the SMP server) and its documented
    behaviour as predicates (\<open>clock_ok\<close>, \<open>serial_ok\<close>, \<open>ccm_ok\<close>, \<open>world_halts\<close>). Sim is a small
    instance on which the witnesses run.
  \<^item> Driver: class NRF52 of py/NRF52\_Driver.py (frames, checksum, pcap header, reset).
  \<^item> State, Symbols, Link, Receive, Steps, Session: class BLESUL of py/BLESUL.py. State has the
    attributes and the packets table; Symbols \<open>output_symbol\<close> and \<open>filter_symbol\<close>; Link \<open>send\<close>, the
    decryption of \<open>receive\<close>, \<open>is_target\<close>, \<open>fix_packet\<close>, \<open>smp_process\<close>, \<open>reset_device\<close>; Receive
    \<open>is_rsp_complete\<close> and the receive loop; Steps the methods of single symbols; Session \<open>reset\<close>,
    \<open>step\<close>, the retries and \<open>close\<close>.
  \<^item> Mappers: the eight subclasses in py/BLESUL\_*.py, as a table from the class to its methods.
  \<^item> Ending, Answering, Endless: when the runs of a class come back; Answering has what a frame is
    read as and which packets the BlueZ class answers. Reach: the states that any sequence of calls
    of a constructed mapper can lead to, and what holds in all of them. Query: a whole question, and
    how many retries it may contain. FrontEnd: SulBLE.java and its alphabets, the texts it builds
    and the runs of the mapper they are read as.
  \<^item> Gatt, GattObjects, Advert: the peripheral of experiments/targets/LinuxBlueZ\_2 on the D-Bus
    (service.py, ble\_peripheral.py, advertisement.py, bletools.py). Peripheral: the one of
    experiments/targets/LinuxBlueZ.
  \<^item> Fifo, Bridge, Handover, Mbuf: the serial bridge of the NimBLE target, in C
    (psf\_bridge/include/fifo.h and src/ble\_phy.c). Peer: the bridge and the mapper, which are the
    two ends of the serial line. TestApp: the application that runs on that target
    (apps/testapp/src/main.c, and psf\_bridge/src/ble\_hw.c). Lbs: the target on the nRF52840
    (targets/nRF52840/src/main.c and lbs.c).

  \<^bold>\<open>State and effects.\<close> An object's attributes are a record (\<open>dstate\<close>, extended to \<open>sul\<close>; what \<open>reset\<close>
  assigns is \<open>conn\<close>, absent before the first one). A method is a computation on it; every exception
  keeps the assignments made before. Dynamic method lookup (\<open>hasattr(self, name)\<close>) is the record
  \<open>cls\<close> of a class's methods. Console output is left out. Times are rational numbers where Python
  has floats. D-Bus objects live in a store and refer to each other by position. Integers of the C
  code have their width; the counters of the Python code are unbounded.

  \<^bold>\<open>Lemmas.\<close> Every state relation that the operations respect is one instance of \<open>driver_frame\<close>,
  \<open>mapper_frame\<close>, \<open>step_frame\<close>, \<open>reset_frame\<close> or \<open>run_frame\<close>: an operation is shown once, in the locale,
  to be made of allowed steps; the interpretations (well-formedness, configuration, symbols table,
  keys, clock, the peer's questions, the recorded pauses) give the invariants. \<open>timed_stop\<close> and
  \<open>limited_stop\<close> state what makes a stop heuristic end the receive loop, \<open>mapper_class\<close> and
  \<open>ending_class\<close> what a class's methods must keep for whole steps; all are met by the classes of the
  code. \<open>index_supply\<close> and \<open>bounded_queue\<close> are the contracts of the GATT index counters and of the
  ring buffer. Properties: whole runs and questions (C1, C2, C17-C19, C22) and what holds after
  any sequence of calls (C6, C15, C16, C20, C21); when they come back (C3, C26, C27); the serial
  line (C8, C30, C31) and the encrypted link (C9-C11, C28, C29) with its peer (C4, C5); responses
  and symbols (C12-C14); the security manager's address (C40); the bridge's buffer and receiving
  task (C7, C32-C35); the targets' applications (C23-C25); the D-Bus application (C36-C39).

  \<^bold>\<open>Fuel.\<close> Loops that wait for the outside world take fuel; running out is \<open>NoRet\<close>, which is also
  the value of a call that never comes back. A turn of the receive loop takes at least a hundredth
  of a second, so a hundred times the longest waiting time (and one) is enough fuel for a step or
  a reset of every class without a packet handler (C3), and for the other one so much for each
  question of the peer and once more (C26); a retry needs at most seven attempts. C27 and
  \<open>reset_device_stuck\<close> are the cases in which no fuel is enough. The loops of the bridge's receiving
  task and those of the NimBLE application's random numbers are partial functions without fuel:
  \<open>None\<close> is not coming back (C23, C32-C34).

  \<^bold>\<open>Not modelled.\<close> The Java classes that only hand the mapper and its alphabets to the external
  learner (builders, symbol classes, command line), the learner itself and jep; the firmware of the
  Pico and Arduino targets, scripts, configurations and saved models; scapy, pyserial, pycryptodome,
  tinycrypt, D-Bus, bluez\_peripheral, NimBLE, Zephyr and the SMP server, which are parameters;
  printing, including the tracebacks of \<open>pre\<close> and \<open>step\<close>; in the bridge the functions that do nothing
  or return a constant, the callback at the end of \<open>ble_phy_tx\<close> and the rescheduling patch.
\<close>

section \<open>Whole runs\<close>

text \<open>C2: One step, one symbol. When a step of any mapper class returns, then (with whatever retry it
  needed) exactly the input symbol was appended to the input sequence, the output sequence has
  the same length, no retry is left running, the settings are what they were, and the answer is
  the last recorded output symbol, filtered.\<close>

theorem step_records:
  assumes "\<not> is_retry_running s" and "length (output_sequence s) = length (input_sequence s)"
    and "step X (mapper X fuel f) fuel i s = Ret answer t"
  shows "input_sequence t = input_sequence s @ [i] \<and>
    length (output_sequence t) = length (input_sequence t) \<and> \<not> is_retry_running t \<and>
    conf_rel s t \<and>
    answer = filter_symbol (last (output_sequence t)) (output_symbol_filters s)"
proof -
  obtain out where out: "step_internal X (mapper X fuel f) fuel (Suc 0) i s = Ret out t"
    and answer: "answer = filter_symbol out (output_symbol_filters t)"
    using assms(3) by (auto simp: step_def tryM_def raiseM_def ret_simps split: res.splits)
  have "sequences s" using assms(2) by (simp add: sequences_def)
  from classes.step_internal_Ret [OF assms(1) this out] answer show ?thesis
    by (simp add: sequences_def conf_rel_def)
qed

theorem step_records_witness:
  "\<exists>a t. step sim_env (mapper sim_env 20 RPiPico2W) 20 ''LL_CTRL_FEATURE_REQ'' (sim_start []) = Ret a t \<and>
     input_sequence t = [''LL_CTRL_FEATURE_REQ''] \<and> length (output_sequence t) = 1"
proof -
  obtain a t where st: "step sim_env (mapper sim_env 20 RPiPico2W) 20 ''LL_CTRL_FEATURE_REQ''
      (sim_start []) = Ret a t"
    using sim_step by blast
  with step_records [OF _ _ st] show ?thesis by (simp add: sim_start_def)
qed

text \<open>C22: A retry never starts another retry: allowing any depth of nesting gives the same step as
  allowing one.\<close>

theorem retries_do_not_nest:
  "step_internal X (mapper X fuel f) fuel (Suc d) i s = step_internal X (mapper X fuel f) fuel 1 i s"
  by (rule classes.step_internal_depth)

text \<open>C3: Runs end. In a world whose calls come back and whose clock goes forward, \<open>pre\<close> and every
  step of every class that does not answer packets itself return or raise, once the fuel is a
  hundred times the longest waiting time: the receive loops by their time limits, the encryption
  procedure too, a reset after at most 32 scans, a retry after at most seven attempts.\<close>

theorem runs_end:
  assumes "f \<noteq> IntelAX200BlueZ" and "world_halts X" and "clock_ok X now" and "clock_mono X now"
    and "100 * max 2 (max (recv_s_min s) (recv_s_max s)) + 1 \<le> of_nat fuel"
  shows "step X (mapper X fuel f) fuel i s \<noteq> NoRet \<and> pre_run (mapper X fuel f) s \<noteq> NoRet"
proof -
  obtain bound where L: "limited_stop X (mapper_hooks X f) bound (\<lambda>_. 0)"
    by (rule mapper_limited [OF assms(1)])
  note E = limited_ending [OF L, of fuel now]
  have "run_ok X now (\<lambda>_. 0) fuel s"
    using assms by (simp add: run_ok_def enough_turns_def wait_limit_def asks_nothing)
  then show ?thesis using ending_class.step_ends [OF E] ending_class.pre_ends [OF E] by blast
qed

theorem runs_end_witness:
  "step sim_live (mapper sim_live 201 RPiPico2W) 201 ''LL_DATA'' (sim_start []) \<noteq> NoRet"
  using runs_end [OF _ sim_live_halts sim_live_clock sim_live_mono, of RPiPico2W "sim_start []" 201
      "''LL_DATA''"]
  by (simp add: sim_start_def)

text \<open>C17: Nothing a test does changes the settings of the run. Whether a step or \<open>pre\<close> returns or
  raises, the target's address, the time limits, the output filters and the driver's
  configuration stay, and so does the symbols table once it is made, so that one packet has one
  symbol for the whole of learning; the key material keeps the sizes the cipher needs.\<close>

theorem settings_kept:
  assumes "final (step X (mapper X fuel f) fuel i s) = Some t \<or>
           final (pre_run (mapper X fuel f) s) = Some t"
  shows "conf_rel s t \<and> sym_rel s t \<and> wf_rel s t"
proof -
  have "keeps R (step X (mapper X fuel f) fuel i) \<and> keeps R (pre_run (mapper X fuel f))"
    if "run_frame R X" for R
    using that cls_keep_mapper keeps_pre_run run_frame.keeps_step
    by (blast dest: run_frame.axioms(1) reset_frame.axioms(1))
  from this [OF conf.run_frame_axioms] this [OF symtab.run_frame_axioms]
    this [OF wf.run_frame_axioms] assms
  show ?thesis by (auto simp: keeps_def)
qed

theorem settings_kept_witness:
  "\<exists>a t. step sim_env (mapper sim_env 20 RPiPico2W) 20 ''LL_CTRL_FEATURE_REQ'' (sim_start []) = Ret a t \<and>
     recv_s_min t = 1 / 10 \<and> symbols t = Some Map.empty"
proof -
  obtain a t where st: "step sim_env (mapper sim_env 20 RPiPico2W) 20 ''LL_CTRL_FEATURE_REQ''
      (sim_start []) = Ret a t"
    using sim_step by blast
  then have "final (step sim_env (mapper sim_env 20 RPiPico2W) 20 ''LL_CTRL_FEATURE_REQ''
      (sim_start [])) = Some t" by simp
  from settings_kept [OF disjI1, OF this] st show ?thesis
    by (auto simp: sim_start_def conf_rel_def sym_rel_def)
qed





text \<open>The scans of a reset: a loop that returns ends with an answered one.\<close>

lemma scan_loop_answered:
  assumes H: "hooks_keep conf_rel H"
  shows "scan_loop X H fuel i n v = Ret () t \<Longrightarrow>
    \<exists>j < i + n. \<exists>req u pkts. list_ex (haslayer BTLE_SCAN_RSP) pkts \<and>
      receive X H fuel (Some (scan_wait (recv_s_min v) j)) None 0 (Some req) u = Ret pkts t"
proof (induction n arbitrary: i v)
  case (Suc n)
  then obtain req v1 v2 pkts v3 where v: "mk_packet ''LL_ADV_SCAN_REQ'' v = Ret req v1"
      "send X req v1 = Ret () v2"
    and rec: "receive X H fuel (Some (scan_wait (recv_s_min v2) i)) None 0 (Some req) v2 = Ret pkts v3"
    and rest: "list_ex (haslayer BTLE_SCAN_RSP) pkts \<and> v3 = t \<or>
      (\<exists>v4. whenM (28 \<le> i) (reset_device X fuel) v3 = Ret () v4 \<and>
            scan_loop X H fuel (Suc i) n v4 = Ret () t)"
    by (auto simp: ret_simps split: if_splits)
  have C: "conf_rel v v2"
    using keeps_Ret [OF conf.keeps_mk_packet v(1)] keeps_Ret [OF conf.keeps_send v(2)]
    by (rule conf.step_trans)
  from rest show ?case
  proof
    assume "list_ex (haslayer BTLE_SCAN_RSP) pkts \<and> v3 = t"
    with rec C have "list_ex (haslayer BTLE_SCAN_RSP) pkts \<and>
        receive X H fuel (Some (scan_wait (recv_s_min v) i)) None 0 (Some req) v2 = Ret pkts t"
      by (simp add: conf_rel_def)
    moreover have "i < i + Suc n" by simp
    ultimately show ?thesis by blast
  next
    assume "\<exists>v4. whenM (28 \<le> i) (reset_device X fuel) v3 = Ret () v4 \<and>
            scan_loop X H fuel (Suc i) n v4 = Ret () t"
    then obtain v4 where v4: "whenM (28 \<le> i) (reset_device X fuel) v3 = Ret () v4"
        "scan_loop X H fuel (Suc i) n v4 = Ret () t" by blast
    have "conf_rel v2 v3" by (rule keeps_Ret [OF conf.keeps_receive [OF H] rec])
    moreover have "keeps conf_rel (whenM (28 \<le> i) (reset_device X fuel))"
      by (intro conf.comp_rules conf.keeps_reset_device)
    then have "conf_rel v3 v4" using v4(1) by (rule keeps_Ret)
    ultimately have "recv_s_min v4 = recv_s_min v" using C by (simp add: conf_rel_def)
    with Suc.IH [OF v4(2)] show ?thesis by auto
  qed
qed (simp add: raiseM_def)

text \<open>C19: A reset that returns has heard from the device. It returns only after one of at most 32
  scan requests was answered by a scan response, each waited for twice as long as the one before,
  up to two seconds.\<close>

theorem reset_heard_device:
  assumes "reset X (mapper_hooks X f) fuel s = Ret () t"
  shows "\<exists>i < 32. \<exists>req u pkts. list_ex (haslayer BTLE_SCAN_RSP) pkts \<and>
    receive X (mapper_hooks X f) fuel (Some (min 2 (recv_s_min s * 2 ^ i))) None 0 (Some req) u =
      Ret pkts t"
proof -
  have H: "hooks_keep conf_rel (mapper_hooks X f)"
    by (rule mapper_frame.hooks_keep_mapper [OF conf.mapper_frame_axioms])
  let ?closing = "whenM (connection s \<noteq> None)
       (bindM (mk_packet ''LL_CTRL_TERMINATE_IND'') (\<lambda>pkt. thenM (send X pkt)
          (bindM (getM recv_s_min) (\<lambda>d. outM (time_sleep X d)))))"
  obtain u v where old: "?closing s = Ret () u" and new: "new_connection X u = Ret () v"
    and v: "scan_loop X (mapper_hooks X f) fuel 0 32 v = Ret () t"
    using assms unfolding reset_def ret_simps by auto
  have "keeps conf_rel ?closing"
    by (intro conf.comp_rules conf.keeps_mk_packet conf.keeps_send conf.R_wait)
  from keeps_Ret [OF this old] keeps_Ret [OF conf.keeps_new_connection new]
  have "recv_s_min v = recv_s_min s" by (simp add: conf_rel_def)
  with scan_loop_answered [OF H v] show ?thesis by (auto simp: scan_wait_def)
qed

theorem reset_heard_device_witness:
  "\<exists>t u pkts. reset sim_env (mapper_hooks sim_env RPiPico2W) 20 (sim_start sim_scan_rsp) = Ret () t \<and>
     list_ex (haslayer BTLE_SCAN_RSP) pkts"
proof -
  obtain t where "pre_run (mapper sim_env 20 RPiPico2W) (sim_start sim_scan_rsp) = Ret () t"
    using sim_pre by blast
  then have "reset sim_env (mapper_hooks sim_env RPiPico2W) 20 (sim_start sim_scan_rsp) = Ret () t"
    by (auto simp: mapper_def dest: pre_Ret)
  with reset_heard_device [OF this] show ?thesis by blast
qed

text \<open>A symbol the mapper does not know is refused before anything is sent: the step raises
  \<open>KeyError\<close> and the state is the one before, in every class.\<close>

theorem step_unknown_symbol:
  assumes "i \<notin> set packet_names"
  shows "step X (mapper X fuel f) fuel i s = Raise (KeyError i) s"
proof -
  have "map fst (packets pa pr cr c) = packet_names" for pa pr cr c
    by (simp add: packet_names_def packets_def)
  then have "map_of (sul_packets s c) i = None" for c
    using assms by (metis map_of_eq_None_iff set_map sul_packets_def)
  then have "mk_packet i s = Raise (KeyError i) s"
    using assms by (simp add: mk_packet_def split: option.split)
  then show ?thesis
    by (simp add: step_def step_with_def run_symbol_def tryM_def raiseM_def)
qed

theorem step_unknown_symbol_witness:
  "step sim_env (mapper sim_env 20 CI) 20 ''LL_FOO'' (sim_start []) =
     Raise (KeyError ''LL_FOO'') (sim_start [])"
  by (rule step_unknown_symbol) (simp add: packet_names_def packets_def)

end
